(* ===== verification/Prelude.thy ===== *)
theory Prelude
  imports Main "HOL-Library.Word" "HOL-Library.Monad_Syntax" "HOL-Library.AList"
begin

text \<open>
  Shared vocabulary of the development: the machine types of the Go and Rust sources, decimal
  rendering of numbers, and the generic lemmas on options, words and lists that the component
  theories use.

  Go's \<^verbatim>\<open>string\<close> and \<^verbatim>\<open>[]byte\<close> are both sequences of bytes; an Isabelle \<open>char\<close> is eight bits,
  so both are \<open>char list\<close> and the conversions between them are the identity. A Go \<^verbatim>\<open>error\<close> that
  may be nil is an \<open>option\<close>. A call that returns a value together with an error is a sum, with
  \<open>Inl\<close> the error. A function that may block for ever returns an \<open>option\<close>, with \<open>None\<close> for the call
  that never returns; the option monad sequences such functions.
\<close>

type_synonym u64 = "64 word"
type_synonym i32 = "32 word"
type_synonym byte = char
type_synonym bytes = "char list"

named_theorems live_simps \<open>what the registry operations leave in a slot\<close>
named_theorems step_frame \<open>fields a step of the model does not touch\<close>

subsection \<open>Decimal rendering\<close>

definition digit_char :: "nat \<Rightarrow> char" where
  "digit_char d = char_of (48 + d)"

fun dec :: "nat \<Rightarrow> string" where
  "dec n = (if n < 10 then [digit_char n] else dec (n div 10) @ [digit_char (n mod 10)])"

declare dec.simps [simp del]

definition dec_int :: "int \<Rightarrow> string" where
  "dec_int i = (if i < 0 then ''-'' @ dec (nat (- i)) else dec (nat i))"

lemma dec_nonempty [simp]: "dec n \<noteq> []"
  by (subst dec.simps) simp

subsection \<open>Words\<close>

text \<open>A counter that has not reached its last value steps to a strictly larger, non-zero value.\<close>

lemma unat_Suc_word:
  fixes x :: u64
  assumes "unat x + 1 < 2 ^ 64"
  shows "unat (x + 1) = unat x + 1"
  using assms by (simp add: unat_word_ariths)

lemma word_less_succ:
  fixes x :: u64
  assumes "unat x + 1 < 2 ^ 64"
  shows "x < x + 1" and "0 < x + 1" and "h < x \<Longrightarrow> h < x + 1" and "h < x + 1 \<longleftrightarrow> h < x \<or> h = x"
  using assms unat_Suc_word [OF assms]
  by (auto simp: word_less_nat_alt word_unat_eq_iff)

lemma unat_plus_one_le: "unat (x + 1 :: u64) \<le> unat x + 1"
  using unat_word_ariths(1) [of x 1] by (simp add: mod_less_eq_dividend)

lemma unat_plus_two_le: "unat (x + 1 + 1 :: u64) \<le> unat x + 2"
  using unat_plus_one_le [of x] unat_plus_one_le [of "x + 1"] by simp

subsection \<open>Lists\<close>

lemma count_list_append_single [simp]:
  "count_list (xs @ [x]) y = count_list xs y + (if x = y then 1 else 0)"
  by simp

lemma take_add_drop: "take m xs @ take n (drop m xs) = take (m + n) xs"
  by (simp add: take_add)

end
