(* ===== verification/Registry.thy ===== *)
theory Registry
  imports Prelude
begin

text \<open>
  The library's handle table (\<^verbatim>\<open>rust/irohgo-ffi/src/registry.rs\<close>) and its errors
  (\<^verbatim>\<open>error.rs\<close>): sixteen shards, each a map from handles to objects, and one counter that hands
  out handle ids. The table is generic in the objects it holds. \<open>lookup\<close> reads it as one flat map.
  The interface the rest of the library relies on is the locale \<open>handle_table\<close>; its main lemma is
  that a handle that is dead stays dead, whatever is inserted and removed afterwards. The reference
  \<open>flat\<close> is the same table without shards; the module gives the answers of the reference.
\<close>

subsection \<open>error.rs\<close>

datatype ErrKind =
    Internal | InvalidInput | KeyParsing | TicketParsing | Bind | Connect | Connection | Stream
  | Datagram | Alpn | Relay | Closed | Timeout | Cancelled

definition kind_code :: "ErrKind \<Rightarrow> i32" where
  "kind_code k = (case k of Internal \<Rightarrow> 0 | InvalidInput \<Rightarrow> 1 | KeyParsing \<Rightarrow> 2 | TicketParsing \<Rightarrow> 3
     | Bind \<Rightarrow> 4 | Connect \<Rightarrow> 5 | Connection \<Rightarrow> 6 | Stream \<Rightarrow> 7 | Datagram \<Rightarrow> 8 | Alpn \<Rightarrow> 9
     | Relay \<Rightarrow> 10 | Closed \<Rightarrow> 11 | Timeout \<Rightarrow> 12 | Cancelled \<Rightarrow> 13)"

record rust_error =
  err_kind :: ErrKind
  err_msg :: string

definition rerr :: "ErrKind \<Rightarrow> string \<Rightarrow> rust_error" where
  "rerr k m = \<lparr>err_kind = k, err_msg = m\<rparr>"

lemma rerr_sel [simp]: "err_kind (rerr k m) = k" "err_msg (rerr k m) = m"
  by (simp_all add: rerr_def)

subsection \<open>The sharded table\<close>

definition NULL_HANDLE :: u64 where "NULL_HANDLE = 0"

definition SHARDS :: nat where "SHARDS = 16"

record 's registry =
  shards :: "nat \<Rightarrow> u64 \<rightharpoonup> 's"
  next_id :: u64

definition registry_init :: "'s registry" where
  "registry_init = \<lparr>shards = (\<lambda>_. Map.empty), next_id = 1\<rparr>"

definition shard :: "u64 \<Rightarrow> nat" where
  "shard h = unat h mod SHARDS"

definition reserve :: "'s registry \<Rightarrow> u64 \<times> 's registry" where
  "reserve r = (next_id r, r\<lparr>next_id := next_id r + 1\<rparr>)"

definition publish :: "u64 \<Rightarrow> 's \<Rightarrow> 's registry \<Rightarrow> 's registry" where
  "publish h v r = r\<lparr>shards := (shards r)(shard h := (shards r (shard h))(h \<mapsto> v))\<rparr>"

definition insert_slot :: "'s \<Rightarrow> 's registry \<Rightarrow> u64 \<times> 's registry" where
  "insert_slot v r = (let (h, r1) = reserve r in (h, publish h v r1))"

text \<open>\<^verbatim>\<open>get::<T>\<close>: \<open>downcast\<close> answers whether the object found is a \<^verbatim>\<open>T\<close>.\<close>

definition get_slot :: "('s \<Rightarrow> 'a option) \<Rightarrow> u64 \<Rightarrow> 's registry \<Rightarrow> rust_error + 'a" where
  "get_slot downcast h r =
     (if h = NULL_HANDLE then Inl (rerr InvalidInput ''null handle'')
      else case shards r (shard h) h of
        None \<Rightarrow> Inl (rerr Closed (''handle '' @ dec (unat h) @ '' is not live''))
      | Some slot \<Rightarrow> (case downcast slot of
          None \<Rightarrow> Inl (rerr InvalidInput (''handle '' @ dec (unat h) @ '' has wrong type''))
        | Some v \<Rightarrow> Inr v))"

definition remove :: "u64 \<Rightarrow> 's registry \<Rightarrow> bool \<times> 's registry" where
  "remove h r =
     (if h = NULL_HANDLE then (False, r)
      else (shards r (shard h) h \<noteq> None,
            r\<lparr>shards := (shards r)(shard h := (shards r (shard h))(h := None))\<rparr>))"

definition len :: "'s registry \<Rightarrow> nat" where
  "len r = (\<Sum>i < SHARDS. card (dom (shards r i)))"

subsection \<open>The table as one flat map\<close>

definition lookup :: "'s registry \<Rightarrow> u64 \<rightharpoonup> 's" where
  "lookup r h = shards r (shard h) h"

lemma lookup_init [live_simps]: "lookup registry_init h = None"
  by (simp add: lookup_def registry_init_def)

lemma next_init [live_simps]: "next_id registry_init = 1"
  by (simp add: registry_init_def)

lemma lookup_next_upd [live_simps]: "lookup (r\<lparr>next_id := n\<rparr>) = lookup r"
  by (auto simp: lookup_def fun_eq_iff)

lemma lookup_publish [live_simps]: "lookup (publish h v r) = (lookup r)(h \<mapsto> v)"
  by (auto simp: lookup_def publish_def fun_eq_iff)

lemma lookup_remove [live_simps]:
  "lookup (snd (remove h r)) = (if h = 0 then lookup r else (lookup r)(h := None))"
  by (auto simp: lookup_def remove_def fun_eq_iff NULL_HANDLE_def)

lemma remove_live [live_simps]: "fst (remove h r) \<longleftrightarrow> h \<noteq> 0 \<and> lookup r h \<noteq> None"
  by (auto simp: lookup_def remove_def NULL_HANDLE_def)

lemma remove_null [live_simps]: "remove 0 r = (False, r)"
  by (simp add: remove_def NULL_HANDLE_def)

lemma next_publish [live_simps]: "next_id (publish h v r) = next_id r"
  by (simp add: publish_def)

lemma next_remove [live_simps]: "next_id (snd (remove h r)) = next_id r"
  by (simp add: remove_def)

lemma reserve_eq [live_simps]: "reserve r = (next_id r, r\<lparr>next_id := next_id r + 1\<rparr>)"
  by (rule reserve_def)

lemma insert_slot_eq [live_simps]:
  "insert_slot v r = (next_id r, publish (next_id r) v (r\<lparr>next_id := next_id r + 1\<rparr>))"
  by (simp add: insert_slot_def reserve_def)

lemma get_slot_lookup:
  "get_slot d h r =
     (if h = 0 then Inl (rerr InvalidInput ''null handle'')
      else case lookup r h of
        None \<Rightarrow> Inl (rerr Closed (''handle '' @ dec (unat h) @ '' is not live''))
      | Some slot \<Rightarrow> (case d slot of
          None \<Rightarrow> Inl (rerr InvalidInput (''handle '' @ dec (unat h) @ '' has wrong type''))
        | Some v \<Rightarrow> Inr v))"
  by (simp add: get_slot_def lookup_def NULL_HANDLE_def)

subsection \<open>The interface: what the library relies on\<close>

text \<open>The two operations that change which handles are live.\<close>

datatype 's table_op = Insert 's | Remove u64

locale handle_table =
  fixes look :: "'t \<Rightarrow> u64 \<rightharpoonup> 's"
    and ins :: "'s \<Rightarrow> 't \<Rightarrow> u64 \<times> 't"
    and rem :: "u64 \<Rightarrow> 't \<Rightarrow> bool \<times> 't"
    and bound :: "'t \<Rightarrow> nat"
  assumes ins_look: "look (snd (ins v t)) = (look t)(fst (ins v t) \<mapsto> v)"
    and ins_handle: "bound t + 1 < 2 ^ 64 \<Longrightarrow> unat (fst (ins v t)) = bound t"
    and ins_bound: "bound t + 1 < 2 ^ 64 \<Longrightarrow> bound (snd (ins v t)) = bound t + 1"
    and rem_look: "h \<noteq> 0 \<Longrightarrow> look (snd (rem h t)) = (look t)(h := None)"
    and rem_null: "rem 0 t = (False, t)"
    and rem_result: "h \<noteq> 0 \<Longrightarrow> fst (rem h t) \<longleftrightarrow> look t h \<noteq> None"
    and rem_bound: "bound (snd (rem h t)) = bound t"
begin

fun apply_op :: "'s table_op \<Rightarrow> 't \<Rightarrow> 't" where
  "apply_op (Insert v) t = snd (ins v t)"
| "apply_op (Remove h) t = snd (rem h t)"

lemma insert_lookup: "look (snd (ins v t)) (fst (ins v t)) = Some v"
  by (simp add: ins_look)

lemma rem_twice: "h \<noteq> 0 \<Longrightarrow> \<not> fst (rem h (snd (rem h t)))"
  by (simp add: rem_result rem_look)

lemma apply_op_bound:
  "bound t + 1 < 2 ^ 64 \<Longrightarrow> bound t \<le> bound (apply_op a t) \<and> bound (apply_op a t) \<le> bound t + 1"
  by (cases a) (auto simp: ins_bound rem_bound)

lemma apply_op_dead:
  assumes "look t h = None" and "unat h < bound t" and "bound t + 1 < 2 ^ 64"
  shows "look (apply_op a t) h = None"
proof (cases a)
  case (Insert v)
  have "fst (ins v t) \<noteq> h" using assms(2) ins_handle [OF assms(3), of v] by auto
  then show ?thesis using Insert assms(1) by (simp add: ins_look)
next
  case (Remove k)
  then show ?thesis using assms(1) by (cases "k = 0") (auto simp: rem_look rem_null)
qed

lemma dead_stays_dead:
  "look t h = None \<Longrightarrow> unat h < bound t \<Longrightarrow> bound t + length as < 2 ^ 64 \<Longrightarrow>
   look (fold apply_op as t) h = None"
proof (induction as arbitrary: t)
  case Nil
  then show ?case by simp
next
  case (Cons a as)
  let ?t = "apply_op a t"
  have b: "bound t \<le> bound ?t \<and> bound ?t \<le> bound t + 1"
    using Cons.prems(3) by (intro apply_op_bound) simp
  have "look ?t h = None"
    using Cons.prems by (intro apply_op_dead) simp_all
  then have "look (fold apply_op as ?t) h = None"
    using Cons.prems b by (intro Cons.IH) auto
  then show ?case by simp
qed

end

interpretation reg: handle_table lookup insert_slot remove "\<lambda>r. unat (next_id r)"
proof unfold_locales
  fix v and t :: "'s registry"
  show "lookup (snd (insert_slot v t)) = (lookup t)(fst (insert_slot v t) \<mapsto> v)"
    by (simp add: live_simps)
qed (auto simp: live_simps unat_Suc_word)

text \<open>Running inserts and removals on the sharded table.\<close>

definition registry_run :: "'s table_op list \<Rightarrow> 's registry \<Rightarrow> 's registry" where
  "registry_run = fold (\<lambda>a r. case a of Insert v \<Rightarrow> snd (insert_slot v r) | Remove h \<Rightarrow> snd (remove h r))"

lemma registry_run_apply: "registry_run as r = fold reg.apply_op as r"
  unfolding registry_run_def by (rule fold_cong) (auto split: table_op.splits)

text \<open>
  C18: a handle that was freed is never live again: after any later history of inserts and removals
  shorter than the id space, looking it up reports \<^verbatim>\<open>ErrKind::Closed\<close>, whatever type is asked for.
  This is what makes a second free, or a call on a stale handle, harmless.
\<close>

theorem freed_handle_stays_dead:
  assumes "0 < h" and "h < next_id r" and "unat (next_id r) + length as < 2 ^ 64"
  shows "\<exists>m. get_slot d h (registry_run as (snd (remove h r))) = Inl (rerr Closed m)"
proof -
  let ?r = "snd (remove h r)"
  have "h \<noteq> 0" using assms(1) by simp
  then have "lookup ?r h = None" by (simp add: live_simps)
  moreover have "unat h < unat (next_id ?r)"
    using assms(2) by (simp add: live_simps word_less_nat_alt)
  ultimately have "lookup (registry_run as ?r) h = None"
    using assms(3) unfolding registry_run_apply
    by (intro reg.dead_stays_dead) (simp_all add: live_simps)
  then show ?thesis using assms(1) by (auto simp: get_slot_lookup)
qed

theorem freed_handle_stays_dead_witness:
  "\<exists>m. get_slot Some 1 (registry_run [Insert ''b'', Remove 7, Insert ''c'']
     (snd (remove 1 (snd (insert_slot ''a'' registry_init))))) = Inl (rerr Closed m)"
  by (rule freed_handle_stays_dead) (simp_all add: live_simps)

subsection \<open>Sharding is invisible\<close>

definition registry_ok :: "'s registry \<Rightarrow> bool" where
  "registry_ok r \<longleftrightarrow> (\<forall>i h. shards r i h \<noteq> None \<longrightarrow> i = shard h) \<and> finite (dom (lookup r))"

lemma registry_ok_init: "registry_ok registry_init"
  by (simp add: registry_ok_def registry_init_def lookup_def)

lemma registry_ok_insert: "registry_ok r \<Longrightarrow> registry_ok (snd (insert_slot v r))"
  by (auto simp: registry_ok_def live_simps) (auto simp: publish_def split: if_splits)

lemma registry_ok_remove: "registry_ok r \<Longrightarrow> registry_ok (snd (remove h r))"
  by (auto simp: registry_ok_def live_simps) (auto simp: remove_def split: if_splits)

lemma shard_less: "shard h < SHARDS"
  by (simp add: shard_def SHARDS_def)

lemma len_flat:
  assumes ok: "registry_ok r"
  shows "len r = card (dom (lookup r))"
proof -
  have sub: "dom (shards r i) \<subseteq> dom (lookup r)" for i
    using ok by (fastforce simp: registry_ok_def lookup_def)
  have eq: "dom (lookup r) = (\<Union>i < SHARDS. dom (shards r i))"
    using sub shard_less by (fastforce simp: lookup_def)
  have fin: "finite (dom (shards r i))" for i
    using sub ok finite_subset by (auto simp: registry_ok_def)
  have "card (\<Union>i < SHARDS. dom (shards r i)) = (\<Sum>i < SHARDS. card (dom (shards r i)))"
  proof (rule card_UN_disjoint)
    show "\<forall>i\<in>{..<SHARDS}. \<forall>j\<in>{..<SHARDS}. i \<noteq> j \<longrightarrow> dom (shards r i) \<inter> dom (shards r j) = {}"
      using ok unfolding registry_ok_def by blast
  qed (simp_all add: fin)
  then show ?thesis by (simp add: eq len_def)
qed

subsection \<open>The same table without shards\<close>

text \<open>
  The reference: one map and one counter, with the answers the functions of the module are documented to give.
\<close>

record 's flat =
  flat_slots :: "u64 \<rightharpoonup> 's"
  flat_next :: u64

definition flat_init :: "'s flat" where
  "flat_init = \<lparr>flat_slots = Map.empty, flat_next = 1\<rparr>"

text \<open>The calls of the module and what they return; \<open>d\<close> table_answers whether an object has the type asked for.\<close>

datatype 's request = AskReserve | AskPublish u64 's | AskInsert 's | AskGet u64 | AskRemove u64 | AskLen

datatype 'a answer = GaveHandle u64 | GaveNothing | GaveSlot "rust_error + 'a" | GaveLive bool | GaveLen nat

fun flat_call :: "('s \<Rightarrow> 'a option) \<Rightarrow> 's request \<Rightarrow> 's flat \<Rightarrow> 'a answer \<times> 's flat" where
  "flat_call d AskReserve t = (GaveHandle (flat_next t), t\<lparr>flat_next := flat_next t + 1\<rparr>)"
| "flat_call d (AskPublish h v) t = (GaveNothing, t\<lparr>flat_slots := (flat_slots t)(h \<mapsto> v)\<rparr>)"
| "flat_call d (AskInsert v) t = (GaveHandle (flat_next t), t\<lparr>flat_slots := (flat_slots t)(flat_next t \<mapsto> v), flat_next := flat_next t + 1\<rparr>)"
| "flat_call d (AskGet h) t = (GaveSlot (if h = 0 then Inl (rerr InvalidInput ''null handle'')
     else case flat_slots t h of
       None \<Rightarrow> Inl (rerr Closed (''handle '' @ dec (unat h) @ '' is not live''))
     | Some slot \<Rightarrow> (case d slot of
         None \<Rightarrow> Inl (rerr InvalidInput (''handle '' @ dec (unat h) @ '' has wrong type''))
       | Some v \<Rightarrow> Inr v)), t)"
| "flat_call d (AskRemove h) t = (if h = 0 then (GaveLive False, t) else (GaveLive (h \<in> dom (flat_slots t)), t\<lparr>flat_slots := (flat_slots t)(h := None)\<rparr>))"
| "flat_call d AskLen t = (GaveLen (card (dom (flat_slots t))), t)"

fun table_call :: "('s \<Rightarrow> 'a option) \<Rightarrow> 's request \<Rightarrow> 's registry \<Rightarrow> 'a answer \<times> 's registry" where
  "table_call d AskReserve r = map_prod GaveHandle id (reserve r)"
| "table_call d (AskPublish h v) r = (GaveNothing, publish h v r)"
| "table_call d (AskInsert v) r = map_prod GaveHandle id (insert_slot v r)"
| "table_call d (AskGet h) r = (GaveSlot (get_slot d h r), r)"
| "table_call d (AskRemove h) r = map_prod GaveLive id (remove h r)"
| "table_call d AskLen r = (GaveLen (len r), r)"

fun table_answers :: "('q \<Rightarrow> 't \<Rightarrow> 'b \<times> 't) \<Rightarrow> 'q list \<Rightarrow> 't \<Rightarrow> 'b list" where
  "table_answers f [] t = []"
| "table_answers f (q # qs) t = (let (b, t1) = f q t in b # table_answers f qs t1)"

text \<open>The abstraction, and that every call commutes with it.\<close>

definition flatten :: "'s registry \<Rightarrow> 's flat" where
  "flatten r = \<lparr>flat_slots = lookup r, flat_next = next_id r\<rparr>"

lemma flatten_init: "flatten registry_init = flat_init"
  by (simp add: flatten_def flat_init_def live_simps fun_eq_iff)

lemma flatten_fields [simp]: "flat_slots (flatten r) = lookup r" "flat_next (flatten r) = next_id r"
  by (simp_all add: flatten_def)

lemma registry_ok_publish: "registry_ok r \<Longrightarrow> registry_ok (publish h v r)"
  by (auto simp: registry_ok_def live_simps) (auto simp: publish_def split: if_splits)

lemma registry_ok_call:
  assumes "registry_ok r"
  shows "registry_ok (snd (table_call d q r))"
proof (cases q)
  case AskReserve
  then show ?thesis using assms by (simp add: registry_ok_def live_simps)
qed (use assms in \<open>simp_all add: registry_ok_publish registry_ok_insert registry_ok_remove\<close>)

lemma table_call_flat:
  assumes "registry_ok r"
  shows "flat_call d q (flatten r) = map_prod id flatten (table_call d q r)"
proof (cases q)
  case (AskRemove h)
  obtain b r1 where rm: "remove h r = (b, r1)" by fastforce
  then have "b = (h \<noteq> 0 \<and> h \<in> dom (lookup r))" "lookup r1 = (if h = 0 then lookup r else (lookup r)(h := None))"
    "next_id r1 = next_id r"
    using remove_live [of h r] lookup_remove [of h r] next_remove [of h r] by (auto simp: dom_def)
  then show ?thesis using AskRemove rm by (cases "h = 0") (auto simp: flatten_def)
next
  case (AskGet h)
  then show ?thesis by (simp add: get_slot_lookup)
next
  case AskLen
  then show ?thesis using len_flat [OF assms] by simp
qed (simp_all add: flatten_def live_simps)

lemma table_answers_flat: "registry_ok r \<Longrightarrow> table_answers (table_call d) qs r = table_answers (flat_call d) qs (flatten r)"
proof (induction qs arbitrary: r)
  case (Cons q qs)
  obtain a r1 where s: "table_call d q r = (a, r1)" by fastforce
  have "registry_ok r1" using registry_ok_call [OF Cons.prems, of d q] s by simp
  moreover have "flat_call d q (flatten r) = (a, flatten r1)" using table_call_flat [OF Cons.prems, of d q] s by simp
  ultimately show ?case using Cons.IH s by simp
qed simp

text \<open>
  C19: the sixteen shards behave as one map: whatever the sequence of calls of the module, reserving, publishing,
  inserting, looking up under any type, removing and counting, every answer is the one a single map with a
  counter gives, the handles, the objects, the errors with their texts, and the count included.
\<close>

theorem sharding_invisible:
  "table_answers (table_call d) qs registry_init = table_answers (flat_call d) qs flat_init"
  using table_answers_flat [OF registry_ok_init] by (simp add: flatten_init)

end
