(* ===== verification/Native_Library.thy ===== *)
theory Native_Library
  imports Registry
begin

text \<open>
  The native library the bindings call (\<^verbatim>\<open>rust/irohgo-ffi/src\<close>): the buffers it hands out
  (\<^verbatim>\<open>ffi.rs\<close>), the table of asynchronous operations and the completion queue (\<^verbatim>\<open>ops.rs\<close>), the
  collection of results and errors (\<^verbatim>\<open>lib.rs\<close>), and the asynchronous bodies of \<^verbatim>\<open>stream.rs\<close>,
  \<^verbatim>\<open>conn.rs\<close> and \<^verbatim>\<open>endpoint.rs\<close>.

  The iroh crate and the network below it are not part of the repository. They are the argument
  \<open>I :: 'n iroh\<close>: one function per method the library calls, over a network state \<open>'n\<close> of which
  nothing is assumed here. An object of the crate is named by the handle it is published under.
\<close>

subsection \<open>The crate below: the parameter\<close>

text \<open>An error of a stream method: the connection is gone, or only this stream failed.\<close>

datatype stream_error = ConnectionLost string | StreamFailed string

text \<open>
  The address of an endpoint: its id and the transports it can be reached by. Socket addresses and
  relay urls are kept in the text form the crate prints.
\<close>

datatype transport = TRelay string | TIp string | TCustom u64 bytes

record endpoint_addr =
  ra_id :: bytes
  ra_addrs :: "transport list"

text \<open>A builder with everything \<^verbatim>\<open>Opts::into_builder\<close> puts into it.\<close>

datatype preset = BuilderEmpty | Minimal | N0DisableRelay | N0
datatype relay_mode = RelayModeDefault | RelayModeDisabled | RelayModeStaging | RelayModeCustom "string list"

record builder =
  b_preset :: preset
  b_secret_key :: "bytes option"
  b_alpns :: "bytes list option"
  b_relay_mode :: "relay_mode option"
  b_clear_ip :: bool
  b_bind_addrs :: "string list"

datatype addr_kind = KIp | KRelay | KCustom

record 'n iroh =
  i_write :: "u64 \<Rightarrow> bytes \<Rightarrow> 'n \<Rightarrow> (stream_error + u64) \<times> 'n"
  i_finish :: "u64 \<Rightarrow> 'n \<Rightarrow> 'n"
  i_reset :: "u64 \<Rightarrow> u64 \<Rightarrow> 'n \<Rightarrow> 'n"
  i_set_priority :: "u64 \<Rightarrow> i32 \<Rightarrow> 'n \<Rightarrow> (string + unit) \<times> 'n"
  i_stopped :: "u64 \<Rightarrow> 'n \<Rightarrow> (stream_error + u64 option) \<times> 'n"
  i_read_chunk :: "u64 \<Rightarrow> u64 \<Rightarrow> 'n \<Rightarrow> (stream_error + bytes option) \<times> 'n"
  i_stop :: "u64 \<Rightarrow> u64 \<Rightarrow> 'n \<Rightarrow> 'n"
  i_open_bi :: "u64 \<Rightarrow> u64 \<times> u64 \<Rightarrow> 'n \<Rightarrow> (string + unit) \<times> 'n"
  i_accept_bi :: "u64 \<Rightarrow> u64 \<times> u64 \<Rightarrow> 'n \<Rightarrow> (string + unit) \<times> 'n"
  i_open_uni :: "u64 \<Rightarrow> u64 \<Rightarrow> 'n \<Rightarrow> (string + unit) \<times> 'n"
  i_accept_uni :: "u64 \<Rightarrow> u64 \<Rightarrow> 'n \<Rightarrow> (string + unit) \<times> 'n"
  i_read_datagram :: "u64 \<Rightarrow> 'n \<Rightarrow> (string + bytes) \<times> 'n"
  i_closed :: "u64 \<Rightarrow> 'n \<Rightarrow> string \<times> 'n"
  i_online :: "u64 \<Rightarrow> 'n \<Rightarrow> 'n"
  i_accept :: "u64 \<Rightarrow> u64 \<Rightarrow> 'n \<Rightarrow> (string + unit) option \<times> 'n"
  i_close :: "u64 \<Rightarrow> 'n \<Rightarrow> 'n"
  i_varint :: "u64 \<Rightarrow> string + u64"
  i_bind_addr :: "builder \<Rightarrow> string \<Rightarrow> string + builder"
  i_bind :: "builder \<Rightarrow> u64 \<Rightarrow> 'n \<Rightarrow> (string + unit) \<times> 'n"
  i_connect :: "u64 \<Rightarrow> endpoint_addr \<Rightarrow> bytes \<Rightarrow> u64 \<Rightarrow> 'n \<Rightarrow> (string + unit) \<times> 'n"
  i_remote_info :: "u64 \<Rightarrow> bytes \<Rightarrow> 'n \<Rightarrow> (addr_kind \<times> bool \<times> string) list option \<times> 'n"

subsection \<open>Operations and slots\<close>

datatype op_value = Unit | Handle u64 | Handle2 u64 u64 | U64 u64 | Bytes bytes | Eof

record op =
  cancel_requested :: bool
  result :: "(rust_error + op_value) option"

definition Op_new :: op where
  "Op_new = \<lparr>cancel_requested = False, result = None\<rparr>"

text \<open>The options object of an endpoint yet to be bound (\<^verbatim>\<open>Opts\<close>).\<close>

record opts =
  o_preset :: i32
  o_secret_key :: "bytes option"
  o_alpns :: "bytes list"
  o_relay_mode :: "i32 option"
  o_relay_urls :: "string list"
  o_bind_addrs :: "string list"

datatype slot = SOp op | SErr rust_error | SEndpoint | SConn | SSend | SRecv | SOptions opts

fun as_op :: "slot \<Rightarrow> op option" where "as_op (SOp p) = Some p" | "as_op _ = None"
fun as_err :: "slot \<Rightarrow> rust_error option" where "as_err (SErr e) = Some e" | "as_err _ = None"
fun as_endpoint :: "slot \<Rightarrow> unit option" where "as_endpoint SEndpoint = Some ()" | "as_endpoint _ = None"
fun as_conn :: "slot \<Rightarrow> unit option" where "as_conn SConn = Some ()" | "as_conn _ = None"
fun as_send :: "slot \<Rightarrow> unit option" where "as_send SSend = Some ()" | "as_send _ = None"
fun as_options :: "slot \<Rightarrow> opts option" where "as_options (SOptions q) = Some q" | "as_options _ = None"
fun as_recv :: "slot \<Rightarrow> unit option" where "as_recv SRecv = Some ()" | "as_recv _ = None"

text \<open>The bodies handed to \<^verbatim>\<open>ops::spawn\<close>, with what each captured.\<close>

datatype future =
    FWrite u64 bytes | FFinish u64 | FReset u64 u64 | FSetPriority u64 i32 | FStopped u64
  | FRead u64 u64 | FStop u64 u64
  | FOpenBi u64 | FAcceptBi u64 | FOpenUni u64 | FAcceptUni u64 | FReadDatagram u64 | FClosed u64
  | FOnline u64 | FAccept u64 | FEndpointClose u64
  | FBind opts | FConnect u64 endpoint_addr bytes | FRemoteInfo u64 bytes

text \<open>A task in flight: what it runs, and whether its abort handle was triggered.\<close>

record task =
  body :: future
  aborted :: bool

text \<open>
  The library's state. A buffer handed out is live in \<open>bufs\<close> under its address until it is freed;
  \<open>fault\<close> records a free of anything else, which would be undefined behaviour.
\<close>

record 'n lib =
  reg :: "slot registry"
  queue :: "(u64 \<times> i32) list"
  shut :: bool
  tasks :: "u64 \<rightharpoonup> task"
  bufs :: "nat \<rightharpoonup> bytes"
  next_buf :: nat
  fault :: bool
  net :: 'n

abbreviation live :: "('n, 'z) lib_scheme \<Rightarrow> u64 \<rightharpoonup> slot" where
  "live w \<equiv> lookup (reg w)"

definition COMPLETION_OK :: i32 where "COMPLETION_OK = 0"
definition COMPLETION_ERR :: i32 where "COMPLETION_ERR = 1"
definition COMPLETION_CANCELLED :: i32 where "COMPLETION_CANCELLED = 2"
definition FFI_OK :: i32 where "FFI_OK = 0"
definition FFI_ERR :: i32 where "FFI_ERR = 1"
definition NO_STOP_CODE :: u64 where "NO_STOP_CODE = - 1"

lemmas code_defs = COMPLETION_OK_def COMPLETION_ERR_def COMPLETION_CANCELLED_def
  FFI_OK_def FFI_ERR_def

subsection \<open>Buffers (ffi.rs)\<close>

text \<open>\<open>out_bytes\<close> yields the pointer and the length; address 0 is the null pointer.\<close>

definition out_bytes :: "bytes \<Rightarrow> ('n, 'z) lib_scheme \<Rightarrow> (nat \<times> nat) \<times> ('n, 'z) lib_scheme" where
  "out_bytes b w =
     (if b = [] then ((0, 0), w)
      else ((Suc (next_buf w), length b),
            w\<lparr>bufs := (bufs w)(Suc (next_buf w) \<mapsto> b), next_buf := Suc (next_buf w)\<rparr>))"

definition free_bytes :: "nat \<Rightarrow> nat \<Rightarrow> ('n, 'z) lib_scheme \<Rightarrow> ('n, 'z) lib_scheme" where
  "free_bytes p n w =
     (if p = 0 \<or> n = 0 then w
      else case bufs w p of
        None \<Rightarrow> w\<lparr>fault := True\<rparr>
      | Some b \<Rightarrow> w\<lparr>bufs := (bufs w)(p := None), fault := fault w \<or> length b \<noteq> n\<rparr>)"

definition store_err :: "rust_error \<Rightarrow> ('n, 'z) lib_scheme \<Rightarrow> (i32 \<times> u64) \<times> ('n, 'z) lib_scheme" where
  "store_err e w = (let (h, r) = insert_slot (SErr e) (reg w) in ((FFI_ERR, h), w\<lparr>reg := r\<rparr>))"

definition iroh_error_take :: "u64 \<Rightarrow> ('n, 'z) lib_scheme \<Rightarrow> (i32 \<times> nat \<times> nat) \<times> ('n, 'z) lib_scheme" where
  "iroh_error_take h w =
     (let (k, m) = (case get_slot as_err h (reg w) of
                      Inr e \<Rightarrow> (kind_code (err_kind e), err_msg e)
                    | Inl _ \<Rightarrow> (kind_code Internal, ''unknown error handle''));
          ((p, n), w1) = out_bytes m w
      in ((k, p, n), w1\<lparr>reg := snd (remove h (reg w1))\<rparr>))"

subsection \<open>The operation table and the completion queue (ops.rs)\<close>

fun value_handles :: "op_value \<Rightarrow> u64 list" where
  "value_handles (Handle h) = [h]"
| "value_handles (Handle2 a b) = [a, b]"
| "value_handles _ = []"

definition release_handles :: "op_value \<Rightarrow> ('n, 'z) lib_scheme \<Rightarrow> ('n, 'z) lib_scheme" where
  "release_handles v w = w\<lparr>reg := fold (\<lambda>h r. snd (remove h r)) (value_handles v) (reg w)\<rparr>"

definition op_drop :: "op \<Rightarrow> ('n, 'z) lib_scheme \<Rightarrow> ('n, 'z) lib_scheme" where
  "op_drop p w = (case result p of Some (Inr v) \<Rightarrow> release_handles v w | _ \<Rightarrow> w)"

definition status_of :: "rust_error + op_value \<Rightarrow> i32" where
  "status_of r = (case r of Inr _ \<Rightarrow> COMPLETION_OK
     | Inl e \<Rightarrow> if err_kind e = Cancelled then COMPLETION_CANCELLED else COMPLETION_ERR)"

text \<open>
  \<^verbatim>\<open>Op::post\<close>. The supervisor's reference keeps the operation alive until here; when Go has already
  freed it, the result is dropped with it.
\<close>

definition post :: "u64 \<Rightarrow> rust_error + op_value \<Rightarrow> ('n, 'z) lib_scheme \<Rightarrow> ('n, 'z) lib_scheme" where
  "post oid r w =
     (let w1 = w\<lparr>queue := queue w @ [(oid, status_of r)]\<rparr> in
      case live w oid of
        Some (SOp p) \<Rightarrow> w1\<lparr>reg := publish oid (SOp (p\<lparr>result := Some r\<rparr>)) (reg w1)\<rparr>
      | _ \<Rightarrow> op_drop \<lparr>cancel_requested = False, result = Some r\<rparr> w1)"

definition op_cancel :: "u64 \<Rightarrow> op \<Rightarrow> ('n, 'z) lib_scheme \<Rightarrow> ('n, 'z) lib_scheme" where
  "op_cancel oid p w =
     w\<lparr>reg := publish oid (SOp (p\<lparr>cancel_requested := True\<rparr>)) (reg w),
       tasks := (case tasks w oid of None \<Rightarrow> tasks w
                 | Some k \<Rightarrow> (tasks w)(oid \<mapsto> k\<lparr>aborted := True\<rparr>))\<rparr>"

definition take_result :: "u64 \<Rightarrow> op \<Rightarrow> ('n, 'z) lib_scheme \<Rightarrow> (rust_error + op_value) \<times> ('n, 'z) lib_scheme" where
  "take_result oid p w =
     (case result p of
        Some r \<Rightarrow> (r, w\<lparr>reg := publish oid (SOp (p\<lparr>result := None\<rparr>)) (reg w)\<rparr>)
      | None \<Rightarrow> (Inl (rerr Internal ''operation has not completed''), w))"

definition spawn :: "future \<Rightarrow> ('n, 'z) lib_scheme \<Rightarrow> u64 \<times> ('n, 'z) lib_scheme" where
  "spawn f w = (let (oid, r) = reserve (reg w) in
     (oid, w\<lparr>reg := publish oid (SOp Op_new) r, tasks := (tasks w)(oid \<mapsto> \<lparr>body = f, aborted = False\<rparr>)\<rparr>))"

definition spawn_ready :: "rust_error + op_value \<Rightarrow> ('n, 'z) lib_scheme \<Rightarrow> u64 \<times> ('n, 'z) lib_scheme" where
  "spawn_ready res w = (let (oid, r) = reserve (reg w) in
     (oid, post oid res (w\<lparr>reg := publish oid (SOp Op_new) r\<rparr>)))"

text \<open>\<^verbatim>\<open>ops::wait\<close> with an infinite timeout, when it returns: the oldest completion, or the shutdown.\<close>

datatype wait = Ready u64 i32 | Shutdown

definition wait_queue :: "('n, 'z) lib_scheme \<Rightarrow> (wait \<times> ('n, 'z) lib_scheme) option" where
  "wait_queue w = (case queue w of
     (oid, status) # q \<Rightarrow> Some (Ready oid status, w\<lparr>queue := q\<rparr>)
   | [] \<Rightarrow> if shut w then Some (Shutdown, w) else None)"

definition shutdown :: "('n, 'z) lib_scheme \<Rightarrow> ('n, 'z) lib_scheme" where
  "shutdown w = w\<lparr>shut := True\<rparr>"

subsection \<open>Collecting results (lib.rs)\<close>

definition iroh_op_cancel :: "u64 \<Rightarrow> ('n, 'z) lib_scheme \<Rightarrow> ('n, 'z) lib_scheme" where
  "iroh_op_cancel oid w = (case get_slot as_op oid (reg w) of Inr p \<Rightarrow> op_cancel oid p w | Inl _ \<Rightarrow> w)"

text \<open>
  Dropping the table's reference drops the operation, unless its task is still in flight: then the
  supervisor holds it until it posts.
\<close>

definition iroh_op_free :: "u64 \<Rightarrow> ('n, 'z) lib_scheme \<Rightarrow> ('n, 'z) lib_scheme" where
  "iroh_op_free oid w =
     (let w1 = w\<lparr>reg := snd (remove oid (reg w))\<rparr> in
      case live w oid of
        Some (SOp p) \<Rightarrow> if tasks w oid = None then op_drop p w1 else w1
      | _ \<Rightarrow> w1)"

definition take_op :: "u64 \<Rightarrow> ('n, 'z) lib_scheme \<Rightarrow> (rust_error + op_value) \<times> ('n, 'z) lib_scheme" where
  "take_op oid w = (case get_slot as_op oid (reg w) of Inl e \<Rightarrow> (Inl e, w) | Inr p \<Rightarrow> take_result oid p w)"

text \<open>The out-parameters of a result call: the status, the values written, the error handle.\<close>

definition iroh_op_result_handle :: "u64 \<Rightarrow> ('n, 'z) lib_scheme \<Rightarrow> (i32 \<times> u64 \<times> u64) \<times> ('n, 'z) lib_scheme" where
  "iroh_op_result_handle oid w =
     (case take_op oid w of
        (Inr (Handle h), w1) \<Rightarrow> ((FFI_OK, h, 0), w1)
      | (Inr _, w1) \<Rightarrow> (let ((rc, eh), w2) = store_err (rerr Internal ''operation did not yield a handle'') w1
                       in ((rc, 0, eh), w2))
      | (Inl e, w1) \<Rightarrow> (let ((rc, eh), w2) = store_err e w1 in ((rc, 0, eh), w2)))"

definition iroh_op_result_handle2 ::
    "u64 \<Rightarrow> ('n, 'z) lib_scheme \<Rightarrow> (i32 \<times> (u64 \<times> u64) \<times> u64) \<times> ('n, 'z) lib_scheme" where
  "iroh_op_result_handle2 oid w =
     (case take_op oid w of
        (Inr (Handle2 a b), w1) \<Rightarrow> ((FFI_OK, (a, b), 0), w1)
      | (Inr _, w1) \<Rightarrow> (let ((rc, eh), w2) = store_err (rerr Internal ''operation did not yield a handle pair'') w1
                       in ((rc, (0, 0), eh), w2))
      | (Inl e, w1) \<Rightarrow> (let ((rc, eh), w2) = store_err e w1 in ((rc, (0, 0), eh), w2)))"

definition iroh_op_result_u64 :: "u64 \<Rightarrow> ('n, 'z) lib_scheme \<Rightarrow> (i32 \<times> u64 \<times> u64) \<times> ('n, 'z) lib_scheme" where
  "iroh_op_result_u64 oid w =
     (case take_op oid w of
        (Inr (U64 v), w1) \<Rightarrow> ((FFI_OK, v, 0), w1)
      | (Inr Unit, w1) \<Rightarrow> ((FFI_OK, 0, 0), w1)
      | (Inr _, w1) \<Rightarrow> (let ((rc, eh), w2) = store_err (rerr Internal ''operation did not yield a scalar'') w1
                       in ((rc, 0, eh), w2))
      | (Inl e, w1) \<Rightarrow> (let ((rc, eh), w2) = store_err e w1 in ((rc, 0, eh), w2)))"

text \<open>The values written here are the buffer's pointer and length and the end-of-stream flag.\<close>

definition iroh_op_result_bytes ::
    "u64 \<Rightarrow> ('n, 'z) lib_scheme \<Rightarrow> (i32 \<times> (nat \<times> nat \<times> i32) \<times> u64) \<times> ('n, 'z) lib_scheme" where
  "iroh_op_result_bytes oid w =
     (case take_op oid w of
        (Inr (Bytes b), w1) \<Rightarrow> (let ((p, n), w2) = out_bytes b w1 in ((FFI_OK, (p, n, 0), 0), w2))
      | (Inr Eof, w1) \<Rightarrow> (let ((p, n), w2) = out_bytes [] w1 in ((FFI_OK, (p, n, 1), 0), w2))
      | (Inr Unit, w1) \<Rightarrow> (let ((p, n), w2) = out_bytes [] w1 in ((FFI_OK, (p, n, 0), 0), w2))
      | (Inr _, w1) \<Rightarrow> (let ((rc, eh), w2) = store_err (rerr Internal ''operation did not yield bytes'') w1
                       in ((rc, (0, 0, 0), eh), w2))
      | (Inl e, w1) \<Rightarrow> (let ((rc, eh), w2) = store_err e w1 in ((rc, (0, 0, 0), eh), w2)))"

definition iroh_op_result_err :: "u64 \<Rightarrow> ('n, 'z) lib_scheme \<Rightarrow> (i32 \<times> u64) \<times> ('n, 'z) lib_scheme" where
  "iroh_op_result_err oid w =
     (case take_op oid w of (Inr _, w1) \<Rightarrow> ((FFI_OK, 0), w1) | (Inl e, w1) \<Rightarrow> store_err e w1)"

subsection \<open>The asynchronous bodies (stream.rs, conn.rs, endpoint.rs)\<close>

definition stream_err :: "stream_error \<Rightarrow> rust_error" where
  "stream_err e = (case e of ConnectionLost m \<Rightarrow> rerr Connection m | StreamFailed m \<Rightarrow> rerr Stream m)"

text \<open>The result of a body that publishes one new object on success.\<close>

definition yield_handle :: "slot \<Rightarrow> ErrKind \<Rightarrow> (string + unit) \<times> 'n \<Rightarrow> ('n, 'z) lib_scheme \<Rightarrow>
    (rust_error + op_value) \<times> ('n, 'z) lib_scheme" where
  "yield_handle s k rn w = (case rn of
     (Inl m, n) \<Rightarrow> (Inl (rerr k m), w\<lparr>net := n\<rparr>)
   | (Inr _, n) \<Rightarrow> (let (h, r) = insert_slot s (reg w) in (Inr (Handle h), w\<lparr>reg := r, net := n\<rparr>)))"

definition yield_stream_pair :: "(string + unit) \<times> 'n \<Rightarrow> ('n, 'z) lib_scheme \<Rightarrow>
    (rust_error + op_value) \<times> ('n, 'z) lib_scheme" where
  "yield_stream_pair rn w = (case rn of
     (Inl m, n) \<Rightarrow> (Inl (rerr Connection m), w\<lparr>net := n\<rparr>)
   | (Inr _, n) \<Rightarrow> (let (a, r1) = insert_slot SSend (reg w); (b, r2) = insert_slot SRecv r1
                  in (Inr (Handle2 a b), w\<lparr>reg := r2, net := n\<rparr>)))"

abbreviation next_pair :: "('n, 'z) lib_scheme \<Rightarrow> u64 \<times> u64" where
  "next_pair w \<equiv> (next_id (reg w), next_id (reg w) + 1)"

text \<open>\<^verbatim>\<open>Opts::into_builder\<close>.\<close>

definition builder_preset :: "i32 \<Rightarrow> rust_error + preset" where
  "builder_preset p = (if p = 0 then Inr BuilderEmpty else if p = 1 then Inr Minimal
     else if p = 3 then Inr N0DisableRelay else if p = 2 then Inr N0
     else Inl (rerr InvalidInput (''unknown preset '' @ dec_int (sint p))))"

definition builder_relay_mode :: "i32 \<Rightarrow> string list \<Rightarrow> rust_error + relay_mode" where
  "builder_relay_mode m urls = (if m = 0 then Inr RelayModeDefault else if m = 1 then Inr RelayModeDisabled
     else if m = 2 then Inr RelayModeStaging else if m = 3 then Inr (RelayModeCustom urls)
     else Inl (rerr InvalidInput (''unknown relay mode '' @ dec_int (sint m))))"

fun bind_addrs :: "'n iroh \<Rightarrow> builder \<Rightarrow> string list \<Rightarrow> rust_error + builder" where
  "bind_addrs I b [] = Inr b"
| "bind_addrs I b (a # as) = (case i_bind_addr I b a of Inl m \<Rightarrow> Inl (rerr Bind m) | Inr b1 \<Rightarrow> bind_addrs I b1 as)"

definition into_builder :: "'n iroh \<Rightarrow> opts \<Rightarrow> rust_error + builder" where
  "into_builder I q =
     (case builder_preset (o_preset q) of Inl e \<Rightarrow> Inl e | Inr p \<Rightarrow>
      let b = \<lparr>b_preset = p, b_secret_key = o_secret_key q,
        b_alpns = (if o_alpns q = [] then None else Some (o_alpns q)), b_relay_mode = None,
        b_clear_ip = False, b_bind_addrs = []\<rparr> in
      case (case o_relay_mode q of None \<Rightarrow> Inr None
            | Some m \<Rightarrow> map_sum id Some (builder_relay_mode m (o_relay_urls q))) of
        Inl e \<Rightarrow> Inl e
      | Inr rm \<Rightarrow>
          let b1 = b\<lparr>b_relay_mode := rm\<rparr> in
          if o_bind_addrs q = [] then Inr b1
          else bind_addrs I (b1\<lparr>b_clear_ip := True\<rparr>) (o_bind_addrs q))"

text \<open>The report of \<^verbatim>\<open>iroh_endpoint_remote_info\<close>, one line per address.\<close>

definition kind_text :: "addr_kind \<Rightarrow> string" where
  "kind_text k = (case k of KIp \<Rightarrow> ''ip'' | KRelay \<Rightarrow> ''relay'' | KCustom \<Rightarrow> ''custom'')"

fun join_lines :: "string list \<Rightarrow> string" where
  "join_lines [] = []"
| "join_lines [l] = l"
| "join_lines (l # ls) = l @ [CHR 0x0A] @ join_lines ls"

definition remote_info_text :: "(addr_kind \<times> bool \<times> string) list \<Rightarrow> string" where
  "remote_info_text as = join_lines (map (\<lambda>(k, active, a).
     kind_text k @ [CHR 0x09] @ (if active then ''active'' else ''inactive'') @ [CHR 0x09] @ a) as)"

fun run_body :: "'n iroh \<Rightarrow> future \<Rightarrow> ('n, 'z) lib_scheme \<Rightarrow>
    (rust_error + op_value) \<times> ('n, 'z) lib_scheme" where
  "run_body I (FWrite h b) w = (case i_write I h b (net w) of
     (Inl e, n) \<Rightarrow> (Inl (stream_err e), w\<lparr>net := n\<rparr>) | (Inr k, n) \<Rightarrow> (Inr (U64 k), w\<lparr>net := n\<rparr>))"
| "run_body I (FFinish h) w = (Inr Unit, w\<lparr>net := i_finish I h (net w)\<rparr>)"
| "run_body I (FReset h c) w = (Inr Unit, w\<lparr>net := i_reset I h c (net w)\<rparr>)"
| "run_body I (FSetPriority h q) w = (case i_set_priority I h q (net w) of
     (Inl m, n) \<Rightarrow> (Inl (rerr Stream m), w\<lparr>net := n\<rparr>) | (Inr _, n) \<Rightarrow> (Inr Unit, w\<lparr>net := n\<rparr>))"
| "run_body I (FStopped h) w = (case i_stopped I h (net w) of
     (Inl e, n) \<Rightarrow> (Inl (stream_err e), w\<lparr>net := n\<rparr>)
   | (Inr c, n) \<Rightarrow> (Inr (U64 (case c of Some x \<Rightarrow> x | None \<Rightarrow> NO_STOP_CODE)), w\<lparr>net := n\<rparr>))"
| "run_body I (FRead h m) w = (case i_read_chunk I h m (net w) of
     (Inl e, n) \<Rightarrow> (Inl (stream_err e), w\<lparr>net := n\<rparr>)
   | (Inr (Some b), n) \<Rightarrow> (Inr (Bytes b), w\<lparr>net := n\<rparr>)
   | (Inr None, n) \<Rightarrow> (Inr Eof, w\<lparr>net := n\<rparr>))"
| "run_body I (FStop h c) w = (Inr Unit, w\<lparr>net := i_stop I h c (net w)\<rparr>)"
| "run_body I (FOpenBi h) w = yield_stream_pair (i_open_bi I h (next_pair w) (net w)) w"
| "run_body I (FAcceptBi h) w = yield_stream_pair (i_accept_bi I h (next_pair w) (net w)) w"
| "run_body I (FOpenUni h) w = yield_handle SSend Connection (i_open_uni I h (next_id (reg w)) (net w)) w"
| "run_body I (FAcceptUni h) w = yield_handle SRecv Connection (i_accept_uni I h (next_id (reg w)) (net w)) w"
| "run_body I (FReadDatagram h) w = (case i_read_datagram I h (net w) of
     (Inl m, n) \<Rightarrow> (Inl (rerr Datagram m), w\<lparr>net := n\<rparr>) | (Inr b, n) \<Rightarrow> (Inr (Bytes b), w\<lparr>net := n\<rparr>))"
| "run_body I (FClosed h) w = (let (m, n) = i_closed I h (net w) in (Inr (Bytes m), w\<lparr>net := n\<rparr>))"
| "run_body I (FOnline h) w = (Inr Unit, w\<lparr>net := i_online I h (net w)\<rparr>)"
| "run_body I (FAccept h) w = (case i_accept I h (next_id (reg w)) (net w) of
     (None, n) \<Rightarrow> (Inl (rerr Closed ''endpoint is closed''), w\<lparr>net := n\<rparr>)
   | (Some r, n) \<Rightarrow> yield_handle SConn Connect (r, n) w)"
| "run_body I (FEndpointClose h) w = (Inr Unit, w\<lparr>net := i_close I h (net w)\<rparr>)"
| "run_body I (FBind q) w = (case into_builder I q of
     Inl e \<Rightarrow> (Inl e, w) | Inr b \<Rightarrow> yield_handle SEndpoint Bind (i_bind I b (next_id (reg w)) (net w)) w)"
| "run_body I (FConnect h a p) w = yield_handle SConn Connect (i_connect I h a p (next_id (reg w)) (net w)) w"
| "run_body I (FRemoteInfo h i) w = (case i_remote_info I h i (net w) of
     (None, n) \<Rightarrow> (Inr (Bytes []), w\<lparr>net := n\<rparr>)
   | (Some as, n) \<Rightarrow> (Inr (Bytes (remote_info_text as)), w\<lparr>net := n\<rparr>))"

text \<open>
  The supervisor of \<^verbatim>\<open>ops::spawn\<close>: a task that ran to its end posts its result, even when an abort
  reached it meanwhile; one that was aborted before its end posts a cancellation; one that
  panicked posts an internal error.
\<close>

definition task_finishes :: "'n iroh \<Rightarrow> u64 \<Rightarrow> ('n, 'z) lib_scheme \<Rightarrow> ('n, 'z) lib_scheme" where
  "task_finishes I oid w = (case tasks w oid of None \<Rightarrow> w
     | Some k \<Rightarrow> (let (r, w1) = run_body I (body k) (w\<lparr>tasks := (tasks w)(oid := None)\<rparr>) in post oid r w1))"

definition task_stops :: "u64 \<Rightarrow> ('n, 'z) lib_scheme \<Rightarrow> ('n, 'z) lib_scheme" where
  "task_stops oid w = (case tasks w oid of None \<Rightarrow> w
     | Some k \<Rightarrow> if aborted k
         then post oid (Inl (rerr Cancelled ''operation cancelled'')) (w\<lparr>tasks := (tasks w)(oid := None)\<rparr>)
         else w)"

definition task_panics :: "u64 \<Rightarrow> ('n, 'z) lib_scheme \<Rightarrow> ('n, 'z) lib_scheme" where
  "task_panics oid w = (case tasks w oid of None \<Rightarrow> w
     | Some k \<Rightarrow> post oid (Inl (rerr Internal ''operation panicked'')) (w\<lparr>tasks := (tasks w)(oid := None)\<rparr>))"

subsection \<open>A network for the examples\<close>

text \<open>
  One concrete crate, on which the examples evaluate the definitions. Its state holds, for every
  stream, the bytes it accepted and the bytes it gave out: a write takes at most four bytes, and
  every stream that can be read holds a greeting.
\<close>

type_synonym echo_net = "(u64 \<Rightarrow> bytes) \<times> (u64 \<Rightarrow> bytes)"

definition echo_read :: "u64 \<Rightarrow> u64 \<Rightarrow> echo_net \<Rightarrow> (stream_error + bytes option) \<times> echo_net" where
  "echo_read h m n =
     (let chunk = take (unat m) (drop (length (snd n h)) ''hello'') in
      if chunk = [] then (Inr None, n)
      else (Inr (Some chunk), (fst n, (snd n)(h := snd n h @ chunk))))"

definition echo :: "echo_net iroh" where
  "echo = \<lparr>
     i_write = \<lambda>h b n. (Inr (of_nat (min 4 (length b))), ((fst n)(h := fst n h @ take 4 b), snd n)),
     i_finish = \<lambda>h n. n,
     i_reset = \<lambda>h c n. n,
     i_set_priority = \<lambda>h p n. (Inr (), n),
     i_stopped = \<lambda>h n. (Inr None, n),
     i_read_chunk = echo_read,
     i_stop = \<lambda>h c n. n,
     i_open_bi = \<lambda>c hs n. (Inr (), n),
     i_accept_bi = \<lambda>c hs n. (Inr (), n),
     i_open_uni = \<lambda>c h n. (Inr (), n),
     i_accept_uni = \<lambda>c h n. (Inr (), n),
     i_read_datagram = \<lambda>c n. (Inr ''ping'', n),
     i_closed = \<lambda>c n. (''closed by peer'', n),
     i_online = \<lambda>e n. n,
     i_accept = \<lambda>e h n. (Some (Inr ()), n),
     i_close = \<lambda>e n. n,
     i_varint = \<lambda>c. if c < 0x4000000000000000 then Inr c else Inl ''value too large'',
     i_bind_addr = \<lambda>b a. Inr (b\<lparr>b_bind_addrs := b_bind_addrs b @ [a]\<rparr>),
     i_bind = \<lambda>b h n. (Inr (), n),
     i_connect = \<lambda>e a p h n. (Inr (), n),
     i_remote_info = \<lambda>e i n. (None, n)\<rparr>"

definition echo_start :: echo_net where
  "echo_start = (\<lambda>_. [], \<lambda>_. [])"

end
