(* ===== verification/Go_Errors.thy ===== *)
theory Go_Errors
  imports Prelude
begin

text \<open>
  The error values of the bindings (\<^verbatim>\<open>errors.go\<close>, and the raising half of
  \<^verbatim>\<open>internal/ffi/errors.go\<close>): the public \<^verbatim>\<open>Error\<close> type with its kind, the sentinels that
  \<^verbatim>\<open>errors.Is\<close> recognises, and the standard library's \<^verbatim>\<open>errors.Is\<close> and \<^verbatim>\<open>errors.Join\<close> as far as
  the package uses them. Messages built by a format string are kept as the format and its
  arguments; how \<^verbatim>\<open>fmt.Sprintf\<close> renders them is an argument of \<open>Error_Error\<close>.
\<close>

subsection \<open>Kinds and sentinels\<close>

type_synonym kind = int

definition KindInternal :: kind where "KindInternal = 0"
definition KindInvalidInput :: kind where "KindInvalidInput = 1"
definition KindKeyParsing :: kind where "KindKeyParsing = 2"
definition KindTicketParsing :: kind where "KindTicketParsing = 3"
definition KindBind :: kind where "KindBind = 4"
definition KindConnect :: kind where "KindConnect = 5"
definition KindConnection :: kind where "KindConnection = 6"
definition KindStream :: kind where "KindStream = 7"
definition KindDatagram :: kind where "KindDatagram = 8"
definition KindALPN :: kind where "KindALPN = 9"
definition KindRelay :: kind where "KindRelay = 10"
definition KindClosed :: kind where "KindClosed = 11"
definition KindTimeout :: kind where "KindTimeout = 12"
definition KindCancelled :: kind where "KindCancelled = 13"

lemmas kind_defs = KindInternal_def KindInvalidInput_def KindKeyParsing_def
  KindTicketParsing_def KindBind_def KindConnect_def KindConnection_def KindStream_def
  KindDatagram_def KindALPN_def KindRelay_def KindClosed_def KindTimeout_def KindCancelled_def

datatype sentinel =
    ErrInternal | ErrInvalidInput | ErrKeyParsing | ErrTicketParsing | ErrBind | ErrConnect
  | ErrConnection | ErrStream | ErrDatagram | ErrALPN | ErrRelay | ErrClosed | ErrTimeout
  | ErrCancelled

text \<open>
  An error value. \<open>Canceled\<close> and \<open>DeadlineExceeded\<close> are those of package \<^verbatim>\<open>context\<close>,
  \<open>OsErrDeadlineExceeded\<close> is \<^verbatim>\<open>os.ErrDeadlineExceeded\<close>, \<open>NetErrClosed\<close> is \<^verbatim>\<open>net.ErrClosed\<close>;
  \<open>Errorf\<close> is a value built by \<^verbatim>\<open>fmt.Errorf\<close>, with the operand of its \<^verbatim>\<open>%w\<close> verb if it has one;
  \<open>External\<close> is a value made outside the package. \<open>SliceBounds\<close> is no error value of Go: it is
  the run-time panic of an index out of range, which ends the call that runs into it.
\<close>

datatype go_error =
    Sentinel sentinel
  | Error kind msg
  | Canceled
  | DeadlineExceeded
  | EOF
  | OsErrDeadlineExceeded
  | NetErrClosed
  | Join "go_error list"
  | Errorf string "fmt_arg list" "go_error option"
  | External string
  | SliceBounds
and msg = Text string | Sprintf string "fmt_arg list"
and fmt_arg = ArgInt int | ArgStr string | ArgErr go_error

definition sentinels :: "kind \<Rightarrow> sentinel option" where
  "sentinels = [KindInternal \<mapsto> ErrInternal, KindInvalidInput \<mapsto> ErrInvalidInput,
     KindKeyParsing \<mapsto> ErrKeyParsing, KindTicketParsing \<mapsto> ErrTicketParsing, KindBind \<mapsto> ErrBind,
     KindConnect \<mapsto> ErrConnect, KindConnection \<mapsto> ErrConnection, KindStream \<mapsto> ErrStream,
     KindDatagram \<mapsto> ErrDatagram, KindALPN \<mapsto> ErrALPN, KindRelay \<mapsto> ErrRelay,
     KindClosed \<mapsto> ErrClosed, KindTimeout \<mapsto> ErrTimeout, KindCancelled \<mapsto> ErrCancelled]"

definition sentinelFor :: "kind \<Rightarrow> sentinel" where
  "sentinelFor k = (case sentinels k of Some s \<Rightarrow> s | None \<Rightarrow> ErrInternal)"

definition sentinel_text :: "sentinel \<Rightarrow> string" where
  "sentinel_text s = (case s of
     ErrInternal \<Rightarrow> ''iroh: internal error'' | ErrInvalidInput \<Rightarrow> ''iroh: invalid input''
   | ErrKeyParsing \<Rightarrow> ''iroh: key parsing failed'' | ErrTicketParsing \<Rightarrow> ''iroh: ticket parsing failed''
   | ErrBind \<Rightarrow> ''iroh: bind failed'' | ErrConnect \<Rightarrow> ''iroh: connect failed''
   | ErrConnection \<Rightarrow> ''iroh: connection lost'' | ErrStream \<Rightarrow> ''iroh: stream error''
   | ErrDatagram \<Rightarrow> ''iroh: datagram error'' | ErrALPN \<Rightarrow> ''iroh: alpn error''
   | ErrRelay \<Rightarrow> ''iroh: relay error'' | ErrClosed \<Rightarrow> ''iroh: closed''
   | ErrTimeout \<Rightarrow> ''iroh: timed out'' | ErrCancelled \<Rightarrow> ''iroh: cancelled'')"

subsection \<open>The Error type\<close>

definition msg_text :: "(string \<Rightarrow> fmt_arg list \<Rightarrow> string) \<Rightarrow> msg \<Rightarrow> string" where
  "msg_text sprintf m = (case m of Text s \<Rightarrow> s | Sprintf f as \<Rightarrow> sprintf f as)"

definition Error_Error :: "(string \<Rightarrow> fmt_arg list \<Rightarrow> string) \<Rightarrow> kind \<Rightarrow> msg \<Rightarrow> string" where
  "Error_Error sprintf k m =
     (let kind = sentinel_text (sentinelFor k) in
      if msg_text sprintf m = '''' then kind else kind @ '': '' @ msg_text sprintf m)"

definition Error_Unwrap :: "kind \<Rightarrow> go_error" where
  "Error_Unwrap k = Sentinel (sentinelFor k)"

text \<open>\<^verbatim>\<open>ffi.NewError\<close>, as the package's \<^verbatim>\<open>init\<close> installs it: \<^verbatim>\<open>Kind(kind)\<close> sign-extends the \<^verbatim>\<open>int32\<close>.\<close>

definition NewError :: "i32 \<Rightarrow> string \<Rightarrow> go_error" where
  "NewError kind msg = Error (sint kind) (Text msg)"

definition errKind :: "kind \<Rightarrow> string \<Rightarrow> fmt_arg list \<Rightarrow> go_error" where
  "errKind kind format args = Error kind (Sprintf format args)"

subsection \<open>errors.Is and errors.Join\<close>

fun errors_Is :: "go_error \<Rightarrow> go_error \<Rightarrow> bool" where
  "errors_Is (Error k m) t \<longleftrightarrow> Error k m = t \<or> Error_Unwrap k = t"
| "errors_Is (Join es) t \<longleftrightarrow> Join es = t \<or> (\<exists>e \<in> set es. errors_Is e t)"
| "errors_Is (Errorf f as (Some e)) t \<longleftrightarrow> Errorf f as (Some e) = t \<or> errors_Is e t"
| "errors_Is e t \<longleftrightarrow> e = t"

definition errors_Join :: "go_error option list \<Rightarrow> go_error option" where
  "errors_Join es = (case List.map_filter (\<lambda>e. e) es of [] \<Rightarrow> None | xs \<Rightarrow> Some (Join xs))"

lemma errors_Is_refl [simp]: "errors_Is e e"
  by (cases "(e, e)" rule: errors_Is.cases) simp_all

lemma errors_Is_Error_sentinel [simp]:
  "errors_Is (Error k m) (Sentinel s) \<longleftrightarrow> s = sentinelFor k"
  by (auto simp: Error_Unwrap_def)

lemma sentinelFor_other: "k \<notin> {0..13} \<Longrightarrow> sentinelFor k = ErrInternal"
  by (auto simp: sentinelFor_def sentinels_def kind_defs)

end
