(* ===== verification/Completion_Pump.thy ===== *)
theory Completion_Pump
  imports Native_Library Go_Errors
begin

text \<open>
  The completion pump (\<^verbatim>\<open>internal/ffi/pump.go\<close>): the table of waiters, the table of completions
  that arrived before their caller registered, the pump's own thread, and the calling goroutines,
  interleaved with the library's tasks in one step function. A channel is an address with a buffer
  of capacity one.

  The invariant \<open>pump_ok\<close> says where the single completion of every operation under way is: still
  with its task, in the library's queue, unclaimed, in the pump's hands, or in its caller's
  channel, and in exactly one of these.
\<close>

subsection \<open>State\<close>

datatype pump_pc = PumpIdle | PumpSending nat i32 | PumpExited

text \<open>
  How far the goroutine that started an operation is in waiting for it: not yet registered, parked
  on its channel, or past the receive and about to collect the result.
\<close>

datatype awaiter = Started | Parked nat | Got

record 'n pump = "'n lib" +
  waiters :: "u64 \<rightharpoonup> nat"
  unclaimed :: "u64 \<rightharpoonup> i32"
  chans :: "nat \<Rightarrow> i32 list"
  next_chan :: nat
  pump_pc :: pump_pc
  awaiters :: "u64 \<rightharpoonup> awaiter"

subsection \<open>The pump's operations\<close>

text \<open>\<open>deliver\<close> holds the lock for its first half; the send that follows runs outside it.\<close>

definition deliver_locked :: "u64 \<Rightarrow> i32 \<Rightarrow> ('n, 'z) pump_scheme \<Rightarrow> ('n, 'z) pump_scheme" where
  "deliver_locked op status w = (case waiters w op of
     Some ch \<Rightarrow> w\<lparr>waiters := (waiters w)(op := None), pump_pc := PumpSending ch status\<rparr>
   | None \<Rightarrow> w\<lparr>unclaimed := (unclaimed w)(op \<mapsto> status)\<rparr>)"

text \<open>Sending on a channel whose one-place buffer is full blocks: the pump stays where it is.\<close>

definition deliver_send :: "('n, 'z) pump_scheme \<Rightarrow> ('n, 'z) pump_scheme" where
  "deliver_send w = (case pump_pc w of
     PumpSending ch status \<Rightarrow>
       if chans w ch = [] then w\<lparr>chans := (chans w)(ch := [status]), pump_pc := PumpIdle\<rparr> else w
   | _ \<Rightarrow> w)"

definition deliver :: "u64 \<Rightarrow> i32 \<Rightarrow> ('n, 'z) pump_scheme \<Rightarrow> ('n, 'z) pump_scheme" where
  "deliver op status w = deliver_send (deliver_locked op status w)"

text \<open>One turn of the loop of \<open>startPump\<close>, up to the send.\<close>

definition pump_wait :: "('n, 'z) pump_scheme \<Rightarrow> ('n, 'z) pump_scheme" where
  "pump_wait w = (case pump_pc w of
     PumpIdle \<Rightarrow> (case wait_queue w of
        None \<Rightarrow> w
      | Some (Ready op status, w1) \<Rightarrow> deliver_locked op status w1
      | Some (Shutdown, w1) \<Rightarrow> w1\<lparr>pump_pc := PumpExited\<rparr>)
   | _ \<Rightarrow> w)"

definition register :: "u64 \<Rightarrow> ('n, 'z) pump_scheme \<Rightarrow> nat \<times> ('n, 'z) pump_scheme" where
  "register op w =
     (let ch = next_chan w; w1 = w\<lparr>next_chan := Suc ch, chans := (chans w)(ch := [])\<rparr> in
      case unclaimed w1 op of
        Some status \<Rightarrow> (ch, w1\<lparr>unclaimed := (unclaimed w1)(op := None), chans := (chans w1)(ch := [status])\<rparr>)
      | None \<Rightarrow> (ch, w1\<lparr>waiters := (waiters w1)(op \<mapsto> ch)\<rparr>))"

definition PendingOps :: "('n, 'z) pump_scheme \<Rightarrow> nat" where
  "PendingOps w = card (dom (waiters w)) + card (dom (unclaimed w))"

subsection \<open>The steps of a waiting goroutine\<close>

definition mark_started :: "u64 \<Rightarrow> ('n, 'z) pump_scheme \<Rightarrow> ('n, 'z) pump_scheme" where
  "mark_started op w = w\<lparr>awaiters := (awaiters w)(op \<mapsto> Started)\<rparr>"

definition park :: "u64 \<Rightarrow> ('n, 'z) pump_scheme \<Rightarrow> ('n, 'z) pump_scheme" where
  "park op w = (let (ch, w1) = register op w in w1\<lparr>awaiters := (awaiters w1)(op \<mapsto> Parked ch)\<rparr>)"

text \<open>The receive \<^verbatim>\<open><-ch\<close>, when the channel has something to receive.\<close>

definition receive :: "u64 \<Rightarrow> ('n, 'z) pump_scheme \<Rightarrow> (i32 \<times> ('n, 'z) pump_scheme) option" where
  "receive op w = (case awaiters w op of
     Some (Parked ch) \<Rightarrow> (case chans w ch of
        [] \<Rightarrow> None
      | status # rest \<Rightarrow> Some (status, w\<lparr>chans := (chans w)(ch := rest), awaiters := (awaiters w)(op \<mapsto> Got)\<rparr>))
   | _ \<Rightarrow> None)"

definition forget :: "u64 \<Rightarrow> ('n, 'z) pump_scheme \<Rightarrow> ('n, 'z) pump_scheme" where
  "forget op w = w\<lparr>awaiters := (awaiters w)(op := None)\<rparr>"

subsection \<open>Interleaving\<close>

text \<open>
  What can happen next: a task of the library finishes, is stopped or panics; the pump's thread
  takes a completion or sends one; some goroutine starts an operation (which may fail at once),
  registers, receives, cancels, and collects or discards the result.
\<close>

datatype pump_event =
    TaskFinishes u64 | TaskStops u64 | TaskPanics u64
  | PumpWaits | PumpSends
  | StartOp future | StartFailed rust_error
  | Registers u64 | Receives u64 | Cancels u64 | Collects u64 | Discards u64

fun pump_step :: "'n iroh \<Rightarrow> pump_event \<Rightarrow> ('n, 'z) pump_scheme \<Rightarrow> ('n, 'z) pump_scheme" where
  "pump_step I (TaskFinishes op) w = task_finishes I op w"
| "pump_step I (TaskStops op) w = task_stops op w"
| "pump_step I (TaskPanics op) w = task_panics op w"
| "pump_step I PumpWaits w = pump_wait w"
| "pump_step I PumpSends w = deliver_send w"
| "pump_step I (StartOp f) w = (let (op, w1) = spawn f w in mark_started op w1)"
| "pump_step I (StartFailed e) w = (let (op, w1) = spawn_ready (Inl e) w in mark_started op w1)"
| "pump_step I (Registers op) w = (if awaiters w op = Some Started then park op w else w)"
| "pump_step I (Receives op) w = (case receive op w of None \<Rightarrow> w | Some (_, w1) \<Rightarrow> w1)"
| "pump_step I (Cancels op) w =
     (case awaiters w op of Some (Parked _) \<Rightarrow> iroh_op_cancel op w | _ \<Rightarrow> w)"
| "pump_step I (Collects op) w =
     (if awaiters w op = Some Got then forget op (iroh_op_free op (snd (take_op op w))) else w)"
| "pump_step I (Discards op) w =
     (if awaiters w op = Some Got then forget op (iroh_op_free op w) else w)"

subsection \<open>Where the one completion of an operation is\<close>

definition under_way :: "('n, 'z) pump_scheme \<Rightarrow> u64 \<Rightarrow> bool" where
  "under_way w op \<longleftrightarrow> (case awaiters w op of Some Started \<Rightarrow> True | Some (Parked _) \<Rightarrow> True | _ \<Rightarrow> False)"

definition sending :: "('n, 'z) pump_scheme \<Rightarrow> nat \<Rightarrow> nat" where
  "sending w ch = (case pump_pc w of PumpSending c _ \<Rightarrow> if c = ch then 1 else 0 | _ \<Rightarrow> 0)"

text \<open>The completions on their way to the caller that have not left the library's side of the pump,\<close>

definition upstream :: "('n, 'z) pump_scheme \<Rightarrow> u64 \<Rightarrow> nat" where
  "upstream w op = (if tasks w op = None then 0 else 1) + count_list (map fst (queue w)) op"

text \<open>those beyond it,\<close>

definition downstream :: "('n, 'z) pump_scheme \<Rightarrow> u64 \<Rightarrow> nat" where
  "downstream w op = (if unclaimed w op = None then 0 else 1)
     + (case awaiters w op of Some (Parked ch) \<Rightarrow> sending w ch + length (chans w ch) | _ \<Rightarrow> 0)"

text \<open>and the invariant: an operation under way has one of them in all, any other has none.\<close>

definition pump_inv :: "('n, 'z) pump_scheme \<Rightarrow> bool" where
  "pump_inv w \<longleftrightarrow>
     (\<forall>op. upstream w op + downstream w op = (if under_way w op then 1 else 0)) \<and>
     (\<forall>op ch. waiters w op = Some ch \<longleftrightarrow> awaiters w op = Some (Parked ch) \<and> upstream w op \<noteq> 0) \<and>
     (\<forall>op. unclaimed w op \<noteq> None \<longrightarrow> awaiters w op = Some Started) \<and>
     (\<forall>op op' ch. awaiters w op = Some (Parked ch) \<longrightarrow> awaiters w op' = Some (Parked ch) \<longrightarrow> op = op') \<and>
     (\<forall>op ch. awaiters w op = Some (Parked ch) \<longrightarrow> ch < next_chan w) \<and>
     (\<forall>ch status. pump_pc w = PumpSending ch status \<longrightarrow> (\<exists>op. awaiters w op = Some (Parked ch)))"

subsubsection \<open>What the library leaves alone\<close>

lemma op_drop_frame: "\<exists>r. op_drop p w = w\<lparr>reg := r\<rparr>"
  by (auto simp: op_drop_def release_handles_def split: option.splits sum.splits intro: exI [of _ "reg w"])

lemma post_frame: "\<exists>rg. post op r w = w\<lparr>queue := queue w @ [(op, status_of r)], reg := rg\<rparr>"
proof -
  let ?w = "w\<lparr>queue := queue w @ [(op, status_of r)]\<rparr>"
  have "\<exists>rg. op_drop p ?w = ?w\<lparr>reg := rg\<rparr>" for p by (rule op_drop_frame)
  then show ?thesis by (auto simp: post_def Let_def split: option.splits slot.splits)
qed

lemma run_body_frame:
  assumes "run_body I f w = (r, w')"
  shows "\<exists>rg n. w' = w\<lparr>reg := rg, net := n\<rparr>"
proof -
  have net: "\<exists>rg n. w\<lparr>net := x\<rparr> = w\<lparr>reg := rg, net := n\<rparr>" for x
    by (rule exI [of _ "reg w"]) auto
  have "\<exists>rg n. w = w\<lparr>reg := rg, net := n\<rparr>" by (intro exI [of _ "reg w"] exI [of _ "net w"]) simp
  then show ?thesis
    using assms net
    by (cases f) (auto simp: yield_handle_def yield_stream_pair_def Let_def
        split: prod.splits sum.splits option.splits)
qed

lemma iroh_op_free_frame: "\<exists>rg. iroh_op_free op w = w\<lparr>reg := rg\<rparr>"
proof -
  let ?w = "w\<lparr>reg := snd (remove op (reg w))\<rparr>"
  have "\<exists>rg. op_drop p ?w = ?w\<lparr>reg := rg\<rparr>" for p by (rule op_drop_frame)
  then show ?thesis by (auto simp: iroh_op_free_def Let_def split: option.splits slot.splits)
qed

lemma take_op_frame: "\<exists>rg. snd (take_op op w) = w\<lparr>reg := rg\<rparr>"
proof -
  have "\<exists>rg. w = w\<lparr>reg := rg\<rparr>" by (rule exI [of _ "reg w"]) simp
  then show ?thesis
    by (auto simp: take_op_def take_result_def split: option.splits sum.splits)
qed

subsubsection \<open>Every step keeps the pump's invariant\<close>

lemma inv_frame [simp]:
  "upstream (w\<lparr>reg := r\<rparr>) = upstream w" "upstream (w\<lparr>net := n\<rparr>) = upstream w"
  "downstream (w\<lparr>reg := r\<rparr>) = downstream w" "downstream (w\<lparr>net := n\<rparr>) = downstream w"
  "under_way (w\<lparr>reg := r\<rparr>) = under_way w" "under_way (w\<lparr>net := n\<rparr>) = under_way w"
  by (auto simp: upstream_def downstream_def under_way_def sending_def fun_eq_iff
      split: option.splits awaiter.splits)

lemma pump_inv_frame [simp]:
  "pump_inv (w\<lparr>reg := r\<rparr>) = pump_inv w" "pump_inv (w\<lparr>net := n\<rparr>) = pump_inv w"
  by (simp_all add: pump_inv_def)

text \<open>A completion moving from its task to the queue leaves the counts as they are.\<close>

lemma pump_inv_task_to_queue:
  assumes "pump_inv w" and "tasks w op \<noteq> None"
  shows "pump_inv (w\<lparr>tasks := (tasks w)(op := None), queue := queue w @ [(op, st)]\<rparr>)"
proof -
  let ?w = "w\<lparr>tasks := (tasks w)(op := None), queue := queue w @ [(op, st)]\<rparr>"
  have "upstream ?w = upstream w"
    using assms(2) by (auto simp: upstream_def fun_eq_iff)
  moreover have "downstream ?w = downstream w"
    by (auto simp: downstream_def sending_def fun_eq_iff split: option.splits awaiter.splits)
  moreover have "under_way ?w = under_way w"
    by (simp add: under_way_def fun_eq_iff)
  ultimately show ?thesis using assms(1) by (simp add: pump_inv_def)
qed

lemma pump_inv_post:
  assumes "pump_inv w" and "tasks w op \<noteq> None"
  shows "pump_inv (post op r (w\<lparr>tasks := (tasks w)(op := None)\<rparr>))"
proof -
  let ?w = "w\<lparr>tasks := (tasks w)(op := None)\<rparr>"
  obtain rg where "post op r ?w = ?w\<lparr>queue := queue w @ [(op, status_of r)], reg := rg\<rparr>"
    using post_frame [of op r ?w] by auto
  then show ?thesis using pump_inv_task_to_queue [OF assms] by simp
qed

lemma pump_inv_task_finishes: "pump_inv w \<Longrightarrow> pump_inv (task_finishes I op w)"
proof (cases "tasks w op")
  case (Some k)
  assume inv: "pump_inv w"
  let ?w = "w\<lparr>tasks := (tasks w)(op := None)\<rparr>"
  obtain r w1 where run: "run_body I (body k) ?w = (r, w1)" by (cases "run_body I (body k) ?w")
  then obtain rg n where "w1 = ?w\<lparr>reg := rg, net := n\<rparr>"
    using run_body_frame [OF run] by auto
  then have w1: "w1 = w\<lparr>reg := rg, net := n, tasks := (tasks w)(op := None)\<rparr>"
    by (cases w) simp
  have "pump_inv (w\<lparr>reg := rg, net := n\<rparr>)" using inv by simp
  then have "pump_inv (post op r w1)"
    using pump_inv_post [of "w\<lparr>reg := rg, net := n\<rparr>" op r] Some by (simp add: w1)
  then show ?thesis using Some run by (simp add: task_finishes_def)
qed (simp add: task_finishes_def)

lemma pump_inv_task_stops: "pump_inv w \<Longrightarrow> pump_inv (task_stops op w)"
  by (auto simp: task_stops_def pump_inv_post split: option.splits)

lemma pump_inv_task_panics: "pump_inv w \<Longrightarrow> pump_inv (task_panics op w)"
  by (auto simp: task_panics_def pump_inv_post split: option.splits)

lemma pump_invD:
  assumes "pump_inv w"
  shows "upstream w op + downstream w op = (if under_way w op then 1 else 0)"
    and "waiters w op = Some ch \<longleftrightarrow> awaiters w op = Some (Parked ch) \<and> upstream w op \<noteq> 0"
    and "unclaimed w op \<noteq> None \<Longrightarrow> awaiters w op = Some Started"
    and "awaiters w op = Some (Parked ch) \<Longrightarrow> awaiters w op' = Some (Parked ch) \<Longrightarrow> op = op'"
    and "awaiters w op = Some (Parked ch) \<Longrightarrow> ch < next_chan w"
    and "pump_pc w = PumpSending ch st \<Longrightarrow> \<exists>op. awaiters w op = Some (Parked ch)"
  using assms unfolding pump_inv_def by blast+

lemma pump_invI:
  assumes "\<And>op. upstream w op + downstream w op = (if under_way w op then 1 else 0)"
    and "\<And>op ch. waiters w op = Some ch \<longleftrightarrow> awaiters w op = Some (Parked ch) \<and> upstream w op \<noteq> 0"
    and "\<And>op. unclaimed w op \<noteq> None \<Longrightarrow> awaiters w op = Some Started"
    and "\<And>op op' ch. awaiters w op = Some (Parked ch) \<Longrightarrow> awaiters w op' = Some (Parked ch) \<Longrightarrow> op = op'"
    and "\<And>op ch. awaiters w op = Some (Parked ch) \<Longrightarrow> ch < next_chan w"
    and "\<And>ch st. pump_pc w = PumpSending ch st \<Longrightarrow> \<exists>op. awaiters w op = Some (Parked ch)"
  shows "pump_inv w"
  using assms unfolding pump_inv_def by blast

lemma pump_inv_same:
  assumes inv: "pump_inv w"
    and same: "upstream w' = upstream w" "downstream w' = downstream w" "awaiters w' = awaiters w"
      "waiters w' = waiters w" "unclaimed w' = unclaimed w" "next_chan w' = next_chan w"
    and pc: "\<And>ch st. pump_pc w' = PumpSending ch st \<Longrightarrow> \<exists>op. awaiters w op = Some (Parked ch)"
  shows "pump_inv w'"
proof (rule pump_invI)
  show "upstream w' op + downstream w' op = (if under_way w' op then 1 else 0)" for op
    using pump_invD(1) [OF inv, of op] by (simp add: same under_way_def)
  show "waiters w' op = Some ch \<longleftrightarrow> awaiters w' op = Some (Parked ch) \<and> upstream w' op \<noteq> 0" for op ch
    using pump_invD(2) [OF inv] by (simp add: same)
qed (use pump_invD(3,4,5) [OF inv] pc in \<open>auto simp: same\<close>)

text \<open>The operation whose completion is taken off the queue is under way, and this is its only one.\<close>

lemma head_of_queue:
  assumes "pump_inv w" and "queue w = (op, st) # q"
  shows "tasks w op = None" "op \<notin> fst ` set q" "downstream w op = 0" "under_way w op"
  using pump_invD(1) [OF assms(1), of op] assms(2)
  by (auto simp: upstream_def count_list_0_iff split: if_splits)

lemma pump_inv_deliver:
  assumes inv: "pump_inv w" and q: "queue w = (op, st) # q" and pc: "pump_pc w = PumpIdle"
  shows "pump_inv (deliver_locked op st (w\<lparr>queue := q\<rparr>))"
proof -
  note head = head_of_queue [OF inv q]
  have up: "upstream w op = 1" using pump_invD(1) [OF inv, of op] head(3,4) by simp
  show ?thesis
  proof (cases "waiters w op")
    case None
    with pump_invD(2) [OF inv, of op] up have notparked: "awaiters w op \<noteq> Some (Parked ch)" for ch
      by auto
    with head(4) have st: "awaiters w op = Some Started"
      by (auto simp: under_way_def split: option.splits awaiter.splits)
    let ?w = "w\<lparr>queue := q, unclaimed := (unclaimed w)(op \<mapsto> st)\<rparr>"
    have u: "upstream ?w x = (if x = op then 0 else upstream w x)" for x
      using q head by (auto simp: upstream_def count_list_0_iff)
    have d: "downstream ?w x = (if x = op then 1 else downstream w x)" for x
      using st by (auto simp: downstream_def sending_def split: option.splits awaiter.splits)
    have uw: "under_way ?w x = under_way w x" for x by (simp add: under_way_def)
    have "pump_inv ?w"
    proof (rule pump_invI)
      show "upstream ?w x + downstream ?w x = (if under_way ?w x then 1 else 0)" for x
        using pump_invD(1) [OF inv, of x] head(4) by (auto simp: u d uw split: if_splits)
      show "waiters ?w x = Some ch \<longleftrightarrow> awaiters ?w x = Some (Parked ch) \<and> upstream ?w x \<noteq> 0" for x ch
        using pump_invD(2) [OF inv, of x ch] st None by (simp add: u)
      show "unclaimed ?w x \<noteq> None \<Longrightarrow> awaiters ?w x = Some Started" for x
        using pump_invD(3) [OF inv, of x] st by (simp split: if_splits)
    qed (use pump_invD(4,5,6) [OF inv] in auto)
    then show ?thesis using None by (simp add: deliver_locked_def)
  next
    case (Some ch)
    then have pk: "awaiters w op = Some (Parked ch)" using pump_invD(2) [OF inv] by blast
    let ?w = "w\<lparr>queue := q, waiters := (waiters w)(op := None), pump_pc := PumpSending ch st\<rparr>"
    have u: "upstream ?w x = (if x = op then 0 else upstream w x)" for x
      using q head by (auto simp: upstream_def count_list_0_iff)
    have other: "awaiters w x \<noteq> Some (Parked ch)" if "x \<noteq> op" for x
      using pump_invD(4) [OF inv pk] that by blast
    have "unclaimed w op = None" "chans w ch = []"
      using head(3) pk by (auto simp: downstream_def split: if_splits)
    then have d: "downstream ?w x = (if x = op then 1 else downstream w x)" for x
      using pk pc other [of x]
      by (cases "x = op") (auto simp: downstream_def sending_def split: option.split awaiter.split)
    have uw: "under_way ?w x = under_way w x" for x by (simp add: under_way_def)
    have "pump_inv ?w"
    proof (rule pump_invI)
      show "upstream ?w x + downstream ?w x = (if under_way ?w x then 1 else 0)" for x
        using pump_invD(1) [OF inv, of x] head(4) by (auto simp: u d uw split: if_splits)
      show "waiters ?w x = Some c \<longleftrightarrow> awaiters ?w x = Some (Parked c) \<and> upstream ?w x \<noteq> 0" for x c
        using pump_invD(2) [OF inv, of x c] by (simp add: u)
    qed (use pump_invD(3,4,5) [OF inv] pk in auto)
    then show ?thesis using Some by (simp add: deliver_locked_def)
  qed
qed

lemma pump_inv_wait:
  assumes "pump_inv w"
  shows "pump_inv (pump_wait w)"
proof -
  have "pump_inv (w\<lparr>pump_pc := PumpExited\<rparr>)" if pc: "pump_pc w = PumpIdle"
    using assms
  proof (rule pump_inv_same)
    show "downstream (w\<lparr>pump_pc := PumpExited\<rparr>) = downstream w"
      using pc by (auto simp: downstream_def sending_def fun_eq_iff split: option.splits awaiter.splits)
  qed (auto simp: upstream_def fun_eq_iff)
  then show ?thesis
    using assms pump_inv_deliver [OF assms]
    by (auto simp: pump_wait_def wait_queue_def split: pump_pc.splits list.splits)
qed

text \<open>The pump's send always finds the one place of the channel free.\<close>

lemma send_finds_room:
  assumes inv: "pump_inv w" and pc: "pump_pc w = PumpSending ch st"
  obtains op where "awaiters w op = Some (Parked ch)" "chans w ch = []" "upstream w op = 0"
    "unclaimed w op = None"
proof -
  obtain op where pk: "awaiters w op = Some (Parked ch)" using pump_invD(6) [OF inv pc] by blast
  with pump_invD(1) [OF inv, of op] pc have "chans w ch = []" "upstream w op = 0" "unclaimed w op = None"
    by (auto simp: downstream_def sending_def under_way_def split: if_splits)
  with pk show thesis by (rule that)
qed

lemma pump_inv_send:
  assumes inv: "pump_inv w"
  shows "pump_inv (deliver_send w)"
proof (cases "pump_pc w")
  case (PumpSending ch st)
  obtain op where op: "awaiters w op = Some (Parked ch)" "chans w ch = []" "upstream w op = 0"
    using send_finds_room [OF inv PumpSending] by metis
  let ?w = "w\<lparr>chans := (chans w)(ch := [st]), pump_pc := PumpIdle\<rparr>"
  have "pump_inv ?w" using inv
  proof (rule pump_inv_same)
    show "downstream ?w = downstream w"
      using op(2) PumpSending
      by (auto simp: downstream_def sending_def fun_eq_iff split: option.splits awaiter.splits)
  qed (auto simp: upstream_def fun_eq_iff)
  then show ?thesis using PumpSending op(2) by (simp add: deliver_send_def)
qed (simp_all add: deliver_send_def inv)

text \<open>An operation nobody waits for has no completion anywhere.\<close>

lemma not_under_way:
  assumes "pump_inv w" and "\<not> under_way w op"
  shows "tasks w op = None" "op \<notin> fst ` set (queue w)" "upstream w op = 0" "downstream w op = 0"
    "unclaimed w op = None" "waiters w op = None"
  using pump_invD(1) [OF assms(1), of op] pump_invD(2) [OF assms(1), of op] assms(2)
  by (auto simp: upstream_def downstream_def count_list_0_iff split: if_splits)

lemma pump_inv_new_op:
  assumes inv: "pump_inv w" and new: "\<not> under_way w op"
    and up: "\<And>x. upstream w' x = (if x = op then 1 else upstream w x)"
    and same: "waiters w' = waiters w" "unclaimed w' = unclaimed w" "chans w' = chans w"
      "next_chan w' = next_chan w" "pump_pc w' = pump_pc w" "awaiters w' = (awaiters w)(op \<mapsto> Started)"
  shows "pump_inv w'"
proof -
  note nu = not_under_way [OF inv new]
  have old: "awaiters w op \<noteq> Some (Parked ch)" for ch
    using new by (auto simp: under_way_def)
  have d: "downstream w' x = downstream w x" for x
    using nu(4,5) old
    by (cases "x = op") (auto simp: downstream_def sending_def same split: option.split awaiter.split)
  show ?thesis
  proof (rule pump_invI)
    show "upstream w' x + downstream w' x = (if under_way w' x then 1 else 0)" for x
      using pump_invD(1) [OF inv, of x] nu(4) by (auto simp: up d under_way_def same split: if_splits)
    show "waiters w' x = Some ch \<longleftrightarrow> awaiters w' x = Some (Parked ch) \<and> upstream w' x \<noteq> 0" for x ch
      using pump_invD(2) [OF inv, of x ch] nu(6) old by (auto simp: up same)
    show "unclaimed w' x \<noteq> None \<Longrightarrow> awaiters w' x = Some Started" for x
      using pump_invD(3) [OF inv, of x] by (simp add: same)
    show "awaiters w' x = Some (Parked ch) \<Longrightarrow> awaiters w' y = Some (Parked ch) \<Longrightarrow> x = y" for x y ch
      using pump_invD(4) [OF inv, of x ch y] by (simp add: same split: if_splits)
    show "awaiters w' x = Some (Parked ch) \<Longrightarrow> ch < next_chan w'" for x ch
      using pump_invD(5) [OF inv, of x ch] by (simp add: same split: if_splits)
    show "\<exists>x. awaiters w' x = Some (Parked ch)" if "pump_pc w' = PumpSending ch st" for ch st
    proof -
      from that obtain x where "awaiters w x = Some (Parked ch)"
        using pump_invD(6) [OF inv] by (auto simp: same)
      with old show ?thesis by (intro exI [of _ x]) (auto simp: same)
    qed
  qed
qed

lemma pump_inv_spawn:
  assumes "pump_inv w" and "\<not> under_way w (next_id (reg w))"
  shows "pump_inv (mark_started (fst (spawn f w)) (snd (spawn f w)))"
  using assms
proof (rule pump_inv_new_op)
  let ?op = "next_id (reg w)"
  show "upstream (mark_started (fst (spawn f w)) (snd (spawn f w))) x
      = (if x = ?op then 1 else upstream w x)" for x
    using not_under_way [OF assms]
    by (auto simp: upstream_def mark_started_def spawn_def reserve_def count_list_0_iff)
qed (simp_all add: mark_started_def spawn_def reserve_def)

lemma pump_inv_spawn_ready:
  assumes "pump_inv w" and "\<not> under_way w (next_id (reg w))"
  shows "pump_inv (mark_started (fst (spawn_ready r w)) (snd (spawn_ready r w)))"
  using assms
proof (rule pump_inv_new_op)
  let ?op = "next_id (reg w)"
  let ?w = "w\<lparr>reg := publish ?op (SOp Op_new) (reg w\<lparr>next_id := ?op + 1\<rparr>)\<rparr>"
  obtain rg where rg: "post ?op r ?w = ?w\<lparr>queue := queue w @ [(?op, status_of r)], reg := rg\<rparr>"
    using post_frame [of ?op r ?w] by auto
  then have eq: "spawn_ready r w = (?op, ?w\<lparr>queue := queue w @ [(?op, status_of r)], reg := rg\<rparr>)"
    by (simp add: spawn_ready_def reserve_def)
  show "upstream (mark_started (fst (spawn_ready r w)) (snd (spawn_ready r w))) x
      = (if x = ?op then 1 else upstream w x)" for x
    using not_under_way [OF assms] by (auto simp: eq upstream_def mark_started_def count_list_0_iff)
  show "waiters (mark_started (fst (spawn_ready r w)) (snd (spawn_ready r w))) = waiters w"
    "unclaimed (mark_started (fst (spawn_ready r w)) (snd (spawn_ready r w))) = unclaimed w"
    "chans (mark_started (fst (spawn_ready r w)) (snd (spawn_ready r w))) = chans w"
    "next_chan (mark_started (fst (spawn_ready r w)) (snd (spawn_ready r w))) = next_chan w"
    "pump_pc (mark_started (fst (spawn_ready r w)) (snd (spawn_ready r w))) = pump_pc w"
    "awaiters (mark_started (fst (spawn_ready r w)) (snd (spawn_ready r w)))
       = (awaiters w)(?op \<mapsto> Started)"
    by (simp_all add: eq mark_started_def)
qed

lemma pump_inv_park:
  assumes inv: "pump_inv w" and st: "awaiters w op = Some Started"
  shows "pump_inv (park op w)"
proof -
  let ?ch = "next_chan w" and ?w = "park op w"
  have total: "upstream w op + downstream w op = 1"
    using pump_invD(1) [OF inv, of op] st by (simp add: under_way_def)
  have nowait: "waiters w op = None"
    using pump_invD(2) [OF inv, of op] st by (cases "waiters w op") auto
  have fresh: "awaiters w x \<noteq> Some (Parked ?ch)" for x
    using pump_invD(5) [OF inv] by blast
  then have pc: "pump_pc w \<noteq> PumpSending ?ch s" for s
    using pump_invD(6) [OF inv] by blast
  have aw: "awaiters ?w = (awaiters w)(op \<mapsto> Parked ?ch)" and nc: "next_chan ?w = Suc ?ch"
    and pp: "pump_pc ?w = pump_pc w"
    by (auto simp: park_def register_def Let_def split: option.split)
  have up: "upstream ?w x = upstream w x" for x
    by (auto simp: park_def register_def Let_def upstream_def split: option.split)
  have d: "downstream ?w x = downstream w x" for x
  proof (cases "x = op")
    case True
    then show ?thesis using st pc
      by (auto simp: park_def register_def Let_def downstream_def sending_def
          split: option.split awaiter.split pump_pc.split)
  next
    case False
    then show ?thesis using fresh [of x]
      by (auto simp: park_def register_def Let_def downstream_def sending_def
          split: option.split awaiter.split)
  qed
  show ?thesis
  proof (rule pump_invI)
    show "upstream ?w x + downstream ?w x = (if under_way ?w x then 1 else 0)" for x
      using pump_invD(1) [OF inv, of x] st by (simp add: up d under_way_def aw)
    show "waiters ?w x = Some c \<longleftrightarrow> awaiters ?w x = Some (Parked c) \<and> upstream ?w x \<noteq> 0" for x c
    proof (cases "x = op")
      case True
      then show ?thesis using total st nowait
        by (auto simp: aw up downstream_def split: if_splits)
          (auto simp: park_def register_def Let_def split: option.splits)
    next
      case False
      then show ?thesis using pump_invD(2) [OF inv, of x c]
        by (simp add: aw up) (simp add: park_def register_def Let_def split: option.split)
    qed
    show "awaiters ?w x = Some Started" if "unclaimed ?w x \<noteq> None" for x
      using that pump_invD(3) [OF inv, of x]
      by (auto simp: aw) (auto simp: park_def register_def Let_def split: option.splits if_splits)
    show "awaiters ?w x = Some (Parked c) \<Longrightarrow> awaiters ?w y = Some (Parked c) \<Longrightarrow> x = y" for x y c
      using pump_invD(4) [OF inv, of x c y] fresh by (auto simp: aw split: if_splits)
    show "awaiters ?w x = Some (Parked c) \<Longrightarrow> c < next_chan ?w" for x c
      using pump_invD(5) [OF inv, of x c] by (auto simp: aw nc split: if_splits)
    show "\<exists>x. awaiters ?w x = Some (Parked c)" if "pump_pc ?w = PumpSending c s" for c s
    proof -
      from that obtain x where "awaiters w x = Some (Parked c)"
        using pump_invD(6) [OF inv] by (auto simp: pp)
      with st show ?thesis by (intro exI [of _ x]) (auto simp: aw)
    qed
  qed
qed

lemma pump_inv_receive:
  assumes inv: "pump_inv w" and rcv: "receive op w = Some (st, w')"
  shows "pump_inv w'"
proof -
  from rcv obtain ch rest where pk: "awaiters w op = Some (Parked ch)" and ch: "chans w ch = st # rest"
    and w': "w' = w\<lparr>chans := (chans w)(ch := rest), awaiters := (awaiters w)(op \<mapsto> Got)\<rparr>"
    by (auto simp: receive_def split: option.splits awaiter.splits list.splits)
  have "upstream w op + downstream w op = 1"
    using pump_invD(1) [OF inv, of op] pk by (simp add: under_way_def)
  then have one: "upstream w op = 0" "unclaimed w op = None" "sending w ch = 0"
    using pk ch by (auto simp: downstream_def split: if_splits)
  have other: "awaiters w x \<noteq> Some (Parked ch)" if "x \<noteq> op" for x
    using pump_invD(4) [OF inv pk] that by blast
  have up: "upstream w' x = upstream w x" for x by (simp add: w' upstream_def)
  have d: "downstream w' x = (if x = op then 0 else downstream w x)" for x
    using one other [of x]
    by (cases "x = op") (auto simp: w' downstream_def sending_def split: option.split awaiter.split)
  have same: "awaiters w' = (awaiters w)(op \<mapsto> Got)" "waiters w' = waiters w" by (simp_all add: w')
  show ?thesis
  proof (rule pump_invI)
    show "upstream w' x + downstream w' x = (if under_way w' x then 1 else 0)" for x
      using pump_invD(1) [OF inv, of x] one(1) by (auto simp: up d under_way_def same split: if_splits)
    show "waiters w' x = Some c \<longleftrightarrow> awaiters w' x = Some (Parked c) \<and> upstream w' x \<noteq> 0" for x c
      using pump_invD(2) [OF inv, of x c] one(1) by (auto simp: up same)
    show "\<exists>x. awaiters w' x = Some (Parked c)" if "pump_pc w' = PumpSending c s" for c s
    proof -
      from that have pc: "pump_pc w = PumpSending c s" by (simp add: w')
      with one(3) have "c \<noteq> ch" by (auto simp: sending_def)
      moreover obtain x where "awaiters w x = Some (Parked c)" using pump_invD(6) [OF inv pc] by blast
      ultimately show ?thesis using pk by (intro exI [of _ x]) (auto simp: w')
    qed
  qed (use pump_invD(3,4,5) [OF inv] one(2) in \<open>auto simp: w' split: if_splits\<close>)
qed

lemma pump_inv_cancel:
  assumes "pump_inv w"
  shows "pump_inv (iroh_op_cancel op w)"
proof -
  have "pump_inv (op_cancel op p w)" for p
    using assms
  proof (rule pump_inv_same)
    show "upstream (op_cancel op p w) = upstream w"
      by (auto simp: op_cancel_def upstream_def fun_eq_iff split: option.split)
    show "downstream (op_cancel op p w) = downstream w"
      by (auto simp: op_cancel_def downstream_def sending_def fun_eq_iff split: option.split awaiter.split)
    show "\<exists>x. awaiters w x = Some (Parked ch)" if "pump_pc (op_cancel op p w) = PumpSending ch st" for ch st
      using that pump_invD(6) [OF assms] by (simp add: op_cancel_def)
  qed (simp_all add: op_cancel_def)
  then show ?thesis using assms by (simp add: iroh_op_cancel_def split: sum.split)
qed

lemma pump_inv_forget:
  assumes inv: "pump_inv w" and got: "awaiters w op = Some Got"
  shows "pump_inv (forget op w)"
proof -
  have up: "upstream (forget op w) x = upstream w x" for x by (simp add: forget_def upstream_def)
  have d: "downstream (forget op w) x = downstream w x" for x
    using got by (cases "x = op")
      (auto simp: forget_def downstream_def sending_def split: option.split awaiter.split)
  have aw: "awaiters (forget op w) = (awaiters w)(op := None)" by (simp add: forget_def)
  show ?thesis
  proof (rule pump_invI)
    show "upstream (forget op w) x + downstream (forget op w) x
        = (if under_way (forget op w) x then 1 else 0)" for x
      using pump_invD(1) [OF inv, of x] got by (auto simp: up d under_way_def aw split: if_splits)
    show "waiters (forget op w) x = Some c \<longleftrightarrow>
        awaiters (forget op w) x = Some (Parked c) \<and> upstream (forget op w) x \<noteq> 0" for x c
      using pump_invD(2) [OF inv, of x c] got by (auto simp: up aw) (auto simp: forget_def)
    show "\<exists>x. awaiters (forget op w) x = Some (Parked c)" if "pump_pc (forget op w) = PumpSending c s" for c s
    proof -
      from that obtain x where "awaiters w x = Some (Parked c)"
        using pump_invD(6) [OF inv] by (auto simp: forget_def)
      with got show ?thesis by (intro exI [of _ x]) (auto simp: forget_def)
    qed
  qed (use pump_invD(3,4,5) [OF inv] got in \<open>auto simp: forget_def split: if_splits\<close>)
qed

lemma awaiters_frame [step_frame]:
  "awaiters (iroh_op_free op w) = awaiters w" "awaiters (snd (take_op op w)) = awaiters w"
  using iroh_op_free_frame [of op w] take_op_frame [of op w] by auto

lemma pump_inv_free:
  assumes "pump_inv w" shows "pump_inv (iroh_op_free op w)" "pump_inv (snd (take_op op w))"
  using iroh_op_free_frame [of op w] take_op_frame [of op w] assms by auto

text \<open>Every step keeps the invariant, provided the ids the library hands out are fresh.\<close>

lemma pump_inv_step:
  assumes "pump_inv w" and "\<not> under_way w (next_id (reg w))"
  shows "pump_inv (pump_step I e w)"
  using assms
  by (cases e) (auto simp: pump_inv_task_finishes pump_inv_task_stops pump_inv_task_panics
      pump_inv_wait pump_inv_send pump_inv_park pump_inv_cancel pump_inv_free pump_inv_forget
      step_frame Let_def case_prod_unfold pump_inv_spawn pump_inv_spawn_ready
      split: option.split awaiter.split dest: pump_inv_receive)

end
