(* ===== verification/Pump_Invariant.thy ===== *)
theory Pump_Invariant
  imports Completion_Pump
begin

text \<open>
  The second half of the pump's invariant: how the operations under way, their results and their
  statuses agree with the library's handle table, and that every step of the interleaved system
  keeps the whole invariant. The reachable states and the properties of the pump close the theory.
\<close>

subsection \<open>Operations, results and the handle table\<close>

text \<open>There are still \<open>k\<close> ids to hand out before the counter wraps around.\<close>

definition room :: "('n, 'z) lib_scheme \<Rightarrow> nat \<Rightarrow> bool" where
  "room w k \<longleftrightarrow> unat (next_id (reg w)) + k < 2 ^ 64"

fun result_handles :: "rust_error + op_value \<Rightarrow> u64 list" where
  "result_handles (Inr v) = value_handles v"
| "result_handles (Inl _) = []"

definition is_op :: "slot option \<Rightarrow> bool" where
  "is_op s \<longleftrightarrow> (\<exists>p. s = Some (SOp p))"

text \<open>
  A step of the library that publishes only new objects: old slots stay, new ones are not operations,
  and every handle of the result is new.
\<close>

definition grows :: "('n, 'z) lib_scheme \<Rightarrow> u64 list \<Rightarrow> ('n, 'z) lib_scheme \<Rightarrow> bool" where
  "grows w hs w' \<longleftrightarrow>
     (\<forall>h. h < next_id (reg w) \<longrightarrow> live w' h = live w h) \<and>
     (\<forall>h. live w' h \<noteq> None \<longrightarrow> live w h = None \<longrightarrow> \<not> is_op (live w' h) \<and> h < next_id (reg w')) \<and>
     (\<forall>h. live w h \<noteq> None \<longrightarrow> live w' h \<noteq> None) \<and>
     next_id (reg w) \<le> next_id (reg w') \<and> unat (next_id (reg w')) \<le> unat (next_id (reg w)) + 2 \<and>
     (\<forall>h \<in> set hs. next_id (reg w) \<le> h \<and> h < next_id (reg w'))"

lemma word_succ_facts:
  fixes x :: u64
  assumes "unat x + 2 < 2 ^ 64"
  shows "x \<le> x + 1" "unat (x + 1) = unat x + 1" "x < x + 1" "x \<le> x + 1 + 1" "unat (x + 1 + 1) = unat x + 2"
    "x < x + 1 + 1" "x + 1 < x + 1 + 1" "x + 1 \<noteq> x" "\<not> x + 1 < x"
proof -
  have 1: "unat (x + 1) = unat x + 1" using assms by (intro unat_Suc_word) simp
  then have 2: "unat (x + 1 + 1) = unat x + 2" using assms unat_Suc_word [of "x + 1"] by simp
  show "unat (x + 1) = unat x + 1" "unat (x + 1 + 1) = unat x + 2" by (fact 1, fact 2)
  show "x \<le> x + 1" "x < x + 1" "x \<le> x + 1 + 1" "x < x + 1 + 1" "x + 1 < x + 1 + 1" "\<not> x + 1 < x"
    using 1 2 by (simp_all add: word_less_nat_alt word_le_nat_alt)
  show "x + 1 \<noteq> x" using 1 by auto
qed

lemma grows_refl: "grows w [] (w\<lparr>net := n\<rparr>)" "grows w [] w"
  by (auto simp: grows_def)

lemma grows_yield_handle:
  assumes run: "yield_handle s k rn w = (r, w')" and "room w 2" and "\<not> is_op (Some s)"
    and none: "live w (next_id (reg w)) = None"
  shows "grows w (result_handles r) w'"
proof -
  note ws = word_succ_facts [OF assms(2) [unfolded room_def]]
  obtain m n where rn: "rn = (m, n)" by (cases rn)
  show ?thesis
  proof (cases m)
    case (Inl e)
    then show ?thesis using run rn by (auto simp: yield_handle_def grows_refl)
  next
    case (Inr u)
    then show ?thesis using run rn ws none assms(3)
      by (auto simp: yield_handle_def live_simps grows_def split: if_splits)
  qed
qed

lemma grows_yield_pair:
  assumes run: "yield_stream_pair rn w = (r, w')" and "room w 2"
    and none: "live w (next_id (reg w)) = None" "live w (next_id (reg w) + 1) = None"
  shows "grows w (result_handles r) w'"
proof -
  note ws = word_succ_facts [OF assms(2) [unfolded room_def]]
  obtain m n where rn: "rn = (m, n)" by (cases rn)
  show ?thesis
  proof (cases m)
    case (Inl e)
    then show ?thesis using run rn by (auto simp: yield_stream_pair_def grows_refl)
  next
    case (Inr u)
    then show ?thesis using run rn ws none
      by (auto simp: yield_stream_pair_def live_simps grows_def is_op_def split: if_splits)
  qed
qed

lemma grows_run_body:
  assumes run: "run_body I f w = (r, w')" and "room w 2"
    and "live w (next_id (reg w)) = None" "live w (next_id (reg w) + 1) = None"
  shows "grows w (result_handles r) w'"
proof -
  note y = grows_yield_handle [OF _ assms(2) _ assms(3)] grows_yield_pair [OF _ assms(2-4)]
  show ?thesis using run
    by (cases f) (auto simp: grows_refl is_op_def Let_def intro: y
        split: prod.splits sum.splits option.splits)
qed

definition result_of :: "('n, 'z) lib_scheme \<Rightarrow> u64 \<Rightarrow> (rust_error + op_value) option" where
  "result_of w op = (case live w op of Some (SOp p) \<Rightarrow> result p | _ \<Rightarrow> None)"

text \<open>A completion of \<open>op\<close> with this status is somewhere between the library and the caller.\<close>

definition carries :: "('n, 'z) pump_scheme \<Rightarrow> u64 \<Rightarrow> i32 \<Rightarrow> bool" where
  "carries w op st \<longleftrightarrow> (op, st) \<in> set (queue w) \<or> unclaimed w op = Some st \<or>
     (\<exists>ch. awaiters w op = Some (Parked ch) \<and> (pump_pc w = PumpSending ch st \<or> st \<in> set (chans w ch)))"

definition lib_inv :: "('n, 'z) pump_scheme \<Rightarrow> bool" where
  "lib_inv w \<longleftrightarrow>
     (\<forall>h. live w h \<noteq> None \<or> awaiters w h \<noteq> None \<longrightarrow> 0 < h \<and> h < next_id (reg w)) \<and>
     (\<forall>op. under_way w op \<longrightarrow> is_op (live w op) \<and> (result_of w op = None \<longleftrightarrow> tasks w op \<noteq> None)) \<and>
     (\<forall>op st. carries w op st \<longrightarrow> (\<exists>r. result_of w op = Some r \<and> status_of r = st)) \<and>
     (\<forall>op r h. result_of w op = Some r \<longrightarrow> h \<in> set (result_handles r) \<longrightarrow>
        0 < h \<and> h < next_id (reg w) \<and> \<not> is_op (live w h)) \<and>
     0 < next_id (reg w) \<and>
     (\<forall>op. awaiters w op \<noteq> None \<longrightarrow> is_op (live w op))"

definition pump_ok :: "('n, 'z) pump_scheme \<Rightarrow> bool" where
  "pump_ok w \<longleftrightarrow> pump_inv w \<and> lib_inv w"

lemma lib_invI:
  assumes "\<And>h. live w h \<noteq> None \<or> awaiters w h \<noteq> None \<Longrightarrow> 0 < h \<and> h < next_id (reg w)"
    and "\<And>op. under_way w op \<Longrightarrow> is_op (live w op) \<and> (result_of w op = None \<longleftrightarrow> tasks w op \<noteq> None)"
    and "\<And>op st. carries w op st \<Longrightarrow> \<exists>r. result_of w op = Some r \<and> status_of r = st"
    and "\<And>op r h. result_of w op = Some r \<Longrightarrow> h \<in> set (result_handles r) \<Longrightarrow>
        0 < h \<and> h < next_id (reg w) \<and> \<not> is_op (live w h)"
    and "0 < next_id (reg w)"
    and "\<And>op. awaiters w op \<noteq> None \<Longrightarrow> is_op (live w op)"
  shows "lib_inv w"
  unfolding lib_inv_def
  using assms(1) assms(2) assms(3) assms(4) assms(5) assms(6) by (intro conjI allI impI) auto

lemma lib_invD:
  assumes "lib_inv w"
  shows "live w h \<noteq> None \<or> awaiters w h \<noteq> None \<Longrightarrow> 0 < h \<and> h < next_id (reg w)"
    and "under_way w op \<Longrightarrow> is_op (live w op) \<and> (result_of w op = None \<longleftrightarrow> tasks w op \<noteq> None)"
    and "carries w op st \<Longrightarrow> \<exists>r. result_of w op = Some r \<and> status_of r = st"
    and "result_of w op = Some r \<Longrightarrow> h \<in> set (result_handles r) \<Longrightarrow>
        0 < h \<and> h < next_id (reg w) \<and> \<not> is_op (live w h)"
    and "0 < next_id (reg w)"
    and "awaiters w op \<noteq> None \<Longrightarrow> is_op (live w op)"
  using assms unfolding lib_inv_def by metis+

lemma fresh_next:
  assumes "lib_inv w"
  shows "live w (next_id (reg w)) = None" "awaiters w (next_id (reg w)) = None"
    "\<not> under_way w (next_id (reg w))"
proof -
  show 1: "live w (next_id (reg w)) = None" "awaiters w (next_id (reg w)) = None"
    using lib_invD(1) [OF assms, of "next_id (reg w)"] by (metis order_less_irrefl)+
  then show "\<not> under_way w (next_id (reg w))" by (simp add: under_way_def)
qed

lemma fresh_next2:
  assumes "lib_inv w" and "room w 2"
  shows "live w (next_id (reg w) + 1) = None"
proof -
  have "\<not> next_id (reg w) + 1 < next_id (reg w)"
    using word_succ_facts(9) [OF assms(2) [unfolded room_def]] .
  then show ?thesis using lib_invD(1) [OF assms(1), of "next_id (reg w) + 1"] by metis
qed

text \<open>Steps of the pump and its callers that leave the library alone.\<close>

lemma lib_inv_same:
  assumes inv: "lib_inv w"
    and same: "reg w' = reg w" "tasks w' = tasks w"
    and aw: "\<And>op. awaiters w' op \<noteq> None \<Longrightarrow> awaiters w op \<noteq> None"
    and uw: "\<And>op. under_way w' op \<Longrightarrow> under_way w op"
    and carries: "\<And>op st. carries w' op st \<Longrightarrow> carries w op st"
  shows "lib_inv w'"
proof (rule lib_invI)
  have res: "result_of w' = result_of w" by (simp add: result_of_def fun_eq_iff same)
  show "0 < h \<and> h < next_id (reg w')" if "live w' h \<noteq> None \<or> awaiters w' h \<noteq> None" for h
    using lib_invD(1) [OF inv, of h] that aw [of h] by (auto simp: same)
  show "is_op (live w' op) \<and> (result_of w' op = None \<longleftrightarrow> tasks w' op \<noteq> None)" if "under_way w' op" for op
    using lib_invD(2) [OF inv uw [OF that]] by (simp add: same res)
  show "\<exists>r. result_of w' op = Some r \<and> status_of r = st" if "carries w' op st" for op st
    using lib_invD(3) [OF inv carries [OF that]] by (simp add: res)
  show "0 < h \<and> h < next_id (reg w') \<and> \<not> is_op (live w' h)"
    if "result_of w' op = Some r" "h \<in> set (result_handles r)" for op r h
    using lib_invD(4) [OF inv, of op r h] that by (simp add: same res)
  show "0 < next_id (reg w')" using lib_invD(5) [OF inv] by (simp add: same)
  show "is_op (live w' op)" if "awaiters w' op \<noteq> None" for op
    using lib_invD(6) [OF inv aw [OF that]] by (simp add: same)
qed

lemma lib_inv_wait:
  assumes "pump_inv w" and "lib_inv w"
  shows "lib_inv (pump_wait w)"
  using assms(2)
proof (rule lib_inv_same)
  show "reg (pump_wait w) = reg w" "tasks (pump_wait w) = tasks w"
    "awaiters (pump_wait w) op \<noteq> None \<Longrightarrow> awaiters w op \<noteq> None"
    "under_way (pump_wait w) op \<Longrightarrow> under_way w op" for op
    by (auto simp: pump_wait_def wait_queue_def deliver_locked_def under_way_def
        split: pump_pc.splits list.splits option.splits if_splits)
  show "carries w op st" if c: "carries (pump_wait w) op st" for op st
  proof (cases "pump_pc w = PumpIdle \<and> queue w \<noteq> []")
    case True
    then obtain x s q where pc: "pump_pc w = PumpIdle" and q: "queue w = (x, s) # q"
      by (cases "queue w") auto
    show ?thesis
    proof (cases "waiters w x")
      case None
      then show ?thesis using c pc q
        by (auto simp: pump_wait_def wait_queue_def deliver_locked_def carries_def split: if_splits)
    next
      case (Some ch)
      then have "awaiters w x = Some (Parked ch)" using pump_invD(2) [OF assms(1)] by blast
      then have "op = x" if "awaiters w op = Some (Parked ch)"
        using pump_invD(4) [OF assms(1)] that by blast
      then show ?thesis using c pc q Some
        by (auto simp: pump_wait_def wait_queue_def deliver_locked_def carries_def)
    qed
  next
    case False
    then show ?thesis using c
      by (auto simp: pump_wait_def wait_queue_def carries_def split: pump_pc.splits list.splits if_splits)
  qed
qed

lemma lib_inv_send:
  assumes "lib_inv w"
  shows "lib_inv (deliver_send w)"
  using assms by (rule lib_inv_same)
    (auto simp: deliver_send_def carries_def under_way_def split: pump_pc.splits if_splits)

lemma lib_inv_receive:
  assumes inv: "pump_inv w" "lib_inv w" and rcv: "receive op w = Some (st, w')"
  shows "lib_inv w'"
proof -
  from rcv obtain ch rest where pk: "awaiters w op = Some (Parked ch)" and ch: "chans w ch = st # rest"
    and w': "w' = w\<lparr>chans := (chans w)(ch := rest), awaiters := (awaiters w)(op \<mapsto> Got)\<rparr>"
    by (auto simp: receive_def split: option.splits awaiter.splits list.splits)
  show ?thesis using inv(2)
    by (rule lib_inv_same) (use pk ch in \<open>auto simp: w' carries_def under_way_def split: if_splits\<close>)
qed

lemma lib_inv_park:
  assumes inv: "pump_inv w" "lib_inv w" and st: "awaiters w op = Some Started"
  shows "lib_inv (park op w)"
  using inv(2)
proof (rule lib_inv_same)
  have fresh: "awaiters w x \<noteq> Some (Parked (next_chan w))" for x
    using pump_invD(5) [OF inv(1)] by blast
  then have pc: "pump_pc w \<noteq> PumpSending (next_chan w) s" for s
    using pump_invD(6) [OF inv(1)] by blast
  show "reg (park op w) = reg w" "tasks (park op w) = tasks w"
    by (auto simp: park_def register_def Let_def split: option.split)
  show "awaiters (park op w) x \<noteq> None \<Longrightarrow> awaiters w x \<noteq> None"
    "under_way (park op w) x \<Longrightarrow> under_way w x" for x
    using st by (auto simp: park_def register_def Let_def under_way_def split: option.splits if_splits)
  show "carries w x s" if "carries (park op w) x s" for x s
    using that st fresh [of x] pc [of s]
    by (auto simp: park_def register_def Let_def carries_def split: option.splits if_splits)
qed

lemma is_op_simps [simp]: "\<not> is_op None" "is_op (Some (SOp p))"
  by (simp_all add: is_op_def)

lemma post_live:
  assumes "live w op = Some (SOp p)"
  shows "post op r w = w\<lparr>queue := queue w @ [(op, status_of r)],
     reg := publish op (SOp (p\<lparr>result := Some r\<rparr>)) (reg w)\<rparr>"
  using assms by (simp add: post_def)

lemma result_of_live: "live w' op = live w op \<Longrightarrow> result_of w' op = result_of w op"
  by (simp add: result_of_def)

lemma is_op_live: "is_op (live w op) \<Longrightarrow> \<exists>p. live w op = Some (SOp p) \<and> result_of w op = result p"
  by (auto simp: is_op_def result_of_def)

text \<open>A task posts its result: the one completion of its operation enters the queue.\<close>

lemma lib_inv_post:
  assumes inv: "pump_inv w" "lib_inv w" and task: "tasks w op \<noteq> None"
    and w1: "w1 = w\<lparr>tasks := (tasks w)(op := None), reg := rg, net := n\<rparr>"
    and grows: "grows w (result_handles r) w1"
  shows "lib_inv (post op r w1)"
proof -
  have uw: "under_way w op" using not_under_way(1) [OF inv(1), of op] task by blast
  then have aw: "awaiters w op \<noteq> None" by (auto simp: under_way_def split: option.splits)
  have "is_op (live w op)" using lib_invD(2) [OF inv(2) uw] by blast
  then obtain p where p: "live w op = Some (SOp p)" by (auto simp: is_op_def)
  have lt: "op < next_id (reg w)" using lib_invD(1) [OF inv(2), of op] p by simp
  have g: "\<And>h. h < next_id (reg w) \<Longrightarrow> live w1 h = live w h"
    "\<And>h. live w1 h \<noteq> None \<Longrightarrow> live w h = None \<Longrightarrow> \<not> is_op (live w1 h) \<and> h < next_id (reg w1)"
    "\<And>h. h \<in> set (result_handles r) \<Longrightarrow> next_id (reg w) \<le> h \<and> h < next_id (reg w1)"
    "next_id (reg w) \<le> next_id (reg w1)"
    using grows unfolding grows_def by blast+
  let ?w = "post op r w1"
  have live1: "live w1 op = Some (SOp p)" using g(1) [OF lt] p by simp
  have eq: "?w = w1\<lparr>queue := queue w1 @ [(op, status_of r)], reg := publish op (SOp (p\<lparr>result := Some r\<rparr>)) (reg w1)\<rparr>"
    by (rule post_live [OF live1])
  have live: "live ?w h = (if h = op then Some (SOp (p\<lparr>result := Some r\<rparr>)) else live w1 h)" for h
    by (simp add: eq live_simps)
  have nx: "next_id (reg ?w) = next_id (reg w1)" by (simp add: eq live_simps)
  have same: "awaiters ?w = awaiters w" "tasks ?w = (tasks w)(op := None)"
    "queue ?w = queue w @ [(op, status_of r)]" "unclaimed ?w = unclaimed w" "chans ?w = chans w"
    "pump_pc ?w = pump_pc w"
    unfolding eq by (simp_all add: w1)
  have old: "live w x = None \<or> x < next_id (reg w)" for x using lib_invD(1) [OF inv(2), of x] by blast
  have res: "result_of ?w x = (if x = op then Some r else result_of w x)" for x
    using g(1) [of x] g(2) [of x] old [of x]
    by (auto simp: result_of_def live is_op_def split: option.splits slot.splits)
  have isop: "is_op (live ?w x) \<longleftrightarrow> is_op (live w x)" for x
    using g(1) [of x] g(2) [of x] old [of x] p by (cases "live w x = None") (auto simp: live is_op_def)
  have none: "\<not> carries w op st" for st
    using pump_invD(1) [OF inv(1), of op] uw task
    by (auto simp: upstream_def downstream_def carries_def sending_def count_list_0_iff image_iff
        split: if_splits)
  show ?thesis
  proof (rule lib_invI)
    fix h assume "live ?w h \<noteq> None \<or> awaiters ?w h \<noteq> None"
    moreover have "h < next_id (reg w) \<or> 0 < h"
      using lib_invD(5) [OF inv(2)] by (meson leI order_less_le_trans)
    ultimately show "0 < h \<and> h < next_id (reg ?w)"
      using lib_invD(1) [OF inv(2), of h] g(1,2) [of h] g(4) aw lib_invD(5) [OF inv(2)]
      by (cases "live w h = None"; cases "awaiters w h = None")
        (auto simp: live nx same split: if_splits intro: order_less_le_trans)
  next
    fix x assume "under_way ?w x"
    then have "under_way w x" by (simp add: under_way_def same)
    then show "is_op (live ?w x) \<and> (result_of ?w x = None \<longleftrightarrow> tasks ?w x \<noteq> None)"
      using lib_invD(2) [OF inv(2), of x] by (simp add: isop res same)
  next
    fix x st assume "carries ?w x st"
    then have "x = op \<and> st = status_of r \<or> carries w x st" by (auto simp: carries_def same)
    then show "\<exists>r'. result_of ?w x = Some r' \<and> status_of r' = st"
      using lib_invD(3) [OF inv(2), of x st] none by (auto simp: res)
  next
    fix x r' h assume hyp: "result_of ?w x = Some r'" "h \<in> set (result_handles r')"
    have "x \<noteq> op \<and> result_of w x = Some r' \<or> x = op \<and> h \<in> set (result_handles r)"
      using hyp by (auto simp: res split: if_splits)
    then show "0 < h \<and> h < next_id (reg ?w) \<and> \<not> is_op (live ?w h)"
      using lib_invD(4) [OF inv(2), of x r' h] g(3) [of h] g(4) lib_invD(5) [OF inv(2)] old [of h] hyp(2)
      by (auto simp: isop nx intro: order_less_le_trans)
  next
    show "0 < next_id (reg ?w)" using lib_invD(5) [OF inv(2)] g(4) by (auto simp: nx)
  next
    show "is_op (live ?w x)" if "awaiters ?w x \<noteq> None" for x
      using that lib_invD(6) [OF inv(2), of x] by (simp add: isop same)
  qed
qed

lemma grows_tasks: "grows w [] (w\<lparr>tasks := t\<rparr>)"
  by (auto simp: grows_def)

lemma lib_inv_task_finishes:
  assumes inv: "pump_inv w" "lib_inv w" and room: "room w 2"
  shows "lib_inv (task_finishes I op w)"
proof (cases "tasks w op")
  case (Some k)
  let ?w = "w\<lparr>tasks := (tasks w)(op := None)\<rparr>"
  obtain r w1 where run: "run_body I (body k) ?w = (r, w1)" by (cases "run_body I (body k) ?w")
  obtain rg n where w1: "w1 = ?w\<lparr>reg := rg, net := n\<rparr>" using run_body_frame [OF run] by auto
  have "grows ?w (result_handles r) w1"
    using fresh_next [OF inv(2)] fresh_next2 [OF inv(2) room] room
    by (intro grows_run_body [OF run]) (simp_all add: room_def)
  then have "grows w (result_handles r) w1" by (simp add: grows_def)
  then have "lib_inv (post op r w1)"
    using lib_inv_post [OF inv _ w1] Some by simp
  then show ?thesis using Some run by (simp add: task_finishes_def)
qed (simp add: task_finishes_def inv)

lemma lib_inv_post_error:
  assumes "pump_inv w" "lib_inv w" "tasks w op \<noteq> None"
  shows "lib_inv (post op (Inl e) (w\<lparr>tasks := (tasks w)(op := None)\<rparr>))"
  by (rule lib_inv_post [OF assms, where rg = "reg w" and n = "net w"]) (simp_all add: grows_tasks)

lemma lib_inv_task_stops: "pump_inv w \<Longrightarrow> lib_inv w \<Longrightarrow> lib_inv (task_stops op w)"
  by (auto simp: task_stops_def lib_inv_post_error split: option.splits)

lemma lib_inv_task_panics: "pump_inv w \<Longrightarrow> lib_inv w \<Longrightarrow> lib_inv (task_panics op w)"
  by (auto simp: task_panics_def lib_inv_post_error split: option.splits)

text \<open>A new operation, in flight or failed at once, enters under a fresh id.\<close>

lemma lib_inv_new_op:
  assumes inv: "lib_inv w" and room: "room w 2" and op: "op = next_id (reg w)"
    and live: "\<And>h. live w' h = (if h = op then Some (SOp p) else live w h)"
    and nx: "next_id (reg w') = op + 1"
    and aw: "awaiters w' = (awaiters w)(op \<mapsto> Started)"
    and res: "result p = None \<longleftrightarrow> tasks w' op \<noteq> None" and handles: "\<And>r. result p = Some r \<Longrightarrow> result_handles r = []"
    and tasks: "\<And>x. x \<noteq> op \<Longrightarrow> tasks w' x = tasks w x"
    and carries: "\<And>x st. carries w' x st \<Longrightarrow> x \<noteq> op \<Longrightarrow> carries w x st"
      "\<And>st. carries w' op st \<Longrightarrow> \<exists>r. result p = Some r \<and> status_of r = st"
  shows "lib_inv w'"
proof -
  have ws: "op \<le> op + 1" "op < op + 1"
    using word_succ_facts [OF room [unfolded room_def]] by (simp_all add: op)
  have pos: "0 < op" using lib_invD(5) [OF inv] by (simp add: op)
  have old: "0 < h \<and> h < op" if "live w h \<noteq> None \<or> awaiters w h \<noteq> None" for h
    using lib_invD(1) [OF inv that] by (simp add: op)
  have r': "result_of w' x = (if x = op then result p else result_of w x)" for x
    by (simp add: result_of_def live)
  show ?thesis
  proof (rule lib_invI)
    fix h assume "live w' h \<noteq> None \<or> awaiters w' h \<noteq> None"
    then have "h = op \<or> live w h \<noteq> None \<or> awaiters w h \<noteq> None" by (auto simp: live aw split: if_splits)
    then show "0 < h \<and> h < next_id (reg w')" using old [of h] ws pos by (auto simp: nx)
  next
    fix x assume "under_way w' x"
    then show "is_op (live w' x) \<and> (result_of w' x = None \<longleftrightarrow> tasks w' x \<noteq> None)"
      using lib_invD(2) [OF inv, of x] res
      by (cases "x = op") (auto simp: live r' tasks under_way_def aw)
  next
    fix x st assume "carries w' x st"
    then show "\<exists>r. result_of w' x = Some r \<and> status_of r = st"
      using carries lib_invD(3) [OF inv, of x st] by (cases "x = op") (auto simp: r')
  next
    fix x r h assume hyp: "result_of w' x = Some r" "h \<in> set (result_handles r)"
    then have "x \<noteq> op" "result_of w x = Some r" using handles by (auto simp: r' split: if_splits)
    then have "0 < h \<and> h < op \<and> \<not> is_op (live w h)" using lib_invD(4) [OF inv _ hyp(2)] by (simp add: op)
    then show "0 < h \<and> h < next_id (reg w') \<and> \<not> is_op (live w' h)" using ws by (auto simp: nx live)
  next
    show "0 < next_id (reg w')" using pos ws by (auto simp: nx)
  next
    show "is_op (live w' x)" if "awaiters w' x \<noteq> None" for x
      using that lib_invD(6) [OF inv, of x] by (auto simp: live aw split: if_splits)
  qed
qed

lemma lib_inv_spawn:
  assumes inv: "pump_inv w" "lib_inv w" and room: "room w 2"
  shows "lib_inv (mark_started (fst (spawn f w)) (snd (spawn f w)))"
  using inv(2) room refl
proof (rule lib_inv_new_op [where p = Op_new])
  note nu = not_under_way [OF inv(1) fresh_next(3) [OF inv(2)]]
  show "\<exists>r. result Op_new = Some r \<and> status_of r = st"
    if "carries (mark_started (fst (spawn f w)) (snd (spawn f w))) (next_id (reg w)) st" for st
    using that nu by (auto simp: carries_def mark_started_def spawn_def reserve_def image_iff)
qed (auto simp: mark_started_def spawn_def reserve_def live_simps Op_new_def carries_def)

lemma lib_inv_spawn_failed:
  assumes inv: "pump_inv w" "lib_inv w" and room: "room w 2"
  shows "lib_inv (mark_started (fst (spawn_ready (Inl e) w)) (snd (spawn_ready (Inl e) w)))"
    (is "lib_inv ?w'")
  using inv(2) room refl
proof (rule lib_inv_new_op [where p = "Op_new\<lparr>result := Some (Inl e)\<rparr>"])
  note nu = not_under_way [OF inv(1) fresh_next(3) [OF inv(2)]]
  let ?op = "next_id (reg w)"
  let ?w = "w\<lparr>reg := publish ?op (SOp Op_new) (reg w\<lparr>next_id := ?op + 1\<rparr>)\<rparr>"
  have "live ?w ?op = Some (SOp Op_new)" by (simp add: live_simps)
  then have eq: "spawn_ready (Inl e) w = (?op, ?w\<lparr>queue := queue w @ [(?op, status_of (Inl e))],
      reg := publish ?op (SOp (Op_new\<lparr>result := Some (Inl e)\<rparr>)) (reg ?w)\<rparr>)"
    by (simp add: spawn_ready_def reserve_def post_live)
  show "live ?w' h = (if h = ?op then Some (SOp (Op_new\<lparr>result := Some (Inl e)\<rparr>)) else live w h)" for h
    by (simp add: eq mark_started_def live_simps)
  show "next_id (reg ?w') = ?op + 1" "awaiters ?w' = (awaiters w)(?op \<mapsto> Started)"
    by (simp_all add: eq mark_started_def live_simps)
  show "tasks ?w' x = tasks w x" for x by (simp add: eq mark_started_def)
  show "(result (Op_new\<lparr>result := Some (Inl e)\<rparr>) = None) = (tasks ?w' ?op \<noteq> None)"
    using nu(1) by (simp add: eq mark_started_def)
  show "carries ?w' x st \<Longrightarrow> x \<noteq> ?op \<Longrightarrow> carries w x st" for x st
    by (auto simp: eq mark_started_def carries_def)
  show "\<exists>r. result (Op_new\<lparr>result := Some (Inl e)\<rparr>) = Some r \<and> status_of r = st" if "carries ?w' ?op st" for st
    using that nu by (auto simp: eq mark_started_def carries_def image_iff)
qed auto

lemma lookup_fold_remove [live_simps]:
  "lookup (fold (\<lambda>h r. snd (remove h r)) hs r) h = (if h \<in> set hs \<and> h \<noteq> 0 then None else lookup r h)"
  by (induction hs arbitrary: r) (auto simp: live_simps split: if_splits)

lemma next_fold_remove [live_simps]: "next_id (fold (\<lambda>h r. snd (remove h r)) hs r) = next_id r"
  by (induction hs arbitrary: r) (auto simp: live_simps)

text \<open>What freeing an operation whose task is done leaves in the table.\<close>

definition dropped :: "('n, 'z) lib_scheme \<Rightarrow> u64 \<Rightarrow> u64 set" where
  "dropped w op = insert op (case result_of w op of Some r \<Rightarrow> set (result_handles r) | None \<Rightarrow> {})"

lemma live_iroh_op_free:
  assumes "is_op (live w op)" and "tasks w op = None"
  shows "live (iroh_op_free op w) h = (if h \<in> dropped w op \<and> h \<noteq> 0 then None else live w h)"
    and "next_id (reg (iroh_op_free op w)) = next_id (reg w)"
proof -
  obtain p where p: "live w op = Some (SOp p)" using assms(1) by (auto simp: is_op_def)
  show "live (iroh_op_free op w) h = (if h \<in> dropped w op \<and> h \<noteq> 0 then None else live w h)"
    using p assms(2)
    by (cases "result p") (auto simp: iroh_op_free_def Let_def op_drop_def release_handles_def live_simps
        dropped_def result_of_def split: sum.split)
  show "next_id (reg (iroh_op_free op w)) = next_id (reg w)"
    using p assms(2)
    by (auto simp: iroh_op_free_def Let_def op_drop_def release_handles_def live_simps
        split: option.split sum.split)
qed

lemma lib_inv_release:
  assumes inv: "lib_inv w"
    and live: "\<And>h. live w' h = (if h \<in> R then None else live w h)"
    and nx: "next_id (reg w) \<le> next_id (reg w')" and tasks: "tasks w' = tasks w"
    and aw: "\<And>x. awaiters w' x \<noteq> None \<Longrightarrow> awaiters w x \<noteq> None \<and> x \<notin> R"
    and uw: "\<And>x. under_way w' x \<Longrightarrow> under_way w x \<and> x \<notin> R"
    and carries: "\<And>x st. carries w' x st \<Longrightarrow> carries w x st \<and> x \<notin> R"
  shows "lib_inv w'"
proof (rule lib_invI)
  have res: "result_of w' x = (if x \<in> R then None else result_of w x)" for x
    by (simp add: result_of_def live)
  show "0 < h \<and> h < next_id (reg w')" if "live w' h \<noteq> None \<or> awaiters w' h \<noteq> None" for h
    using that lib_invD(1) [OF inv, of h] aw [of h] nx
    by (auto simp: live split: if_splits intro: order_less_le_trans)
  show "is_op (live w' x) \<and> (result_of w' x = None \<longleftrightarrow> tasks w' x \<noteq> None)" if "under_way w' x" for x
    using uw [OF that] lib_invD(2) [OF inv, of x] by (auto simp: live res tasks)
  show "\<exists>r. result_of w' x = Some r \<and> status_of r = st" if "carries w' x st" for x st
    using carries [OF that] lib_invD(3) [OF inv, of x st] by (auto simp: res)
  show "0 < h \<and> h < next_id (reg w') \<and> \<not> is_op (live w' h)"
    if "result_of w' x = Some r" "h \<in> set (result_handles r)" for x r h
    using that lib_invD(4) [OF inv, of x r h] nx
    by (auto simp: res live split: if_splits intro: order_less_le_trans)
  show "0 < next_id (reg w')" using lib_invD(5) [OF inv] nx by (rule order_less_le_trans)
  show "is_op (live w' x)" if "awaiters w' x \<noteq> None" for x
    using aw [OF that] lib_invD(6) [OF inv, of x] by (simp add: live)
qed

text \<open>Handles of results are never operations, so dropping one keeps every other operation.\<close>

lemma dropped_not_op:
  assumes "lib_inv w" and "x \<in> dropped w op" and "x \<noteq> op"
  shows "\<not> is_op (live w x)" "\<not> under_way w x" "\<not> carries w x st"
proof -
  show 1: "\<not> is_op (live w x)"
    using assms lib_invD(4) [OF assms(1), of op _ x] by (auto simp: dropped_def split: option.splits)
  then show "\<not> under_way w x" using lib_invD(2) [OF assms(1), of x] by blast
  show "\<not> carries w x st"
  proof
    assume "carries w x st"
    then obtain r where "result_of w x = Some r" using lib_invD(3) [OF assms(1)] by blast
    then show False using 1 by (auto simp: result_of_def is_op_def split: option.splits slot.splits)
  qed
qed

lemma dropped_pos: "lib_inv w \<Longrightarrow> 0 < op \<Longrightarrow> x \<in> dropped w op \<Longrightarrow> x \<noteq> 0"
  using lib_invD(4) [of w op _ x] by (auto simp: dropped_def split: option.splits)

lemma lib_inv_free:
  assumes inv: "pump_inv w" "lib_inv w" and got: "awaiters w op = Some Got"
  shows "lib_inv (forget op (iroh_op_free op w))"
  using inv(2)
proof (rule lib_inv_release [where R = "dropped w op"])
  have nuw: "\<not> under_way w op" using got by (simp add: under_way_def)
  have op: "is_op (live w op)" using lib_invD(6) [OF inv(2), of op] got by simp
  note nu = not_under_way [OF inv(1) nuw]
  obtain rg where rg: "iroh_op_free op w = w\<lparr>reg := rg\<rparr>" using iroh_op_free_frame by blast
  have pos: "0 < op" using lib_invD(1) [OF inv(2), of op] got by auto
  show "live (forget op (iroh_op_free op w)) h = (if h \<in> dropped w op then None else live w h)" for h
    using live_iroh_op_free(1) [OF op nu(1), of h] dropped_pos [OF inv(2) pos, of h]
    by (auto simp: forget_def)
  show "next_id (reg w) \<le> next_id (reg (forget op (iroh_op_free op w)))"
    using live_iroh_op_free(2) [OF op nu(1)] by (simp add: forget_def)
  show "tasks (forget op (iroh_op_free op w)) = tasks w" by (simp add: forget_def rg)
  show "awaiters w x \<noteq> None \<and> x \<notin> dropped w op" if "awaiters (forget op (iroh_op_free op w)) x \<noteq> None" for x
  proof -
    from that have "x \<noteq> op" "awaiters w x \<noteq> None" by (auto simp: forget_def rg split: if_splits)
    then show ?thesis using lib_invD(6) [OF inv(2), of x] dropped_not_op(1) [OF inv(2), of x op] by blast
  qed
  show "under_way w x \<and> x \<notin> dropped w op" if "under_way (forget op (iroh_op_free op w)) x" for x
  proof -
    from that have "x \<noteq> op" "under_way w x" by (auto simp: forget_def rg under_way_def split: if_splits)
    then show ?thesis using dropped_not_op(2) [OF inv(2)] by blast
  qed
  show "carries w x st \<and> x \<notin> dropped w op" if "carries (forget op (iroh_op_free op w)) x st" for x st
  proof -
    from that have c: "carries w x st" using got by (auto simp: forget_def rg carries_def split: if_splits)
    moreover have "x \<noteq> op" using c nu got by (auto simp: carries_def image_iff)
    ultimately show ?thesis using dropped_not_op(3) [OF inv(2)] by blast
  qed
qed

text \<open>Taking the result first leaves the operation without one, and the same table otherwise.\<close>

lemma take_op_live:
  assumes "live w op = Some (SOp p)" and "op \<noteq> 0"
  shows "snd (take_op op w) = (case result p of None \<Rightarrow> w
     | Some _ \<Rightarrow> w\<lparr>reg := publish op (SOp (p\<lparr>result := None\<rparr>)) (reg w)\<rparr>)"
    and "fst (take_op op w) = (case result p of None \<Rightarrow> Inl (rerr Internal ''operation has not completed'')
     | Some r \<Rightarrow> r)"
  using assms by (auto simp: take_op_def get_slot_lookup take_result_def split: option.split)

text \<open>Rewriting an operation's slot in place, with its result kept or taken by its caller.\<close>

lemma lib_inv_edit:
  assumes inv: "pump_inv w" "lib_inv w" and p: "live w op = Some (SOp p)"
    and t: "\<And>x. t x = None \<longleftrightarrow> tasks w x = None"
    and r: "result p' = result p \<or> result p' = None \<and> awaiters w op = Some Got"
  shows "lib_inv (w\<lparr>reg := publish op (SOp p') (reg w), tasks := t\<rparr>)" (is "lib_inv ?w")
proof -
  have res: "result_of ?w x = (if x = op then result p' else result_of w x)" for x
    by (simp add: result_of_def live_simps)
  have isop: "is_op (live ?w x) = is_op (live w x)" for x by (simp add: live_simps p)
  have car: "carries ?w x st \<longleftrightarrow> carries w x st" for x st by (simp add: carries_def)
  have rp: "result_of w op = result p" by (simp add: result_of_def p)
  have gone: "\<not> under_way w op \<and> \<not> carries w op st" if "awaiters w op = Some Got" for st
    using that not_under_way [OF inv(1), of op] by (auto simp: carries_def under_way_def image_iff)
  show ?thesis
  proof (rule lib_invI)
    show "0 < h \<and> h < next_id (reg ?w)" if "live ?w h \<noteq> None \<or> awaiters ?w h \<noteq> None" for h
      using that lib_invD(1) [OF inv(2), of h] p by (auto simp: live_simps split: if_splits)
    show "is_op (live ?w x) \<and> (result_of ?w x = None \<longleftrightarrow> tasks ?w x \<noteq> None)" if "under_way ?w x" for x
    proof -
      from that have uw: "under_way w x" by (simp add: under_way_def)
      then show ?thesis using lib_invD(2) [OF inv(2) uw] r gone rp unfolding isop res by (auto simp: t)
    qed
    show "\<exists>r. result_of ?w x = Some r \<and> status_of r = st" if "carries ?w x st" for x st
      using that lib_invD(3) [OF inv(2), of x st] r gone rp unfolding car res
      by (cases "result p") auto
    show "0 < h \<and> h < next_id (reg ?w) \<and> \<not> is_op (live ?w h)"
      if "result_of ?w x = Some r'" "h \<in> set (result_handles r')" for x r' h
      using that lib_invD(4) [OF inv(2), of x r' h] r rp unfolding isop res
      by (auto simp: live_simps split: if_splits)
    show "0 < next_id (reg ?w)" using lib_invD(5) [OF inv(2)] by (simp add: live_simps)
    show "is_op (live ?w x)" if "awaiters ?w x \<noteq> None" for x
      using that lib_invD(6) [OF inv(2), of x] unfolding isop by simp
  qed
qed

lemma lib_inv_take:
  assumes inv: "pump_inv w" "lib_inv w" and got: "awaiters w op = Some Got"
  shows "lib_inv (snd (take_op op w))"
proof -
  obtain p where p: "live w op = Some (SOp p)"
    using lib_invD(6) [OF inv(2), of op] got by (auto simp: is_op_def)
  have pos: "op \<noteq> 0" using lib_invD(1) [OF inv(2), of op] got by auto
  show ?thesis
    using take_op_live(1) [OF p pos] inv(2) lib_inv_edit [OF inv p, of "tasks w" "p\<lparr>result := None\<rparr>"] got
    by (auto split: option.splits)
qed

lemma lib_inv_cancel:
  assumes inv: "pump_inv w" "lib_inv w"
  shows "lib_inv (iroh_op_cancel op w)"
proof (cases "get_slot as_op op (reg w)")
  case (Inr p)
  then have p: "live w op = Some (SOp p)"
    by (auto simp: get_slot_lookup split: if_splits option.splits elim: as_op.elims)
  then show ?thesis
    using lib_inv_edit [OF inv p, of "case tasks w op of None \<Rightarrow> tasks w
        | Some k \<Rightarrow> (tasks w)(op \<mapsto> k\<lparr>aborted := True\<rparr>)" "p\<lparr>cancel_requested := True\<rparr>"] Inr
    by (auto simp: iroh_op_cancel_def op_cancel_def split: option.splits if_splits)
qed (simp add: iroh_op_cancel_def inv)

subsection \<open>The whole system\<close>

lemma pump_ok_step:
  assumes "pump_ok w" and room: "room w 2"
  shows "pump_ok (pump_step I e w)"
proof -
  from assms have inv: "pump_inv w" "lib_inv w" by (auto simp: pump_ok_def)
  have "lib_inv (pump_step I e w)"
  proof (cases e)
    case (Receives op)
    then show ?thesis using inv by (auto split: option.split dest: lib_inv_receive)
  next
    case (Collects op)
    then show ?thesis
      using inv lib_inv_free [of "snd (take_op op w)" op] by (auto simp: pump_inv_free lib_inv_take step_frame)
  qed (use inv room in \<open>auto simp: lib_inv_task_finishes lib_inv_task_stops lib_inv_task_panics
      lib_inv_wait lib_inv_send lib_inv_park lib_inv_cancel lib_inv_free Let_def case_prod_unfold
      lib_inv_spawn lib_inv_spawn_failed split: option.split awaiter.split\<close>)
  then show ?thesis using pump_inv_step [OF inv(1) fresh_next(3) [OF inv(2)]] by (simp add: pump_ok_def)
qed

subsection \<open>Reachable states\<close>

definition pump_init :: "'n \<Rightarrow> 'n pump" where
  "pump_init n = \<lparr>reg = registry_init, queue = [], shut = False, tasks = Map.empty, bufs = Map.empty,
     next_buf = 0, fault = False, net = n, waiters = Map.empty, unclaimed = Map.empty,
     chans = (\<lambda>_. []), next_chan = 0, pump_pc = PumpIdle, awaiters = Map.empty\<rparr>"

text \<open>
  The states the process can reach, for as long as the library has two handle ids left to hand out
  (a step uses at most two).
\<close>

inductive reachable :: "'n iroh \<Rightarrow> 'n \<Rightarrow> 'n pump \<Rightarrow> bool" for I n where
  start: "reachable I n (pump_init n)"
| step: "reachable I n w \<Longrightarrow> room w 2 \<Longrightarrow> reachable I n (pump_step I e w)"

lemma pump_ok_init: "pump_ok (pump_init n)"
  unfolding pump_ok_def
proof
  show "pump_inv (pump_init n)"
    by (rule pump_invI) (auto simp: pump_init_def upstream_def downstream_def under_way_def)
  show "lib_inv (pump_init n)"
    by (rule lib_invI)
      (auto simp: pump_init_def live_simps under_way_def carries_def result_of_def)
qed

lemma pump_okD:
  assumes "pump_ok w" shows "pump_inv w" "lib_inv w"
  using assms by (auto simp: pump_ok_def)

lemma reachable_ok: "reachable I n w \<Longrightarrow> pump_ok w"
  by (induction rule: reachable.induct) (auto intro: pump_ok_init pump_ok_step)

text \<open>A run of events, the ids it can use, and the states the examples below are about.\<close>

abbreviation run :: "'n iroh \<Rightarrow> pump_event list \<Rightarrow> ('n, 'z) pump_scheme \<Rightarrow> ('n, 'z) pump_scheme" where
  "run I es w \<equiv> fold (pump_step I) es w"

lemma next_run_body: "unat (next_id (reg (snd (run_body I f w)))) \<le> unat (next_id (reg w)) + 2"
  using unat_plus_one_le [of "next_id (reg w)"] unat_plus_two_le [of "next_id (reg w)"]
  by (cases f) (auto simp: yield_handle_def yield_stream_pair_def live_simps Let_def
      split: prod.splits sum.splits option.splits)

lemma next_op_drop: "next_id (reg (op_drop p w)) = next_id (reg w)"
  by (auto simp: op_drop_def release_handles_def live_simps split: option.splits sum.splits)

lemma next_post: "next_id (reg (post oid r w)) = next_id (reg w)"
  by (auto simp: post_def Let_def live_simps next_op_drop split: option.splits slot.splits)

lemma next_free: "next_id (reg (iroh_op_free op w)) = next_id (reg w)"
  by (auto simp: iroh_op_free_def Let_def live_simps next_op_drop split: option.splits slot.splits)

lemma next_take: "next_id (reg (snd (take_op op w))) = next_id (reg w)"
  by (auto simp: take_op_def take_result_def live_simps split: sum.splits option.splits)

lemma next_wait: "reg (pump_wait w) = reg w"
  by (auto simp: pump_wait_def wait_queue_def deliver_locked_def
      split: pump_pc.splits list.splits option.splits)

text \<open>One event uses at most two ids.\<close>

lemma next_step:
  "unat (next_id (reg (pump_step I e w))) \<le> unat (next_id (reg w)) + 2"
proof (cases e)
  case (TaskFinishes op)
  then show ?thesis using next_run_body [of I _ "w\<lparr>tasks := (tasks w)(op := None)\<rparr>"]
    by (auto simp: task_finishes_def next_post Let_def case_prod_unfold split: option.split)
qed (use unat_plus_one_le [of "next_id (reg w)"] in \<open>auto simp: task_stops_def task_panics_def next_post
    next_free next_take next_wait step_frame spawn_def spawn_ready_def live_simps mark_started_def
    park_def register_def receive_def iroh_op_cancel_def op_cancel_def forget_def deliver_send_def Let_def
    split: pump_pc.split option.split awaiter.split list.split sum.split\<close>)

lemma reachable_run:
  "reachable I n w \<Longrightarrow> room w (2 * length es + 1) \<Longrightarrow> reachable I n (run I es w)"
proof (induction es arbitrary: w)
  case (Cons e es)
  have "reachable I n (pump_step I e w)"
    using Cons.prems by (intro reachable.step) (auto simp: room_def)
  moreover have "room (pump_step I e w) (2 * length es + 1)"
    using Cons.prems(2) next_step [of I e w] by (auto simp: room_def)
  ultimately show ?case using Cons.IH by simp
qed simp

abbreviation demo :: "pump_event list \<Rightarrow> echo_net pump" where
  "demo es \<equiv> run echo es (pump_init echo_start)"

lemma reachable_demo:
  assumes "length es < 1000"
  shows "reachable echo echo_start (demo es)"
proof (rule reachable_run [OF reachable.start])
  show "room (pump_init echo_start) (2 * length es + 1)"
    using assms by (simp add: room_def pump_init_def live_simps)
qed

text \<open>
  C1: at every moment of every interleaving, an operation that a goroutine has started and not yet
  received has exactly one completion, and it is in exactly one place: with its task, in the
  library's queue, among the unclaimed, in the pump's hands, or in its caller's channel. An
  operation nobody waits for has none. So no completion is lost and none is delivered twice.
\<close>

theorem exactly_one_completion:
  assumes "reachable I n w"
  shows "upstream w op + downstream w op = (if under_way w op then 1 else 0)"
  by (rule pump_invD(1) [OF pump_okD(1) [OF reachable_ok [OF assms]]])

theorem exactly_one_completion_witness:
  "upstream (demo [StartOp (FAccept 7), TaskFinishes 1, Registers 1]) 1
   + downstream (demo [StartOp (FAccept 7), TaskFinishes 1, Registers 1]) 1 = 1"
proof -
  have "under_way (demo [StartOp (FAccept 7), TaskFinishes 1, Registers 1]) 1" by code_simp
  then show ?thesis
    using exactly_one_completion [OF reachable_demo, of "[StartOp (FAccept 7), TaskFinishes 1, Registers 1]" 1]
    by simp
qed

text \<open>
  C11: the pump's send never blocks: whenever the pump is about to send, the channel's one place is
  free, and after the send the pump is back at its wait.
\<close>

theorem pump_send_never_blocks:
  assumes "reachable I n w" and "pump_pc w = PumpSending ch st"
  shows "chans w ch = [] \<and> pump_pc (deliver_send w) = PumpIdle \<and> chans (deliver_send w) ch = [st]"
proof -
  have "pump_inv w" using reachable_ok [OF assms(1)] by (simp add: pump_ok_def)
  then obtain op where "chans w ch = []" using send_finds_room [OF _ assms(2)] by metis
  then show ?thesis using assms(2) by (simp add: deliver_send_def)
qed

theorem pump_send_never_blocks_witness:
  "chans (demo [StartOp (FAccept 7), TaskFinishes 1, Registers 1, PumpWaits]) 0 = []
   \<and> pump_pc (deliver_send (demo [StartOp (FAccept 7), TaskFinishes 1, Registers 1, PumpWaits])) = PumpIdle
   \<and> chans (deliver_send (demo [StartOp (FAccept 7), TaskFinishes 1, Registers 1, PumpWaits])) 0 = [COMPLETION_OK]"
proof (rule pump_send_never_blocks [OF reachable_demo])
  show "pump_pc (demo [StartOp (FAccept 7), TaskFinishes 1, Registers 1, PumpWaits]) = PumpSending 0 COMPLETION_OK"
    by code_simp
qed simp

lemma receive_result:
  assumes ok: "pump_ok w" and rcv: "receive op w = Some (st, w')"
  shows "\<exists>r. result_of w' op = Some r \<and> status_of r = st" and "live w' = live w" and "op \<noteq> 0"
    and "awaiters w' op = Some Got"
proof -
  from rcv obtain ch rest where pk: "awaiters w op = Some (Parked ch)" and ch: "chans w ch = st # rest"
    and w': "w' = w\<lparr>chans := (chans w)(ch := rest), awaiters := (awaiters w)(op \<mapsto> Got)\<rparr>"
    by (auto simp: receive_def split: option.splits awaiter.splits list.splits)
  have "carries w op st" using pk ch by (auto simp: carries_def)
  then obtain r where "result_of w op = Some r" "status_of r = st"
    using lib_invD(3) [OF pump_okD(2) [OF ok]] by blast
  then show "\<exists>r. result_of w' op = Some r \<and> status_of r = st" by (auto simp: w' result_of_def)
  show "live w' = live w" "awaiters w' op = Some Got" by (simp_all add: w')
  show "op \<noteq> 0" using lib_invD(1) [OF pump_okD(2) [OF ok], of op] pk by auto
qed

text \<open>
  C12: the status a caller receives is the status of the result its operation holds at that moment:
  the result is there, it belongs to this operation, and collecting it yields it.
\<close>

theorem received_status_is_result:
  assumes "reachable I n w" and "receive op w = Some (st, w')"
  shows "status_of (fst (take_op op w')) = st"
proof -
  note ok = reachable_ok [OF assms(1)]
  obtain r where r: "result_of w' op = Some r" "status_of r = st"
    using receive_result(1) [OF ok assms(2)] by blast
  then obtain p where "live w' op = Some (SOp p)" "result p = Some r"
    by (auto simp: result_of_def split: option.splits slot.splits)
  then show ?thesis using r take_op_live(2) [of w' op p] receive_result(3) [OF ok assms(2)] by simp
qed

theorem received_status_is_result_witness:
  "\<exists>w'. receive 1 (demo [StartFailed (rerr Connect ''refused''), Registers 1, PumpWaits, PumpSends])
      = Some (COMPLETION_ERR, w') \<and> status_of (fst (take_op 1 w')) = COMPLETION_ERR"
proof -
  define w where "w = demo [StartFailed (rerr Connect ''refused''), Registers 1, PumpWaits, PumpSends]"
  have "map_option fst (receive 1 w) = Some COMPLETION_ERR" unfolding w_def by code_simp
  then obtain w' where rcv: "receive 1 w = Some (COMPLETION_ERR, w')" by auto
  have "reachable echo echo_start w" unfolding w_def by (rule reachable_demo) simp
  from received_status_is_result [OF this rcv] rcv show ?thesis unfolding w_def by blast
qed

subsection \<open>Nothing is left behind\<close>

lemma pending_under_way:
  assumes "pump_ok w"
  shows "dom (waiters w) \<inter> dom (unclaimed w) = {}"
    and "dom (waiters w) \<union> dom (unclaimed w) \<subseteq> {op. under_way w op}"
proof -
  note inv = pump_okD(1) [OF assms]
  have u: "awaiters w op = Some Started \<and> waiters w op = None" if "unclaimed w op \<noteq> None" for op
    using pump_invD(3) [OF inv that] pump_invD(2) [OF inv, of op] by (cases "waiters w op") auto
  then show "dom (waiters w) \<inter> dom (unclaimed w) = {}" by fastforce
  have "under_way w op" if "waiters w op = Some ch" for op ch
    using pump_invD(2) [OF inv] that by (auto simp: under_way_def)
  then show "dom (waiters w) \<union> dom (unclaimed w) \<subseteq> {op. under_way w op}"
    using u by (auto simp: under_way_def)
qed

text \<open>
  C13: the waiter tables do not grow: in every reachable state the operations \<^verbatim>\<open>PendingOps\<close> counts are
  all under way and none is counted twice, so the count never exceeds the number of operations under
  way, and it is zero once every operation that was started has been received.
\<close>

theorem pending_ops_drained:
  assumes "reachable I n w"
  shows "PendingOps w \<le> card {op. under_way w op}"
proof -
  note pend = pending_under_way [OF reachable_ok [OF assms]]
  have "PendingOps w = card (dom (waiters w) \<union> dom (unclaimed w))"
    using card_Un_disjoint [OF finite finite pend(1)] by (simp add: PendingOps_def)
  also have "\<dots> \<le> card {op. under_way w op}" by (rule card_mono [OF finite pend(2)])
  finally show ?thesis .
qed

theorem pending_ops_drained_witness:
  "PendingOps (demo [StartOp (FAccept 7), Registers 1]) \<le> card {op. under_way (demo [StartOp (FAccept 7), Registers 1]) op}"
  by (rule pending_ops_drained [OF reachable_demo]) simp

subsection \<open>The race between completion and registration\<close>

text \<open>
  C14: it makes no difference whether a fast operation completes before its caller registers or after:
  delivering and then registering leaves the same tables and the same status in the same channel as
  registering and then delivering.
\<close>

theorem register_deliver_commute:
  assumes "waiters w op = None" and "unclaimed w op = None" and "pump_pc w = PumpIdle"
  shows "deliver op st (snd (register op w)) = snd (register op (deliver op st w))
       \<and> fst (register op (deliver op st w)) = fst (register op w)
       \<and> chans (deliver op st (snd (register op w))) (fst (register op w)) = [st]"
proof -
  have "(waiters w)(op := None) = waiters w" "(unclaimed w)(op := None) = unclaimed w"
    using assms by auto
  then show ?thesis using assms
    by (cases w) (simp add: deliver_def deliver_locked_def deliver_send_def register_def Let_def)
qed

theorem register_deliver_commute_witness:
  "deliver 1 0 (snd (register 1 (demo []))) = snd (register 1 (deliver 1 0 (demo [])))
   \<and> fst (register 1 (deliver 1 0 (demo []))) = fst (register 1 (demo []))
   \<and> chans (deliver 1 0 (snd (register 1 (demo [])))) (fst (register 1 (demo []))) = [0]"
  by (rule register_deliver_commute) (simp_all add: pump_init_def)

subsection \<open>Every operation can reach its caller\<close>

text \<open>The events the library and the pump need to empty the queue.\<close>

definition drain :: "nat \<Rightarrow> pump_event list" where
  "drain k = concat (replicate k [PumpWaits, PumpSends])"

lemma send_idle:
  assumes inv: "pump_inv w" and pc: "pump_pc w \<noteq> PumpExited"
  shows "pump_pc (deliver_send w) = PumpIdle"
proof (cases "pump_pc w")
  case (PumpSending ch st)
  then have "chans w ch = []" using send_finds_room [OF inv PumpSending] by metis
  then show ?thesis using PumpSending by (simp add: deliver_send_def)
qed (use pc in \<open>simp_all add: deliver_send_def\<close>)

lemma deliver_send_frame [step_frame]:
  "queue (deliver_send w) = queue w" "tasks (deliver_send w) = tasks w" "reg (deliver_send w) = reg w"
  "awaiters (deliver_send w) = awaiters w"
  by (simp_all add: deliver_send_def split: pump_pc.split)

lemma wait_send_idle:
  assumes inv: "pump_inv w" and q: "queue w = (op, st) # q" and pc: "pump_pc w = PumpIdle"
  shows "pump_pc (deliver_send (pump_wait w)) = PumpIdle" "queue (deliver_send (pump_wait w)) = q"
    "tasks (deliver_send (pump_wait w)) = tasks w" "awaiters (deliver_send (pump_wait w)) = awaiters w"
proof -
  have "pump_pc (pump_wait w) \<noteq> PumpExited"
    using q pc by (auto simp: pump_wait_def wait_queue_def deliver_locked_def split: option.split)
  then show "pump_pc (deliver_send (pump_wait w)) = PumpIdle"
    using inv by (intro send_idle pump_inv_wait)
  show "queue (deliver_send (pump_wait w)) = q" "tasks (deliver_send (pump_wait w)) = tasks w"
    "awaiters (deliver_send (pump_wait w)) = awaiters w"
    using q pc by (auto simp: step_frame pump_wait_def wait_queue_def deliver_locked_def
        split: option.split)
qed

lemma drain_empties:
  "pump_inv w \<Longrightarrow> pump_pc w = PumpIdle \<Longrightarrow> queue w = q \<Longrightarrow>
   let w' = run I (drain (length q)) w in
     pump_inv w' \<and> pump_pc w' = PumpIdle \<and> queue w' = [] \<and> tasks w' = tasks w \<and> awaiters w' = awaiters w"
proof (induction q arbitrary: w)
  case Nil
  then show ?case by (simp add: drain_def)
next
  case (Cons x q)
  obtain op st where x: "x = (op, st)" by (cases x)
  let ?w = "deliver_send (pump_wait w)"
  have "pump_inv ?w" using Cons.prems(1) by (intro pump_inv_send pump_inv_wait)
  moreover note f = wait_send_idle [OF Cons.prems(1) Cons.prems(3) [unfolded x] Cons.prems(2)]
  ultimately have "let w' = run I (drain (length q)) ?w in
     pump_inv w' \<and> pump_pc w' = PumpIdle \<and> queue w' = [] \<and> tasks w' = tasks ?w \<and> awaiters w' = awaiters ?w"
    by (intro Cons.IH) auto
  then show ?case using f by (simp add: drain_def Let_def)
qed

lemma task_finishes_frame:
  "\<exists>rg n q. task_finishes I op w = w\<lparr>tasks := (tasks w)(op := None), reg := rg, net := n, queue := q\<rparr>"
proof (cases "tasks w op")
  case None
  then have "w\<lparr>tasks := (tasks w)(op := None), reg := reg w, net := net w, queue := queue w\<rparr> = w"
    by (simp add: fun_upd_idem)
  then show ?thesis using None by (metis option.simps(4) task_finishes_def)
next
  case (Some k)
  let ?w = "w\<lparr>tasks := (tasks w)(op := None)\<rparr>"
  obtain r w1 where run: "run_body I (body k) ?w = (r, w1)" by (cases "run_body I (body k) ?w")
  obtain rg n where w1: "w1 = ?w\<lparr>reg := rg, net := n\<rparr>" using run_body_frame [OF run] by auto
  obtain rg' where "post op r w1 = w1\<lparr>queue := queue w1 @ [(op, status_of r)], reg := rg'\<rparr>"
    using post_frame by blast
  then have "task_finishes I op w
      = w\<lparr>tasks := (tasks w)(op := None), reg := rg', net := n, queue := queue w @ [(op, status_of r)]\<rparr>"
    using Some run w1 by (cases w) (simp add: task_finishes_def)
  then show ?thesis by blast
qed

text \<open>
  Let the operation's task end and the pump empty the queue: the completion is then with the caller,
  unclaimed if it has not registered yet, in its channel if it has.
\<close>

lemma task_finishes_queue:
  "length (queue (task_finishes I op w)) = length (queue w) + (if tasks w op = None then 0 else 1)"
proof (cases "tasks w op")
  case (Some k)
  let ?w = "w\<lparr>tasks := (tasks w)(op := None)\<rparr>"
  obtain r w1 where run: "run_body I (body k) ?w = (r, w1)" by (cases "run_body I (body k) ?w")
  obtain rg n where w1: "w1 = ?w\<lparr>reg := rg, net := n\<rparr>" using run_body_frame [OF run] by auto
  show ?thesis using Some run w1 post_frame [of op r w1] by (auto simp: task_finishes_def)
qed (simp add: task_finishes_def)

lemma drained:
  assumes ok: "pump_ok w" and uw: "under_way w op" and pc: "pump_pc w \<noteq> PumpExited"
    and k: "k = length (queue w) + (if tasks w op = None then 0 else 1)"
  obtains w' where "w' = run I ([TaskFinishes op, PumpSends] @ drain k) w" "awaiters w' op = awaiters w op"
    "awaiters w op = Some Started \<Longrightarrow> unclaimed w' op \<noteq> None"
    "\<And>ch. awaiters w op = Some (Parked ch) \<Longrightarrow> chans w' ch \<noteq> []"
proof -
  let ?w1 = "task_finishes I op w"
  let ?w2 = "deliver_send ?w1"
  let ?w3 = "run I (drain k) ?w2"
  have k2: "k = length (queue ?w2)" using k task_finishes_queue [of I op w] by (simp add: step_frame)
  have inv1: "pump_inv ?w1" using pump_okD(1) [OF ok] by (rule pump_inv_task_finishes)
  have f1: "pump_pc ?w1 = pump_pc w" "tasks ?w1 op = None" "awaiters ?w1 = awaiters w"
    using task_finishes_frame [of I op w] by auto
  have inv2: "pump_inv ?w2" using inv1 by (rule pump_inv_send)
  have idle2: "pump_pc ?w2 = PumpIdle" using inv1 pc f1 by (intro send_idle) simp_all
  have w3: "pump_inv ?w3" "pump_pc ?w3 = PumpIdle" "queue ?w3 = []" "tasks ?w3 op = None"
    "awaiters ?w3 op = awaiters w op"
    using drain_empties [OF inv2 idle2 refl, of I] f1 by (simp_all add: k2 Let_def step_frame)
  have "upstream ?w3 op + downstream ?w3 op = 1"
    using pump_invD(1) [OF w3(1), of op] uw w3(5) by (simp add: under_way_def)
  then have down: "downstream ?w3 op = 1" using w3(3,4) by (simp add: upstream_def)
  have un: "unclaimed ?w3 op \<noteq> None" if "awaiters w op = Some Started"
    using down w3(5) that by (auto simp: downstream_def split: if_splits)
  have ch: "chans ?w3 ch \<noteq> []" if "awaiters w op = Some (Parked ch)" for ch
  proof -
    have "unclaimed ?w3 op = None"
      using pump_invD(3) [OF w3(1), of op] w3(5) that by (cases "unclaimed ?w3 op") auto
    then show ?thesis using that down w3(2,5) by (auto simp: downstream_def sending_def)
  qed
  show thesis by (rule that [of ?w3]) (use w3(5) un ch in simp_all)
qed

text \<open>
  C15: from every reachable state in which the pump is running, an operation under way can be brought
  to its caller: let its task end, let the pump empty the queue, let the caller register if it has
  not yet, and the receive succeeds. No interleaving can leave a caller stuck for good.
\<close>

theorem under_way_can_complete:
  assumes reach: "reachable I n w" and uw: "under_way w op" and pc: "pump_pc w \<noteq> PumpExited"
  shows "\<exists>k. receive op (run I ([TaskFinishes op, PumpSends] @ drain k @ [Registers op]) w) \<noteq> None"
proof -
  obtain k where k: "k = length (queue w) + (if tasks w op = None then 0 else 1)" by blast
  obtain w' where w': "w' = run I ([TaskFinishes op, PumpSends] @ drain k) w" "awaiters w' op = awaiters w op"
    "awaiters w op = Some Started \<Longrightarrow> unclaimed w' op \<noteq> None"
    "\<And>ch. awaiters w op = Some (Parked ch) \<Longrightarrow> chans w' ch \<noteq> []"
    using drained [OF reachable_ok [OF reach] uw pc k, of I] by metis
  from uw consider "awaiters w op = Some Started" | ch where "awaiters w op = Some (Parked ch)"
    by (auto simp: under_way_def split: option.splits awaiter.splits)
  then have "receive op (pump_step I (Registers op) w') \<noteq> None"
    using w'(2-4) by cases (auto simp: park_def register_def receive_def Let_def split: option.splits list.split)
  then show ?thesis using w'(1) by (intro exI [of _ k]) simp
qed

theorem under_way_can_complete_witness:
  "\<exists>k. receive 1 (run echo ([TaskFinishes 1, PumpSends] @ drain k @ [Registers 1]) (demo [StartOp (FAccept 7)])) \<noteq> None"
proof (rule under_way_can_complete [OF reachable_demo])
  show "under_way (demo [StartOp (FAccept 7)]) 1" by code_simp
  show "pump_pc (demo [StartOp (FAccept 7)]) \<noteq> PumpExited" by code_simp
qed simp

end
