(* ===== verification/Go_World.thy ===== *)
theory Go_World
  imports Pump_Invariant
begin

text \<open>
  What a goroutine of the bindings shares with the rest of the process: contexts and the clock, the
  handles and deadlines of the stream objects (\<^verbatim>\<open>handle.go\<close>, the first half of \<^verbatim>\<open>stream.go\<close>), and
  the scheduling of everything else around it.

  A call of the bindings is a function on the world. Where the source may block or be preempted by
  another goroutine that matters to it, the function hands control to \<open>schedule\<close>, which lets the
  rest of the process take the steps of the world's \<open>script\<close> until the goroutine runs again. Every
  property holds for every script, that is for every interleaving; a call whose script ends before
  it can go on has the value \<open>None\<close>.
\<close>

subsection \<open>Contexts and time\<close>

text \<open>A time is a number of nanoseconds since the epoch, \<open>None\<close> the zero \<^verbatim>\<open>time.Time\<close>.\<close>

type_synonym gtime = "int option"

datatype ctx = Background | Ctx nat

record ctx_state =
  ctx_err :: "go_error option"
  ctx_deadline :: "int option"

subsection \<open>Handles (handle.go)\<close>

definition handle_get :: "u64 \<Rightarrow> go_error + u64" where
  "handle_get v = (if v \<noteq> 0 then Inr v else Inl (Sentinel ErrClosed))"

text \<open>\<^verbatim>\<open>Swap(0)\<close>: the previous value, and the new one.\<close>

definition handle_take :: "u64 \<Rightarrow> u64 \<times> u64" where
  "handle_take v = (v, 0)"

subsection \<open>Stream objects and their deadlines (stream.go)\<close>

text \<open>\<open>armed\<close> maps the id of a call in flight to the context whose cancel function it registered.\<close>

record deadline =
  dl_t :: gtime
  armed :: "(u64 \<times> nat) list"
  dl_next :: u64

definition no_deadline :: deadline where
  "no_deadline = \<lparr>dl_t = None, armed = [], dl_next = 0\<rparr>"

text \<open>The holder of a mutex, as the goroutine that runs the modelled call sees it.\<close>

datatype mutex = Unlocked | LockedHere | LockedElsewhere

text \<open>
  \<^verbatim>\<open>SendStream\<close> and \<^verbatim>\<open>RecvStream\<close> have the same fields: the handle, the mutex, the deadline and the
  connection they keep reachable.
\<close>

record stream =
  sh :: u64
  smu :: mutex
  sdl :: deadline
  sconn :: nat

subsection \<open>Connections and endpoints\<close>

text \<open>
  \<^verbatim>\<open>Conn\<close> (\<^verbatim>\<open>conn.go\<close>): the handle, the endpoint it keeps reachable, and the peer's id under its
  mutex, all zero until it is known. \<^verbatim>\<open>Endpoint\<close> (\<^verbatim>\<open>endpoint.go\<close>): the handle and the id.
\<close>

record conn =
  ch :: u64
  cendpoint :: nat
  cmu :: mutex
  cremote :: bytes

record endpoint =
  eh :: u64
  eid :: bytes

text \<open>
  \<^verbatim>\<open>StreamConn\<close> (\<^verbatim>\<open>netconn.go\<close>): the two halves of its stream, the ids of both sides, its
  \<^verbatim>\<open>sync.Once\<close>, as the goroutine that runs the modelled call sees it, the error the run of the once
  stored, and whether the channel is closed.
\<close>

datatype once = NotRun | RunsHere | RunsElsewhere | HasRun

record StreamConn =
  nc_send :: nat
  nc_recv :: nat
  nc_local :: bytes
  nc_remote :: bytes
  nc_once :: once
  nc_closeErr :: "go_error option"
  nc_closed :: bool

definition zero_id :: bytes where
  "zero_id = replicate 32 (CHR 0x00)"

subsection \<open>The world\<close>

text \<open>
  The steps of everything else: \<open>Go\<close> lets the goroutine run, its flag choosing between two ready
  cases of a select; \<open>Ev\<close> is a step of the library, the pump or another caller; the rest are the
  clock, the timers and cancel functions of contexts, and what other goroutines do to stream
  objects and handles. \<open>ClosesStreamConn\<close> is the first step of a \<^verbatim>\<open>Close\<close> or \<^verbatim>\<open>Reset\<close> of a
  \<^verbatim>\<open>StreamConn\<close> and \<open>StoresCloseErr\<close> its last; between them are steps on the two halves of the stream.
\<close>

datatype env =
    Go bool | Ev pump_event | Tick nat | Expires nat | CancelsCtx nat
  | SetsDeadline nat gtime | TakesHandle nat | LocksStream nat | UnlocksStream nat | FreesHandle u64
  | TakesConn nat | TakesEndpoint nat | ClosesStreamConn nat | StoresCloseErr nat "go_error option"

record 'n world = "'n pump" +
  ctxs :: "nat \<Rightarrow> ctx_state"
  next_ctx :: nat
  now :: int
  streams :: "nat \<Rightarrow> stream"
  next_stream :: nat
  conns :: "nat \<Rightarrow> conn"
  next_conn :: nat
  endpoints :: "nat \<Rightarrow> endpoint"
  next_endpoint :: nat
  sconns :: "nat \<Rightarrow> StreamConn"
  next_sconn :: nat
  script :: "env list"

definition ctx_Err :: "ctx \<Rightarrow> ('n, 'z) world_scheme \<Rightarrow> go_error option" where
  "ctx_Err c w = (case c of Background \<Rightarrow> None | Ctx a \<Rightarrow> ctx_err (ctxs w a))"

definition finish_ctx :: "nat \<Rightarrow> go_error \<Rightarrow> ('n, 'z) world_scheme \<Rightarrow> ('n, 'z) world_scheme" where
  "finish_ctx a e w = (if ctx_err (ctxs w a) = None
     then w\<lparr>ctxs := (ctxs w)(a := (ctxs w a)\<lparr>ctx_err := Some e\<rparr>)\<rparr> else w)"

abbreviation cancel_ctx :: "nat \<Rightarrow> ('n, 'z) world_scheme \<Rightarrow> ('n, 'z) world_scheme" where
  "cancel_ctx a \<equiv> finish_ctx a Canceled"

definition new_ctx :: "ctx_state \<Rightarrow> ('n, 'z) world_scheme \<Rightarrow> nat \<times> ('n, 'z) world_scheme" where
  "new_ctx s w = (next_ctx w, w\<lparr>ctxs := (ctxs w)(next_ctx w := s), next_ctx := Suc (next_ctx w)\<rparr>)"

text \<open>\<^verbatim>\<open>context.WithCancel\<close> and \<^verbatim>\<open>context.WithDeadline\<close> under the background context.\<close>

definition WithCancel :: "('n, 'z) world_scheme \<Rightarrow> nat \<times> ('n, 'z) world_scheme" where
  "WithCancel = new_ctx \<lparr>ctx_err = None, ctx_deadline = None\<rparr>"

definition WithDeadline :: "int \<Rightarrow> ('n, 'z) world_scheme \<Rightarrow> nat \<times> ('n, 'z) world_scheme" where
  "WithDeadline t w =
     new_ctx \<lparr>ctx_err = (if t \<le> now w then Some DeadlineExceeded else None), ctx_deadline = Some t\<rparr> w"

abbreviation on_stream :: "nat \<Rightarrow> (stream \<Rightarrow> stream) \<Rightarrow> ('n, 'z) world_scheme \<Rightarrow> ('n, 'z) world_scheme" where
  "on_stream a f w \<equiv> w\<lparr>streams := (streams w)(a := f (streams w a))\<rparr>"

subsubsection \<open>Deadlines\<close>

definition deadline_set :: "nat \<Rightarrow> gtime \<Rightarrow> ('n, 'z) world_scheme \<Rightarrow> ('n, 'z) world_scheme" where
  "deadline_set a t w =
     (let w1 = on_stream a (\<lambda>s. s\<lparr>sdl := (sdl s)\<lparr>dl_t := t\<rparr>\<rparr>) w
      in fold (\<lambda>(_, c). cancel_ctx c) (armed (sdl (streams w1 a))) w1)"

text \<open>The context of the call, and the id and context its release function captured.\<close>

definition deadline_arm :: "nat \<Rightarrow> ('n, 'z) world_scheme \<Rightarrow> (ctx \<times> u64 \<times> nat) \<times> ('n, 'z) world_scheme" where
  "deadline_arm a w =
     (let (c, w1) = (case dl_t (sdl (streams w a)) of None \<Rightarrow> WithCancel w | Some t \<Rightarrow> WithDeadline t w);
          i = dl_next (sdl (streams w1 a))
      in ((Ctx c, i, c),
          on_stream a (\<lambda>s. s\<lparr>sdl := (sdl s)\<lparr>dl_next := i + 1, armed := AList.update i c (armed (sdl s))\<rparr>\<rparr>) w1))"

definition deadline_release :: "nat \<Rightarrow> u64 \<times> nat \<Rightarrow> ('n, 'z) world_scheme \<Rightarrow> ('n, 'z) world_scheme" where
  "deadline_release a r w =
     cancel_ctx (snd r) (on_stream a (\<lambda>s. s\<lparr>sdl := (sdl s)\<lparr>armed := AList.delete (fst r) (armed (sdl s))\<rparr>\<rparr>) w)"

definition pastDeadline :: gtime where
  "pastDeadline = Some 1000000000"

definition deadlineErr :: "go_error \<Rightarrow> go_error" where
  "deadlineErr e = (if errors_Is e DeadlineExceeded then OsErrDeadlineExceeded else e)"

subsubsection \<open>Steps of the rest of the process\<close>

text \<open>What only the goroutine that waits for an operation does with it.\<close>

fun concerns :: "pump_event \<Rightarrow> u64 \<Rightarrow> bool" where
  "concerns (Registers x) op \<longleftrightarrow> x = op"
| "concerns (Receives x) op \<longleftrightarrow> x = op"
| "concerns (Cancels x) op \<longleftrightarrow> x = op"
| "concerns (Collects x) op \<longleftrightarrow> x = op"
| "concerns (Discards x) op \<longleftrightarrow> x = op"
| "concerns _ op \<longleftrightarrow> False"

fun is_object :: "slot option \<Rightarrow> bool" where
  "is_object (Some SSend) \<longleftrightarrow> True"
| "is_object (Some SRecv) \<longleftrightarrow> True"
| "is_object (Some SConn) \<longleftrightarrow> True"
| "is_object (Some SEndpoint) \<longleftrightarrow> True"
| "is_object _ \<longleftrightarrow> False"

fun env_step :: "'n iroh \<Rightarrow> u64 \<Rightarrow> env \<Rightarrow> ('n, 'z) world_scheme \<Rightarrow> ('n, 'z) world_scheme" where
  "env_step I mine (Go b) w = w"
| "env_step I mine (Ev e) w = (if concerns e mine then w else pump_step I e w)"
| "env_step I mine (Tick d) w = w\<lparr>now := now w + int d\<rparr>"
| "env_step I mine (Expires c) w = (case ctx_deadline (ctxs w c) of
     Some t \<Rightarrow> if t \<le> now w then finish_ctx c DeadlineExceeded w else w | None \<Rightarrow> w)"
| "env_step I mine (CancelsCtx c) w = cancel_ctx c w"
| "env_step I mine (SetsDeadline a t) w = deadline_set a t w"
| "env_step I mine (TakesHandle a) w = on_stream a (\<lambda>s. s\<lparr>sh := snd (handle_take (sh s))\<rparr>) w"
| "env_step I mine (LocksStream a) w =
     (if smu (streams w a) = Unlocked then on_stream a (\<lambda>s. s\<lparr>smu := LockedElsewhere\<rparr>) w else w)"
| "env_step I mine (UnlocksStream a) w =
     (if smu (streams w a) = LockedElsewhere then on_stream a (\<lambda>s. s\<lparr>smu := Unlocked\<rparr>) w else w)"
| "env_step I mine (FreesHandle h) w =
     (if is_object (live w h) then w\<lparr>reg := snd (remove h (reg w))\<rparr> else w)"
| "env_step I mine (TakesConn a) w =
     w\<lparr>conns := (conns w)(a := (conns w a)\<lparr>ch := snd (handle_take (ch (conns w a)))\<rparr>)\<rparr>"
| "env_step I mine (TakesEndpoint a) w =
     w\<lparr>endpoints := (endpoints w)(a := (endpoints w a)\<lparr>eh := snd (handle_take (eh (endpoints w a)))\<rparr>)\<rparr>"
| "env_step I mine (ClosesStreamConn a) w =
     (if nc_once (sconns w a) = NotRun
      then w\<lparr>sconns := (sconns w)(a := (sconns w a)\<lparr>nc_once := RunsElsewhere, nc_closed := True\<rparr>)\<rparr> else w)"
| "env_step I mine (StoresCloseErr a err) w =
     (if nc_once (sconns w a) = RunsElsewhere
      then w\<lparr>sconns := (sconns w)(a := (sconns w a)\<lparr>nc_once := HasRun, nc_closeErr := err\<rparr>)\<rparr> else w)"

text \<open>
  The goroutine gives way: the script runs until a turn of the goroutine at which \<open>turn\<close> succeeds.
\<close>

fun sched :: "'n iroh \<Rightarrow> u64 \<Rightarrow> (bool \<Rightarrow> ('n, 'z) world_scheme \<Rightarrow> ('a \<times> ('n, 'z) world_scheme) option) \<Rightarrow>
    env list \<Rightarrow> ('n, 'z) world_scheme \<Rightarrow> ('a \<times> ('n, 'z) world_scheme) option" where
  "sched I mine turn [] w = None"
| "sched I mine turn (Go b # es) w =
     (case turn b (w\<lparr>script := es\<rparr>) of Some r \<Rightarrow> Some r | None \<Rightarrow> sched I mine turn es w)"
| "sched I mine turn (e # es) w = sched I mine turn es (env_step I mine e w)"

definition schedule :: "'n iroh \<Rightarrow> u64 \<Rightarrow> (bool \<Rightarrow> ('n, 'z) world_scheme \<Rightarrow> ('a \<times> ('n, 'z) world_scheme) option) \<Rightarrow>
    ('n, 'z) world_scheme \<Rightarrow> ('a \<times> ('n, 'z) world_scheme) option" where
  "schedule I mine turn w = sched I mine turn (script w) w"

definition preempt :: "'n iroh \<Rightarrow> u64 \<Rightarrow> ('n, 'z) world_scheme \<Rightarrow> ('n, 'z) world_scheme option" where
  "preempt I mine w = map_option snd (schedule I mine (\<lambda>_ w. Some ((), w)) w)"

text \<open>\<^verbatim>\<open>Lock\<close> blocks until the mutex is free.\<close>

definition lock_stream :: "'n iroh \<Rightarrow> nat \<Rightarrow> ('n, 'z) world_scheme \<Rightarrow> ('n, 'z) world_scheme option" where
  "lock_stream I a w = map_option snd (schedule I 0 (\<lambda>_ w.
     if smu (streams w a) = Unlocked then Some ((), on_stream a (\<lambda>s. s\<lparr>smu := LockedHere\<rparr>) w) else None) w)"

definition unlock_stream :: "nat \<Rightarrow> ('n, 'z) world_scheme \<Rightarrow> ('n, 'z) world_scheme" where
  "unlock_stream a w = on_stream a (\<lambda>s. s\<lparr>smu := Unlocked\<rparr>) w"

subsection \<open>What scheduling keeps\<close>

text \<open>The Go side of the world is invisible to the pump's invariant.\<close>

lemma pump_ok_cong:
  assumes "reg w' = reg w" "queue w' = queue w" "tasks w' = tasks w" "waiters w' = waiters w"
    "unclaimed w' = unclaimed w" "chans w' = chans w" "next_chan w' = next_chan w"
    "pump_pc w' = pump_pc w" "awaiters w' = awaiters w"
  shows "pump_ok w' = pump_ok w"
proof -
  have "upstream w' = upstream w" "downstream w' = downstream w" "under_way w' = under_way w"
    "carries w' = carries w" "result_of w' = result_of w"
    by (simp_all add: fun_eq_iff upstream_def downstream_def sending_def under_way_def carries_def
        result_of_def assms split: option.split awaiter.split)
  then show ?thesis by (simp add: pump_ok_def pump_inv_def lib_inv_def assms)
qed

lemma pump_ok_go_side [simp]:
  "pump_ok (w\<lparr>script := es\<rparr>) = pump_ok w" "pump_ok (w\<lparr>ctxs := c\<rparr>) = pump_ok w"
  "pump_ok (w\<lparr>streams := s\<rparr>) = pump_ok w" "pump_ok (w\<lparr>now := t\<rparr>) = pump_ok w"
  "pump_ok (w\<lparr>next_ctx := k\<rparr>) = pump_ok w" "pump_ok (w\<lparr>conns := cs\<rparr>) = pump_ok w"
  "pump_ok (w\<lparr>endpoints := ps\<rparr>) = pump_ok w" "pump_ok (w\<lparr>sconns := ns\<rparr>) = pump_ok w"
  by (rule pump_ok_cong; simp)+

lemma finish_ctx_frame: "\<exists>c. finish_ctx a e w = w\<lparr>ctxs := c\<rparr>"
  by (auto simp: finish_ctx_def intro: exI [of _ "ctxs w"])

lemma cancel_all_frame: "\<exists>c. fold (\<lambda>(_, a). cancel_ctx a) xs w = w\<lparr>ctxs := c\<rparr>"
proof (induction xs arbitrary: w)
  case Nil
  then show ?case by (auto intro: exI [of _ "ctxs w"])
next
  case (Cons x xs)
  obtain c where "cancel_ctx (snd x) w = w\<lparr>ctxs := c\<rparr>" using finish_ctx_frame by blast
  moreover obtain c' where "fold (\<lambda>(_, a). cancel_ctx a) xs (w\<lparr>ctxs := c\<rparr>) = w\<lparr>ctxs := c, ctxs := c'\<rparr>"
    using Cons.IH by blast
  ultimately show ?case by (auto simp: case_prod_unfold)
qed

lemma deadline_set_frame: "\<exists>c s. deadline_set a t w = w\<lparr>ctxs := c, streams := s\<rparr>"
proof -
  let ?w = "on_stream a (\<lambda>s. s\<lparr>sdl := (sdl s)\<lparr>dl_t := t\<rparr>\<rparr>) w"
  obtain c where "deadline_set a t w = ?w\<lparr>ctxs := c\<rparr>"
    using cancel_all_frame [of "armed (sdl (streams ?w a))" ?w] by (auto simp: deadline_set_def)
  then have "deadline_set a t w = w\<lparr>ctxs := c, streams := streams ?w\<rparr>" by (cases w) simp
  then show ?thesis by blast
qed

text \<open>A step of the rest of the process changes the Go side, frees an object, or is one of the pump's.\<close>

lemma env_step_cases:
  obtains (go) c s t cs ps ns where
    "env_step I m e w = w\<lparr>ctxs := c, streams := s, now := t, conns := cs, endpoints := ps, sconns := ns\<rparr>"
  | (free) h where "e = FreesHandle h" "is_object (live w h)" "env_step I m e w = w\<lparr>reg := snd (remove h (reg w))\<rparr>"
  | (pump) x where "e = Ev x" "\<not> concerns x m" "env_step I m e w = pump_step I x w"
proof -
  let ?w = "env_step I m e w"
  have same: thesis if "?w = w\<lparr>ctxs := ctxs ?w, streams := streams ?w, now := now ?w, conns := conns ?w, endpoints := endpoints ?w,
      sconns := sconns ?w\<rparr>"
    using that by (rule go)
  have id: thesis if "?w = w" by (rule same) (simp add: that)
  note fin = finish_ctx_frame [of _ _ w]
  show thesis
  proof (cases e)
    case (Go b)
    then show thesis by (intro id) simp
  next
    case (Ev x)
    then show thesis using pump [of x] id by (cases "concerns x m") auto
  next
    case (Expires c)
    obtain x where "finish_ctx c DeadlineExceeded w = w\<lparr>ctxs := x\<rparr>" using fin by blast
    then have "?w = w \<or> ?w = w\<lparr>ctxs := x\<rparr>" using Expires by (auto split: option.split)
    then show thesis by (intro same) (auto simp del: env_step.simps)
  next
    case (CancelsCtx c)
    obtain x where "cancel_ctx c w = w\<lparr>ctxs := x\<rparr>" using fin by blast
    then show thesis by (intro same) (simp add: CancelsCtx)
  next
    case (SetsDeadline a t)
    obtain x y where "deadline_set a t w = w\<lparr>ctxs := x, streams := y\<rparr>" using deadline_set_frame by blast
    then show thesis by (intro same) (simp add: SetsDeadline)
  next
    case (FreesHandle h)
    then show thesis using free [of h] id by (cases "is_object (live w h)") auto
  qed (intro same, simp)+
qed

lemma object_not_op: "is_object s \<Longrightarrow> \<not> is_op s"
  by (cases s rule: is_object.cases) (auto simp: is_op_def)

lemma pump_ok_free_slot:
  assumes ok: "pump_ok w" and nop: "\<not> is_op (live w h)" and "h \<noteq> 0"
  shows "pump_ok (w\<lparr>reg := snd (remove h (reg w))\<rparr>)"
proof -
  note inv = pump_okD [OF ok]
  have "lib_inv (w\<lparr>reg := snd (remove h (reg w))\<rparr>)"
    using inv(2)
  proof (rule lib_inv_release [where R = "{h}"])
    show "under_way w x \<and> x \<notin> {h}" if "under_way (w\<lparr>reg := snd (remove h (reg w))\<rparr>) x" for x
      using that nop lib_invD(2) [OF inv(2), of x] by auto
    show "awaiters w x \<noteq> None \<and> x \<notin> {h}" if "awaiters (w\<lparr>reg := snd (remove h (reg w))\<rparr>) x \<noteq> None" for x
      using that nop lib_invD(6) [OF inv(2), of x] by auto
    show "carries w x st \<and> x \<notin> {h}" if "carries (w\<lparr>reg := snd (remove h (reg w))\<rparr>) x st" for x st
    proof -
      from that have c: "carries w x st" by (simp add: carries_def)
      then obtain r where "result_of w x = Some r" using lib_invD(3) [OF inv(2)] by blast
      then show ?thesis using c nop by (auto simp: result_of_def is_op_def split: option.splits slot.splits)
    qed
  qed (use \<open>h \<noteq> 0\<close> in \<open>auto simp: live_simps\<close>)
  then show ?thesis using inv(1) by (simp add: pump_ok_def)
qed

lemma pump_ok_free_object:
  assumes ok: "pump_ok w" and obj: "is_object (live w h)"
  shows "pump_ok (w\<lparr>reg := snd (remove h (reg w))\<rparr>)"
proof (rule pump_ok_free_slot [OF ok object_not_op [OF obj]])
  show "h \<noteq> 0" using lib_invD(1) [OF conjunct2 [OF ok [unfolded pump_ok_def]], of h] obj by (cases "live w h") auto
qed

lemma pump_ok_env_step:
  assumes "pump_ok w" and "room w 2"
  shows "pump_ok (env_step I m e w)"
  using assms
  by (cases rule: env_step_cases [of I m e w]) (simp_all add: pump_ok_step pump_ok_free_object)

lemma next_env_step: "unat (next_id (reg (env_step I m e w))) \<le> unat (next_id (reg w)) + 2"
  by (cases rule: env_step_cases [of I m e w]) (simp_all add: next_step [simplified] live_simps)

text \<open>The library's state is consistent, and its ids outlast the script with \<open>k\<close> to spare.\<close>

definition world_ok :: "nat \<Rightarrow> ('n, 'z) world_scheme \<Rightarrow> bool" where
  "world_ok k w \<longleftrightarrow> pump_ok w \<and> room w (2 * length (script w) + k)"

lemma pump_step_keeps:
  "pump.more (pump_step I e w) = pump.more w \<and> bufs (pump_step I e w) = bufs w
   \<and> next_buf (pump_step I e w) = next_buf w \<and> fault (pump_step I e w) = fault w"
proof (cases e)
  case (TaskFinishes op)
  then show ?thesis using task_finishes_frame [of I op w] by auto
next
  case (TaskStops op)
  then show ?thesis using post_frame [of op "Inl (rerr Cancelled ''operation cancelled'')" "w\<lparr>tasks := (tasks w)(op := None)\<rparr>"]
    by (auto simp: task_stops_def split: option.split)
next
  case (TaskPanics op)
  then show ?thesis using post_frame [of op "Inl (rerr Internal ''operation panicked'')" "w\<lparr>tasks := (tasks w)(op := None)\<rparr>"]
    by (auto simp: task_panics_def split: option.split)
next
  case (StartFailed x)
  let ?op = "next_id (reg w)"
  show ?thesis using StartFailed
    post_frame [of ?op "Inl x" "w\<lparr>reg := publish ?op (SOp Op_new) (reg w\<lparr>next_id := ?op + 1\<rparr>)\<rparr>"]
    by (auto simp: spawn_ready_def reserve_def mark_started_def)
next
  case (Collects op)
  then show ?thesis using iroh_op_free_frame [of op "snd (take_op op w)"] take_op_frame [of op w]
    by (auto simp: forget_def)
next
  case (Discards op)
  then show ?thesis using iroh_op_free_frame [of op w] by (auto simp: forget_def)
qed (auto simp: pump_wait_def wait_queue_def deliver_locked_def deliver_send_def spawn_def reserve_def
    mark_started_def park_def register_def receive_def iroh_op_cancel_def op_cancel_def Let_def
    split: pump_pc.split list.split option.split awaiter.split sum.split)

lemma go_side_of_more:
  fixes w w' :: "('n, 'z) world_scheme"
  assumes "pump.more w' = pump.more w"
  shows "script w' = script w" "ctxs w' = ctxs w" "next_ctx w' = next_ctx w" "now w' = now w"
    "streams w' = streams w" "next_stream w' = next_stream w" "conns w' = conns w" "next_conn w' = next_conn w"
    "endpoints w' = endpoints w" "next_endpoint w' = next_endpoint w"
    "sconns w' = sconns w" "next_sconn w' = next_sconn w"
  using assms by (cases w; cases w'; simp)+

lemmas pump_step_go_side [simp] = go_side_of_more [OF pump_step_keeps [THEN conjunct1]]

lemma env_step_keeps [simp]:
  "script (env_step I m e w) = script w" "bufs (env_step I m e w) = bufs w"
  "next_buf (env_step I m e w) = next_buf w" "fault (env_step I m e w) = fault w"
  using pump_step_keeps [of I _ w] by (cases rule: env_step_cases [of I m e w]; simp)+

lemma world_ok_env_step:
  assumes "pump_ok w" and "room w (2 * Suc n + k)"
  shows "pump_ok (env_step I m e w) \<and> room (env_step I m e w) (2 * n + k)"
  using assms next_env_step [of I m e w]
  by (intro conjI pump_ok_env_step) (auto simp: room_def)

text \<open>
  The rule for giving way: what every step of the script keeps holds when the goroutine runs again,
  and some of the script has been used up, with the ids that were set aside for it.
\<close>

lemma sched_rule:
  assumes "sched I m turn es w = Some r" and "pump_ok w" and "room w (2 * length es + k)" and "P w"
    and step: "\<And>e v. pump_ok v \<Longrightarrow> room v 2 \<Longrightarrow> P v \<Longrightarrow> e \<in> set es \<Longrightarrow> P (env_step I m e v)"
  shows "\<exists>b v es'. pump_ok v \<and> room v (2 * length es' + (k + 2)) \<and> P v \<and> turn b (v\<lparr>script := es'\<rparr>) = Some r
     \<and> set es' \<subseteq> set es \<and> length es' < length es"
  using assms
proof (induction es arbitrary: w)
  case (Cons e es)
  have room: "room w 2" using Cons.prems(3) by (simp add: room_def)
  have ok: "pump_ok (env_step I m e w)" "room (env_step I m e w) (2 * length es + k)"
    using world_ok_env_step [of w "length es" k I m e] Cons.prems(2,3) by simp_all
  have P: "P (env_step I m e w)" using Cons.prems(5) [OF Cons.prems(2) room Cons.prems(4)] by simp
  have steps: "P (env_step I m x v)" if "pump_ok v" "room v 2" "P v" "x \<in> set es" for x v
    using Cons.prems(5) [OF that(1-3)] that(4) by simp
  have later: ?case if run: "sched I m turn es (env_step I m e w) = Some r"
  proof -
    obtain b v es' where "pump_ok v" "room v (2 * length es' + (k + 2))" "P v" "turn b (v\<lparr>script := es'\<rparr>) = Some r"
      "set es' \<subseteq> set es" "length es' < length es"
      using Cons.IH [OF run ok P steps] by blast
    then show ?thesis by (intro exI [of _ b] exI [of _ v] exI [of _ es'] conjI) auto
  qed
  show ?case
  proof (cases "\<exists>b. e = Go b \<and> turn b (w\<lparr>script := es\<rparr>) \<noteq> None")
    case True
    then obtain b x where "e = Go b" "turn b (w\<lparr>script := es\<rparr>) = Some x" by blast
    moreover from this have "x = r" using Cons.prems(1) by simp
    ultimately have "e = Go b" "turn b (w\<lparr>script := es\<rparr>) = Some r" by simp_all
    then show ?thesis using Cons.prems(2,3,4)
      by (intro exI [of _ b] exI [of _ w] exI [of _ es]) (auto simp: room_def)
  next
    case False
    then have "sched I m turn es (env_step I m e w) = Some r"
      using Cons.prems(1) by (cases e) (auto split: option.splits)
    then show ?thesis by (rule later)
  qed
qed simp

lemma schedule_rule:
  assumes "schedule I m turn w = Some r" and "world_ok k w" and "P w"
    and step: "\<And>e v. pump_ok v \<Longrightarrow> room v 2 \<Longrightarrow> P v \<Longrightarrow> e \<in> set (script w) \<Longrightarrow> P (env_step I m e v)"
    and script: "\<And>v es. P v \<Longrightarrow> set es \<subseteq> set (script w) \<Longrightarrow> P (v\<lparr>script := es\<rparr>)"
  obtains b v where "world_ok (k + 2) v" "P v" "turn b v = Some r" "set (script v) \<subseteq> set (script w)"
    "length (script v) < length (script w)"
proof -
  obtain b v es where "pump_ok v" "room v (2 * length es + (k + 2))" "P v" "turn b (v\<lparr>script := es\<rparr>) = Some r"
    "set es \<subseteq> set (script w)" "length es < length (script w)"
    using sched_rule [of I m turn "script w" w r k P] assms(1-4) unfolding schedule_def world_ok_def by blast
  then show thesis using that [of "v\<lparr>script := es\<rparr>" b] script by (simp add: world_ok_def room_def)
qed

end
