(* ===== verification/Await.thy ===== *)
theory Await
  imports Go_World
begin

text \<open>
  Waiting for an operation and collecting what it produced (\<^verbatim>\<open>await\<close>, \<^verbatim>\<open>finish\<close> and the \<^verbatim>\<open>Await*\<close>
  functions of \<^verbatim>\<open>internal/ffi/pump.go\<close>, and \<^verbatim>\<open>internal/ffi/errors.go\<close>).
\<close>

subsection \<open>Buffers and errors from the library (errors.go)\<close>

text \<open>Reading memory the library does not hold out is a fault, like freeing it.\<close>

definition unsafe_Slice :: "nat \<Rightarrow> nat \<Rightarrow> ('n, 'z) lib_scheme \<Rightarrow> bytes \<times> ('n, 'z) lib_scheme" where
  "unsafe_Slice p n w = (case bufs w p of
     Some b \<Rightarrow> (take n b, w\<lparr>fault := fault w \<or> length b < n\<rparr>) | None \<Rightarrow> ([], w\<lparr>fault := True\<rparr>))"

definition takeBytes :: "nat \<Rightarrow> nat \<Rightarrow> ('n, 'z) lib_scheme \<Rightarrow> bytes \<times> ('n, 'z) lib_scheme" where
  "takeBytes p n w = (if p = 0 \<or> n = 0 then ([], w)
     else let (out, w1) = unsafe_Slice p n w in (out, free_bytes p n w1))"

definition takeError :: "u64 \<Rightarrow> ('n, 'z) lib_scheme \<Rightarrow> go_error \<times> ('n, 'z) lib_scheme" where
  "takeError h w =
     (if h = 0 then (NewError 0 ''iroh: call failed without reporting a reason'', w)
      else let ((kind, p, n), w1) = iroh_error_take h w; (msg, w2) = takeBytes p n w1
           in (NewError kind msg, w2))"

subsection \<open>Waiting (pump.go)\<close>

definition StatusOK :: i32 where "StatusOK = 0"

text \<open>Freeing the operation ends the goroutine's dealings with it.\<close>

definition opFree :: "u64 \<Rightarrow> ('n, 'z) pump_scheme \<Rightarrow> ('n, 'z) pump_scheme" where
  "opFree op w = forget op (iroh_op_free op w)"

text \<open>
  One turn at the select: when both cases are ready the flag decides. The result is the status
  received, or the news that the context is done.
\<close>

definition select_turn :: "ctx \<Rightarrow> u64 \<Rightarrow> bool \<Rightarrow> ('n, 'z) world_scheme \<Rightarrow> ((unit + i32) \<times> ('n, 'z) world_scheme) option" where
  "select_turn c op b w = (case receive op w of
     Some (status, w1) \<Rightarrow> if b \<or> ctx_Err c w = None then Some (Inr status, w1) else Some (Inl (), w)
   | None \<Rightarrow> if ctx_Err c w = None then None else Some (Inl (), w))"

definition await :: "'n iroh \<Rightarrow> ctx \<Rightarrow> u64 \<Rightarrow> ('n, 'z) world_scheme \<Rightarrow>
    ((go_error + i32) \<times> ('n, 'z) world_scheme) option" where
  "await I c op w =
     (if op = 0 then Some (Inl (NewError 0 ''iroh: operation could not be started''), w)
      else do {
        w1 \<leftarrow> preempt I op w;
        (sel, w2) \<leftarrow> schedule I op (select_turn c op) (park op w1);
        case sel of
          Inr status \<Rightarrow> Some (Inr status, w2)
        | Inl _ \<Rightarrow> do {
            (status, w3) \<leftarrow> schedule I op (\<lambda>_. receive op) (iroh_op_cancel op w2);
            if status = StatusOK then Some (Inr status, w3)
            else Some (case ctx_Err c w3 of Some e \<Rightarrow> Inl e | None \<Rightarrow> Inr 0, opFree op w3)
          }
      })"

definition finish :: "u64 \<Rightarrow> i32 \<Rightarrow> ('n, 'z) pump_scheme \<Rightarrow> go_error option \<times> ('n, 'z) pump_scheme" where
  "finish op status w =
     (if status = StatusOK then (None, w)
      else let ((_, errh), w1) = iroh_op_result_err op w; (err, w2) = takeError errh w1
           in (Some err, opFree op w2))"

text \<open>The first half of every \<^verbatim>\<open>Await*\<close> function, up to the point where the result is there to take.\<close>

definition await_ok :: "'n iroh \<Rightarrow> ctx \<Rightarrow> u64 \<Rightarrow> ('n, 'z) world_scheme \<Rightarrow>
    ((go_error + unit) \<times> ('n, 'z) world_scheme) option" where
  "await_ok I c op w = do {
     (r, w1) \<leftarrow> await I c op w;
     case r of
       Inl err \<Rightarrow> Some (Inl err, w1)
     | Inr status \<Rightarrow> (case finish op status w1 of
           (Some err, w2) \<Rightarrow> Some (Inl err, w2)
         | (None, w2) \<Rightarrow> Some (Inr (), w2))
   }"

definition AwaitUnit :: "'n iroh \<Rightarrow> ctx \<Rightarrow> u64 \<Rightarrow> ('n, 'z) world_scheme \<Rightarrow>
    (go_error option \<times> ('n, 'z) world_scheme) option" where
  "AwaitUnit I c op w = do {
     (r, w1) \<leftarrow> await_ok I c op w;
     case r of Inl err \<Rightarrow> Some (Some err, w1) | Inr _ \<Rightarrow> Some (None, opFree op w1)
   }"

text \<open>The second half: collect with the given result call, free the operation, take the error if there is one.\<close>

definition collect :: "(u64 \<Rightarrow> ('n, 'z) pump_scheme \<Rightarrow> (i32 \<times> 'v \<times> u64) \<times> ('n, 'z) pump_scheme) \<Rightarrow> u64 \<Rightarrow>
    ('n, 'z) pump_scheme \<Rightarrow> (go_error + 'v) \<times> ('n, 'z) pump_scheme" where
  "collect result_call op w =
     (let ((rc, v, errh), w1) = result_call op w; w2 = opFree op w1
      in if rc \<noteq> 0 then (let (err, w3) = takeError errh w2 in (Inl err, w3)) else (Inr v, w2))"

definition await_collect ::
    "(u64 \<Rightarrow> ('n, 'z) world_scheme \<Rightarrow> (i32 \<times> 'v \<times> u64) \<times> ('n, 'z) world_scheme) \<Rightarrow> 'n iroh \<Rightarrow> ctx \<Rightarrow> u64 \<Rightarrow>
     ('n, 'z) world_scheme \<Rightarrow> ((go_error + 'v) \<times> ('n, 'z) world_scheme) option" where
  "await_collect result_call I c op w = do {
     (r, w1) \<leftarrow> await_ok I c op w;
     case r of Inl err \<Rightarrow> Some (Inl err, w1) | Inr _ \<Rightarrow> Some (collect result_call op w1)
   }"

definition AwaitHandle :: "'n iroh \<Rightarrow> ctx \<Rightarrow> u64 \<Rightarrow> ('n, 'z) world_scheme \<Rightarrow>
    ((go_error + u64) \<times> ('n, 'z) world_scheme) option" where
  "AwaitHandle = await_collect iroh_op_result_handle"

definition AwaitHandle2 :: "'n iroh \<Rightarrow> ctx \<Rightarrow> u64 \<Rightarrow> ('n, 'z) world_scheme \<Rightarrow>
    ((go_error + u64 \<times> u64) \<times> ('n, 'z) world_scheme) option" where
  "AwaitHandle2 = await_collect iroh_op_result_handle2"

definition AwaitU64 :: "'n iroh \<Rightarrow> ctx \<Rightarrow> u64 \<Rightarrow> ('n, 'z) world_scheme \<Rightarrow>
    ((go_error + u64) \<times> ('n, 'z) world_scheme) option" where
  "AwaitU64 = await_collect iroh_op_result_u64"

text \<open>The bytes, and whether the stream ended.\<close>

definition AwaitBytes :: "'n iroh \<Rightarrow> ctx \<Rightarrow> u64 \<Rightarrow> ('n, 'z) world_scheme \<Rightarrow>
    ((go_error + bytes \<times> bool) \<times> ('n, 'z) world_scheme) option" where
  "AwaitBytes I c op w = do {
     (r, w1) \<leftarrow> await_collect iroh_op_result_bytes I c op w;
     case r of
       Inl err \<Rightarrow> Some (Inl err, w1)
     | Inr (p, n, eof) \<Rightarrow> (let (b, w2) = takeBytes p n w1 in Some (Inr (b, eof \<noteq> 0), w2))
   }"

text \<open>
  \<^verbatim>\<open>copy\<close> fills the front of the destination with as much of the source as fits. The result is the
  number of bytes copied, the destination and the end-of-stream flag.
\<close>

definition AwaitBytesInto :: "'n iroh \<Rightarrow> ctx \<Rightarrow> u64 \<Rightarrow> bytes \<Rightarrow> ('n, 'z) world_scheme \<Rightarrow>
    ((go_error + nat \<times> bytes \<times> bool) \<times> ('n, 'z) world_scheme) option" where
  "AwaitBytesInto I c op dst w = do {
     (r, w1) \<leftarrow> await_collect iroh_op_result_bytes I c op w;
     case r of
       Inl err \<Rightarrow> Some (Inl err, w1)
     | Inr (p, n, eof) \<Rightarrow>
         if p \<noteq> 0 \<and> n > 0
         then (let (b, w2) = unsafe_Slice p n w1; copied = min (length dst) (length b)
               in Some (Inr (copied, take copied b @ drop copied dst, eof \<noteq> 0), free_bytes p n w2))
         else Some (Inr (0, dst, eof \<noteq> 0), w1)
   }"

end
