(* ===== verification/Await_Rules.thy ===== *)
theory Await_Rules
  imports Await
begin

text \<open>
  What waiting for an operation comes to, whatever else happens meanwhile. The locale \<open>operation\<close> is
  the contract between an operation and the rest of the process; inside it every \<^verbatim>\<open>Await*\<close> function
  gets a rule: the operation is reaped, nothing the library lent out is left, and the result is the
  one its body produced, the library's error, or the context's error when the operation produced
  nothing.
\<close>

subsection \<open>What the rest of the process leaves alone\<close>

lemma post_net [simp]: "net (post oid r w) = net w" "tasks (post oid r w) = tasks w"
  "awaiters (post oid r w) = awaiters w"
  using post_frame [of oid r w] by auto

fun ends_task :: "pump_event \<Rightarrow> u64 \<Rightarrow> bool" where
  "ends_task (TaskFinishes x) op \<longleftrightarrow> x = op"
| "ends_task (TaskStops x) op \<longleftrightarrow> x = op"
| "ends_task (TaskPanics x) op \<longleftrightarrow> x = op"
| "ends_task _ op \<longleftrightarrow> False"

lemma live_post_other:
  assumes "x \<noteq> op" and "op \<notin> set (result_handles r)"
  shows "live (post x r w) op = live w op"
  using assms by (cases r) (auto simp: post_def Let_def live_simps op_drop_def release_handles_def
      split: option.splits slot.splits sum.splits)

lemma live_finish_other:
  assumes ok: "pump_ok w" and room: "room w 2" and op: "op < next_id (reg w)" "x \<noteq> op"
  shows "live (task_finishes I x w) op = live w op"
proof (cases "tasks w x")
  case (Some k)
  note inv = pump_okD [OF ok]
  let ?w = "w\<lparr>tasks := (tasks w)(x := None)\<rparr>"
  obtain r w1 where run: "run_body I (body k) ?w = (r, w1)" by (cases "run_body I (body k) ?w")
  have g: "grows ?w (result_handles r) w1"
    using fresh_next [OF inv(2)] fresh_next2 [OF inv(2) room] room
    by (intro grows_run_body [OF run]) (simp_all add: room_def)
  then have "live w1 op = live w op" using op(1) by (auto simp: grows_def)
  moreover have "op \<notin> set (result_handles r)" using g op(1) by (auto simp: grows_def)
  ultimately show ?thesis using op(2) Some run by (simp add: task_finishes_def live_post_other)
qed (simp add: task_finishes_def)

lemma waiting_op:
  assumes "pump_ok w" and "awaiters w op \<noteq> None"
  shows "0 < op" "op < next_id (reg w)" "is_op (live w op)"
  using lib_invD(1,6) [OF pump_okD(2) [OF assms(1)], of op] assms(2) by auto

lemma live_free_other:
  assumes ok: "pump_ok w" and got: "awaiters w x = Some Got" and op: "is_op (live w op)" "op \<noteq> x"
  shows "live (iroh_op_free x w) op = live w op"
proof -
  note inv = pump_okD [OF ok]
  have "tasks w x = None" using not_under_way(1) [OF inv(1), of x] got by (simp add: under_way_def)
  then show ?thesis
    using live_iroh_op_free(1) [of w x op] waiting_op(3) [OF ok, of x] got dropped_not_op(1) [OF inv(2), of op x] op
    by auto
qed

lemma pump_step_other:
  assumes ok: "pump_ok w" and room: "room w 2" and aw: "awaiters w op \<noteq> None"
    and e: "\<not> concerns e op" "\<not> ends_task e op"
  shows "live (pump_step I e w) op = live w op \<and> tasks (pump_step I e w) op = tasks w op
    \<and> awaiters (pump_step I e w) op = awaiters w op"
proof -
  note op = waiting_op [OF ok aw]
  have fresh: "op \<noteq> next_id (reg w)" using op(2) by auto
  show ?thesis
  proof (cases e)
    case (TaskFinishes x)
    then show ?thesis using e live_finish_other [OF ok room op(2), of x I] task_finishes_frame [of I x w] by auto
  next
    case (TaskStops x)
    then show ?thesis using e by (auto simp: task_stops_def live_post_other split: option.split)
  next
    case (TaskPanics x)
    then show ?thesis using e by (auto simp: task_panics_def live_post_other split: option.split)
  next
    case (StartFailed x)
    then show ?thesis using fresh by (auto simp: spawn_ready_def reserve_def mark_started_def live_post_other live_simps)
  next
    case (Collects x)
    let ?w = "snd (take_op x w)"
    show ?thesis
    proof (cases "awaiters w x = Some Got")
      case True
      then have okw: "pump_ok ?w"
        using pump_okD [OF ok] lib_inv_take pump_inv_free(2) by (auto simp: pump_ok_def)
      have "x \<noteq> op" using e Collects by auto
      then have l: "live ?w op = live w op"
        by (auto simp: take_op_def take_result_def live_simps split: sum.splits option.splits)
      obtain rg where "?w = w\<lparr>reg := rg\<rparr>" using take_op_frame by blast
      then have t: "tasks ?w = tasks w" "awaiters ?w = awaiters w" by simp_all
      obtain rg where f: "iroh_op_free x ?w = ?w\<lparr>reg := rg\<rparr>" using iroh_op_free_frame by blast
      have "live (iroh_op_free x ?w) op = live w op"
        using live_free_other [OF okw, of x op] True \<open>x \<noteq> op\<close> l t op(3) by simp
      then show ?thesis using Collects True \<open>x \<noteq> op\<close> t f by (simp add: forget_def)
    qed (simp add: Collects)
  next
    case (Discards x)
    obtain rg where f: "iroh_op_free x w = w\<lparr>reg := rg\<rparr>" using iroh_op_free_frame by blast
    then show ?thesis using Discards e live_free_other [OF ok _ op(3), of x] by (auto simp: forget_def)
  qed (use e fresh in \<open>auto simp: pump_wait_def wait_queue_def deliver_locked_def deliver_send_def
      spawn_def reserve_def mark_started_def park_def register_def receive_def iroh_op_cancel_def
      op_cancel_def Let_def live_simps
      split: pump_pc.split list.split option.split awaiter.split sum.split\<close>)
qed

lemma pump_step_tasks:
  assumes "tasks (pump_step I e w) x = Some k'"
  shows "(\<exists>k. tasks w x = Some k \<and> body k = body k') \<or> e = StartOp (body k')"
proof (cases e)
  case (TaskFinishes y)
  then show ?thesis using assms task_finishes_frame [of I y w] by (auto split: if_splits)
next
  case (Collects y)
  then show ?thesis using assms iroh_op_free_frame [of y "snd (take_op y w)"] take_op_frame [of y w]
    by (auto simp: forget_def split: if_splits)
next
  case (Discards y)
  then show ?thesis using assms iroh_op_free_frame [of y w] by (auto simp: forget_def split: if_splits)
qed (use assms in \<open>auto simp: task_stops_def task_panics_def pump_wait_def wait_queue_def deliver_locked_def deliver_send_def
      spawn_def spawn_ready_def reserve_def mark_started_def park_def register_def receive_def iroh_op_cancel_def
      op_cancel_def Let_def split: pump_pc.splits list.splits option.splits awaiter.splits sum.splits if_splits\<close>)

lemma pump_step_net:
  "net (pump_step I e w) = net w \<or> (\<exists>x k. e = TaskFinishes x \<and> tasks w x = Some k \<and>
     net (pump_step I e w) = net (snd (run_body I (body k) (w\<lparr>tasks := (tasks w)(x := None)\<rparr>))))"
proof (cases e)
  case (TaskFinishes y)
  then show ?thesis by (auto simp: task_finishes_def case_prod_unfold Let_def split: option.split)
next
  case (Collects y)
  then show ?thesis using iroh_op_free_frame [of y "snd (take_op y w)"] take_op_frame [of y w]
    by (auto simp: forget_def split: if_splits)
next
  case (Discards y)
  then show ?thesis using iroh_op_free_frame [of y w] by (auto simp: forget_def split: if_splits)
qed (auto simp: task_stops_def task_panics_def pump_wait_def wait_queue_def deliver_locked_def deliver_send_def
      spawn_def spawn_ready_def reserve_def mark_started_def park_def register_def receive_def iroh_op_cancel_def
      op_cancel_def Let_def split: pump_pc.splits list.splits option.splits awaiter.splits sum.splits if_splits)

lemma env_step_other:
  assumes ok: "pump_ok w" and room: "room w 2" and aw: "awaiters w op \<noteq> None"
    and e: "\<And>x. e = Ev x \<Longrightarrow> \<not> ends_task x op"
  shows "live (env_step I op e w) op = live w op \<and> tasks (env_step I op e w) op = tasks w op"
proof (cases rule: env_step_cases [of I op e w])
  case (free h)
  then have "h \<noteq> op" using waiting_op(3) [OF ok aw] object_not_op by blast
  then show ?thesis using free(3) by (simp add: live_simps)
qed (use pump_step_other [OF ok room aw] e in auto)

lemma env_step_awaiter:
  assumes ok: "pump_ok w" and room: "room w 2" and aw: "awaiters w op \<noteq> None"
  shows "awaiters (env_step I op e w) op = awaiters w op"
proof (cases rule: env_step_cases [of I op e w])
  case (pump x)
  show ?thesis
  proof (cases "ends_task x op")
    case True
    then show ?thesis unfolding pump(3) using task_finishes_frame [of I op w]
      by (cases x) (auto simp: task_stops_def task_panics_def split: option.split)
  qed (use pump pump_step_other [OF ok room aw] in auto)
qed simp_all

lemma env_step_tasks:
  assumes "tasks (env_step I m e w) x = Some k'"
  shows "(\<exists>k. tasks w x = Some k \<and> body k = body k') \<or> e = Ev (StartOp (body k'))"
  using assms pump_step_tasks [of I _ w x k'] by (cases rule: env_step_cases [of I m e w]) auto

lemma env_step_net:
  "net (env_step I m e w) = net w \<or> (\<exists>x k. e = Ev (TaskFinishes x) \<and> tasks w x = Some k \<and>
     net (env_step I m e w) = net (snd (run_body I (body k) (w\<lparr>tasks := (tasks w)(x := None)\<rparr>))))"
proof (cases rule: env_step_cases [of I m e w])
  case (pump x)
  then show ?thesis using pump_step_net [of I x w] by auto
qed simp_all

lemma finish_ctx_err: "ctx_Err c w = Some e \<Longrightarrow> ctx_Err c (finish_ctx a x w) = Some e"
  by (auto simp: ctx_Err_def finish_ctx_def split: ctx.splits)

lemma cancel_all_err: "ctx_Err c w = Some e \<Longrightarrow> ctx_Err c (fold (\<lambda>(_, a). cancel_ctx a) xs w) = Some e"
  by (induction xs arbitrary: w) (auto simp: finish_ctx_err)

lemma env_step_ctx_err: "ctx_Err c w = Some e \<Longrightarrow> ctx_Err c (env_step I m x w) = Some e"
proof (cases x)
  case (SetsDeadline a t)
  assume "ctx_Err c w = Some e"
  then have "ctx_Err c (on_stream a (\<lambda>s. s\<lparr>sdl := (sdl s)\<lparr>dl_t := t\<rparr>\<rparr>) w) = Some e"
    by (simp add: ctx_Err_def split: ctx.splits)
  then show ?thesis using SetsDeadline by (simp add: deadline_set_def cancel_all_err)
qed (auto simp: finish_ctx_err split: option.split, auto simp: ctx_Err_def split: ctx.splits)

text \<open>Nothing borrowed from the library is outstanding, and nothing was freed that should not be.\<close>

definition clean :: "('n, 'z) lib_scheme \<Rightarrow> bool" where
  "clean w \<longleftrightarrow> bufs w = Map.empty \<and> \<not> fault w \<and> (\<forall>h e. live w h \<noteq> Some (SErr e))"

lemma clean_frame [simp]:
  "clean (w\<lparr>script := es\<rparr>) = clean w" "clean (w\<lparr>tasks := t\<rparr>) = clean w" "clean (w\<lparr>net := n\<rparr>) = clean w"
  by (simp_all add: clean_def)

lemma run_body_no_err:
  "live (snd (run_body I f w)) h = Some (SErr x) \<Longrightarrow> live w h = Some (SErr x)"
  by (cases f) (auto simp: yield_handle_def yield_stream_pair_def live_simps Let_def
      split: prod.splits sum.splits option.splits if_splits)

lemma drop_no_err:
  "live (op_drop p w) h = Some (SErr x) \<Longrightarrow> live w h = Some (SErr x)"
  by (auto simp: op_drop_def release_handles_def live_simps split: option.splits sum.splits if_splits)

lemma post_no_err: "live (post oid r w) h = Some (SErr x) \<Longrightarrow> live w h = Some (SErr x)"
  by (auto simp: post_def Let_def live_simps split: option.splits slot.splits if_splits dest: drop_no_err)

lemma free_no_err: "live (iroh_op_free oid w) h = Some (SErr x) \<Longrightarrow> live w h = Some (SErr x)"
  by (auto simp: iroh_op_free_def Let_def live_simps split: option.splits slot.splits if_splits dest: drop_no_err)

lemma take_no_err: "live (snd (take_op oid w)) h = Some (SErr x) \<Longrightarrow> live w h = Some (SErr x)"
  by (auto simp: take_op_def take_result_def live_simps split: sum.splits option.splits if_splits)

lemma step_no_err: "live (pump_step I e w) h = Some (SErr x) \<Longrightarrow> live w h = Some (SErr x)"
proof (cases e)
  case (TaskFinishes op)
  assume "live (pump_step I e w) h = Some (SErr x)"
  then show ?thesis
    using TaskFinishes run_body_no_err [of I _ "w\<lparr>tasks := (tasks w)(op := None)\<rparr>" h x]
    by (auto simp: task_finishes_def case_prod_unfold Let_def split: option.splits dest: post_no_err)
qed (auto simp: task_stops_def task_panics_def pump_wait_def wait_queue_def deliver_locked_def deliver_send_def
      spawn_def spawn_ready_def reserve_def mark_started_def park_def register_def receive_def iroh_op_cancel_def
      op_cancel_def forget_def Let_def live_simps
      split: pump_pc.splits list.splits option.splits awaiter.splits sum.splits if_splits
      dest!: post_no_err free_no_err take_no_err)

lemma clean_env_step: "clean w \<Longrightarrow> clean (env_step I m e w)"
proof (cases rule: env_step_cases [of I m e w])
  case (pump x)
  assume "clean w"
  then show ?thesis using env_step_keeps [of I m e w] step_no_err [of I x w] pump(3) unfolding clean_def by metis
qed (auto simp: clean_def live_simps)

subsection \<open>What becomes of a handle that is no operation\<close>

text \<open>
  Ids only grow, and no handle given out before turns into an operation later: the relation between the
  library at two moments that lets an object be freed after a wait.
\<close>

definition evolves :: "('n, 'z) lib_scheme \<Rightarrow> ('n, 'z) lib_scheme \<Rightarrow> bool" where
  "evolves w w' \<longleftrightarrow> next_id (reg w) \<le> next_id (reg w') \<and>
     (\<forall>h. h < next_id (reg w) \<longrightarrow> is_op (live w' h) \<longrightarrow> is_op (live w h))"

lemma evolves_reg [simp]: "reg w' = reg w \<Longrightarrow> evolves w w'"
  by (simp add: evolves_def)

lemma evolves_trans: "evolves u v \<Longrightarrow> evolves v w \<Longrightarrow> evolves u w"
  unfolding evolves_def by (meson order_less_le_trans order_trans)

lemma is_op_SOp [simp]: "is_op (Some (SOp p))" "\<not> is_op None"
  by (simp_all add: is_op_def)

lemma drop_no_op: "is_op (live (op_drop p w) h) \<Longrightarrow> is_op (live w h)"
  by (auto simp: op_drop_def release_handles_def live_simps is_op_def split: option.splits sum.splits if_splits)

lemma post_no_op: "is_op (live (post oid r w) h) \<Longrightarrow> is_op (live w h)"
  by (auto simp: post_def Let_def live_simps split: option.splits slot.splits if_splits dest: drop_no_op)

lemma free_no_op: "is_op (live (iroh_op_free oid w) h) \<Longrightarrow> is_op (live w h)"
  by (auto simp: iroh_op_free_def Let_def live_simps split: option.splits slot.splits if_splits dest: drop_no_op)

lemma take_no_op: "is_op (live (snd (take_op oid w)) h) \<Longrightarrow> is_op (live w h)"
  by (auto simp: take_op_def take_result_def live_simps get_slot_lookup split: sum.splits option.splits if_splits elim!: as_op.elims)

lemma cancel_no_op: "is_op (live (iroh_op_cancel oid w) h) \<Longrightarrow> is_op (live w h)"
  by (auto simp: iroh_op_cancel_def op_cancel_def live_simps get_slot_lookup split: sum.splits option.splits if_splits elim!: as_op.elims)

lemma run_body_no_op: "is_op (live (snd (run_body I f w)) h) \<Longrightarrow> is_op (live w h)"
  by (cases f) (auto simp: yield_handle_def yield_stream_pair_def live_simps Let_def is_op_def
      split: prod.splits sum.splits option.splits if_splits)

lemma step_no_op: "is_op (live (pump_step I e w) h) \<Longrightarrow> is_op (live w h) \<or> h = next_id (reg w)"
proof (cases e)
  case (TaskFinishes op)
  assume "is_op (live (pump_step I e w) h)"
  then show ?thesis
    using TaskFinishes run_body_no_op [of I _ "w\<lparr>tasks := (tasks w)(op := None)\<rparr>" h]
    by (auto simp: task_finishes_def case_prod_unfold Let_def split: option.splits dest: post_no_op)
qed (auto simp: task_stops_def task_panics_def pump_wait_def wait_queue_def deliver_locked_def deliver_send_def
      spawn_def spawn_ready_def reserve_def mark_started_def park_def register_def receive_def
      forget_def Let_def live_simps
      split: pump_pc.splits list.splits option.splits awaiter.splits sum.splits if_splits
      dest!: post_no_op free_no_op take_no_op cancel_no_op)

lemma next_grows:
  assumes "lib_inv w" and "room w 2"
  shows "next_id (reg w) \<le> next_id (reg (pump_step I e w))"
proof (cases e)
  case (TaskFinishes op)
  show ?thesis
  proof (cases "tasks w op")
    case (Some k)
    let ?w = "w\<lparr>tasks := (tasks w)(op := None)\<rparr>"
    obtain r w1 where run: "run_body I (body k) ?w = (r, w1)" by (cases "run_body I (body k) ?w")
    have "grows ?w (result_handles r) w1"
      using fresh_next [OF assms(1)] fresh_next2 [OF assms] assms(2) by (intro grows_run_body [OF run]) (simp_all add: room_def)
    then show ?thesis using TaskFinishes Some run by (simp add: task_finishes_def next_post grows_def)
  qed (simp add: TaskFinishes task_finishes_def)
qed (use word_succ_facts(1) [OF assms(2) [unfolded room_def]] in \<open>auto simp: task_stops_def task_panics_def next_post
    next_free next_take next_wait step_frame spawn_def spawn_ready_def live_simps mark_started_def
    park_def register_def receive_def iroh_op_cancel_def op_cancel_def forget_def deliver_send_def Let_def
    split: pump_pc.split option.split awaiter.split list.split sum.split\<close>)

lemma evolves_pump_step: "pump_ok w \<Longrightarrow> room w 2 \<Longrightarrow> evolves w (pump_step I e w)"
  using next_grows [of w I e] step_no_op [of I e w] by (auto simp: evolves_def pump_ok_def)

lemma evolves_env_step: "pump_ok w \<Longrightarrow> room w 2 \<Longrightarrow> evolves w (env_step I m e w)"
  by (cases rule: env_step_cases [of I m e w]) (simp_all add: evolves_pump_step, auto simp: evolves_def live_simps split: if_splits)

lemma evolves_cancel: "evolves w (iroh_op_cancel op w)"
  by (auto simp: evolves_def cancel_no_op) (auto simp: iroh_op_cancel_def op_cancel_def live_simps split: sum.split)

lemma evolves_script [simp]: "evolves w (v\<lparr>script := es\<rparr>) = evolves w v"
  by (simp add: evolves_def)

subsection \<open>An operation and its result\<close>

text \<open>
  Where an operation with the body \<open>f\<close> stands: its task is in flight and \<open>A\<close> holds of the network,
  or its result is there and \<open>B\<close> relates the two. Every other task in flight runs a body in \<open>okay\<close>.
\<close>

definition op_state :: "future \<Rightarrow> ('n \<Rightarrow> bool) \<Rightarrow> (rust_error + op_value \<Rightarrow> 'n \<Rightarrow> bool) \<Rightarrow> (future \<Rightarrow> bool) \<Rightarrow>
    u64 \<Rightarrow> ('n, 'z) lib_scheme \<Rightarrow> bool" where
  "op_state f A B okay op w \<longleftrightarrow>
     ((\<exists>k. tasks w op = Some k \<and> body k = f \<and> A (net w)) \<or>
      (tasks w op = None \<and> (\<exists>r. result_of w op = Some r \<and> B r (net w)))) \<and>
     (\<forall>x k. x \<noteq> op \<longrightarrow> tasks w x = Some k \<longrightarrow> okay (body k))"

text \<open>
  The contract of an operation among others: running its body takes \<open>A\<close> to \<open>B\<close>, stopping it does too,
  and no other body in \<open>okay\<close> disturbs either.
\<close>

locale operation =
  fixes I :: "'n iroh" and f :: future and A :: "'n \<Rightarrow> bool"
    and B :: "rust_error + op_value \<Rightarrow> 'n \<Rightarrow> bool" and okay :: "future \<Rightarrow> bool"
  assumes own: "A (net w) \<Longrightarrow> run_body I f (w :: 'n world) = (r, w') \<Longrightarrow> B r (net w')"
    and stopped: "A n \<Longrightarrow> B (Inl e) n"
    and others: "okay g \<Longrightarrow> A (net w) \<Longrightarrow> A (net (snd (run_body I g (w :: 'n world))))"
      "okay g \<Longrightarrow> B r (net w) \<Longrightarrow> B r (net (snd (run_body I g (w :: 'n world))))"
begin

lemma op_state_ends:
  fixes w :: "'n world"
  assumes ok: "pump_ok w" and room: "room w 2" and aw: "awaiters w op \<noteq> None"
    and st: "op_state f A B okay op w" and e: "ends_task e op"
  shows "op_state f A B okay op (pump_step I e w)"
proof (cases "tasks w op")
  case None
  then have "pump_step I e w = w"
    using e by (cases e) (auto simp: task_finishes_def task_stops_def task_panics_def)
  then show ?thesis using st by simp
next
  case (Some k)
  note inv = pump_okD [OF ok]
  let ?w = "w\<lparr>tasks := (tasks w)(op := None)\<rparr>"
  have A: "A (net w)" and f: "body k = f" and rest: "\<And>x k. x \<noteq> op \<Longrightarrow> tasks w x = Some k \<Longrightarrow> okay (body k)"
    using st Some by (auto simp: op_state_def)
  obtain p where p: "live w op = Some (SOp p)" using waiting_op(3) [OF ok aw] by (auto simp: is_op_def)
  have posted: "op_state f A B okay op (post op r v)"
    if v: "tasks v = tasks ?w" "live v op = Some (SOp p)" "B r (net v)" for r and v :: "'n world"
    unfolding op_state_def using v rest by (auto simp: result_of_def post_live [OF v(2)] live_simps)
  obtain r w1 where run: "run_body I f ?w = (r, w1)" by (cases "run_body I f ?w")
  obtain rg n where w1: "w1 = ?w\<lparr>reg := rg, net := n\<rparr>" using run_body_frame [OF run] by auto
  have "grows ?w (result_handles r) w1"
    using fresh_next [OF inv(2)] fresh_next2 [OF inv(2) room] room
    by (intro grows_run_body [OF run]) (simp_all add: room_def)
  then have "live w1 op = Some (SOp p)" using waiting_op(2) [OF ok aw] p by (auto simp: grows_def)
  moreover have "B r (net w1)" using own [OF _ run] A by simp
  ultimately have fin: "op_state f A B okay op (post op r w1)" by (intro posted) (simp_all add: w1)
  have err: "op_state f A B okay op (post op (Inl x) ?w)" for x
    using p A stopped by (intro posted) simp_all
  show ?thesis using e Some f run fin err st
    by (cases e) (auto simp: task_finishes_def task_stops_def task_panics_def)
qed

lemma op_state_env_step:
  fixes w :: "'n world"
  assumes ok: "pump_ok w" and room: "room w 2" and aw: "awaiters w op \<noteq> None"
    and st: "op_state f A B okay op w" and e: "\<And>g. e = Ev (StartOp g) \<Longrightarrow> okay g"
  shows "op_state f A B okay op (env_step I op e w)"
proof (cases "\<exists>x. e = Ev x \<and> ends_task x op")
  case True
  then obtain x where x: "e = Ev x" "ends_task x op" by blast
  then have "\<not> concerns x op" by (cases x) auto
  then show ?thesis using op_state_ends [OF ok room aw st x(2)] x(1) by simp
next
  case False
  let ?w = "env_step I op e w"
  have same: "live ?w op = live w op" "tasks ?w op = tasks w op"
    using env_step_other [OF ok room aw, of e I] False by blast+
  have keep: "okay (body k')" if "x \<noteq> op" "tasks ?w x = Some k'" for x k'
    using env_step_tasks [OF that(2)] st that(1) e unfolding op_state_def by metis
  have "A (net w) \<longrightarrow> A (net ?w)" "\<forall>r. B r (net w) \<longrightarrow> B r (net ?w)"
  proof -
    consider "net ?w = net w" | x k where "e = Ev (TaskFinishes x)" "tasks w x = Some k"
        "net ?w = net (snd (run_body I (body k) (w\<lparr>tasks := (tasks w)(x := None)\<rparr>)))"
      using env_step_net [of I op e w] by blast
    then have "(A (net w) \<longrightarrow> A (net ?w)) \<and> (\<forall>r. B r (net w) \<longrightarrow> B r (net ?w))"
    proof cases
      case 2
      then have "x \<noteq> op" using False by auto
      then have "okay (body k)" using st 2(2) by (auto simp: op_state_def)
      then show ?thesis using 2(3) others [where g = "body k" and w = "w\<lparr>tasks := (tasks w)(x := None)\<rparr>"] by simp
    qed simp
    then show "A (net w) \<longrightarrow> A (net ?w)" "\<forall>r. B r (net w) \<longrightarrow> B r (net ?w)" by blast+
  qed
  then show ?thesis using st keep same unfolding op_state_def result_of_def by auto
qed

end

text \<open>The states of a goroutine that waits for its operation.\<close>

definition waiting :: "future \<Rightarrow> ('n \<Rightarrow> bool) \<Rightarrow> (rust_error + op_value \<Rightarrow> 'n \<Rightarrow> bool) \<Rightarrow> (future \<Rightarrow> bool) \<Rightarrow>
    u64 \<Rightarrow> (awaiter \<Rightarrow> bool) \<Rightarrow> 'n world \<Rightarrow> bool" where
  "waiting f A B okay op a w \<longleftrightarrow> op_state f A B okay op w \<and> clean w
     \<and> (\<exists>x. awaiters w op = Some x \<and> a x) \<and> (\<forall>g. Ev (StartOp g) \<in> set (script w) \<longrightarrow> okay g)"

context operation
begin

lemma waiting_env_step:
  fixes w :: "'n world"
  assumes "pump_ok w" and "room w 2" and "waiting f A B okay op a w" and "\<And>g. e = Ev (StartOp g) \<Longrightarrow> okay g"
  shows "waiting f A B okay op a (env_step I op e w)"
  using assms op_state_env_step [of w op e] env_step_awaiter [of w op I e]
  by (auto simp: waiting_def clean_env_step)

end

lemma park_go_side: "reg (park op w) = reg w" "tasks (park op w) = tasks w" "net (park op w) = net w"
  "bufs (park op w) = bufs w" "fault (park op w) = fault w" "script (park op w) = script w"
  "awaiters (park op w) op = Some (Parked (next_chan w))"
  by (auto simp: park_def register_def Let_def split: option.split)

lemma world_ok_park: "world_ok k w \<Longrightarrow> awaiters w op = Some Started \<Longrightarrow> world_ok k (park op w)"
  by (auto simp: world_ok_def pump_ok_def pump_inv_park lib_inv_park room_def park_go_side)

lemma waiting_park:
  assumes "waiting f A B okay op ((=) Started) w"
  shows "waiting f A B okay op (\<lambda>a. \<exists>ch. a = Parked ch) (park op w)"
  using assms
  by (auto simp: waiting_def op_state_def clean_def result_of_def park_go_side)

lemma receive_go_side:
  assumes "receive op w = Some (st, w')"
  shows "reg w' = reg w" "tasks w' = tasks w" "net w' = net w" "bufs w' = bufs w" "fault w' = fault w"
    "script w' = script w" "ctxs w' = ctxs w" "awaiters w' op = Some Got"
  using assms by (auto simp: receive_def split: option.splits awaiter.splits list.splits)

lemma world_ok_receive:
  assumes "world_ok k w" and rcv: "receive op w = Some (st, w')"
  shows "world_ok k w'"
  using assms(1) pump_inv_receive [OF _ rcv] lib_inv_receive [OF _ _ rcv] receive_go_side [OF rcv]
  by (auto simp: world_ok_def pump_ok_def room_def)

lemma waiting_receive:
  assumes "waiting f A B okay op a w" and "receive op w = Some (st, w')"
  shows "waiting f A B okay op ((=) Got) w'"
  using assms receive_go_side [OF assms(2)] by (auto simp: waiting_def op_state_def clean_def result_of_def)

lemma cancel_frame: "\<exists>rg t. iroh_op_cancel op w = w\<lparr>reg := rg, tasks := t\<rparr>"
proof -
  have "\<exists>rg t. w = w\<lparr>reg := rg, tasks := t\<rparr>" by (intro exI [of _ "reg w"] exI [of _ "tasks w"]) simp
  then show ?thesis by (auto simp: iroh_op_cancel_def op_cancel_def split: sum.split)
qed

lemma world_ok_cancel: "world_ok k w \<Longrightarrow> world_ok k (iroh_op_cancel op w)"
proof -
  assume ok: "world_ok k w"
  then have "pump_ok (iroh_op_cancel op w)"
    by (auto simp: world_ok_def pump_ok_def pump_inv_cancel lib_inv_cancel)
  moreover have "next_id (reg (iroh_op_cancel op w)) = next_id (reg w)"
    by (auto simp: iroh_op_cancel_def op_cancel_def live_simps split: sum.split)
  moreover have "script (iroh_op_cancel op w) = script w" using cancel_frame [of op w] by auto
  ultimately show ?thesis using ok by (simp add: world_ok_def room_def)
qed

lemma result_of_cancel: "result_of (iroh_op_cancel op w) x = result_of w x"
  by (auto simp: iroh_op_cancel_def op_cancel_def result_of_def get_slot_lookup live_simps
      split: sum.split if_splits option.splits slot.splits elim!: as_op.elims)

lemma waiting_cancel:
  assumes "waiting f A B okay op a w"
  shows "waiting f A B okay op a (iroh_op_cancel op w)"
proof -
  obtain rg t where fr: "iroh_op_cancel op w = w\<lparr>reg := rg, tasks := t\<rparr>" using cancel_frame by blast
  have t: "(\<exists>k. tasks (iroh_op_cancel op w) x = Some k \<and> Q (body k)) \<longleftrightarrow> (\<exists>k. tasks w x = Some k \<and> Q (body k))" for x Q
    by (auto simp: iroh_op_cancel_def op_cancel_def split: sum.split option.split)
  have none: "tasks (iroh_op_cancel op w) x = None \<longleftrightarrow> tasks w x = None" for x
    by (auto simp: iroh_op_cancel_def op_cancel_def split: sum.split option.split)
  have "op_state f A B okay op (iroh_op_cancel op w)"
    unfolding op_state_def result_of_cancel none
  proof (intro conjI)
    have "net (iroh_op_cancel op w) = net w" by (simp add: fr)
    then show "(\<exists>k. tasks (iroh_op_cancel op w) op = Some k \<and> body k = f \<and> A (net (iroh_op_cancel op w))) \<or>
      tasks w op = None \<and> (\<exists>r. result_of w op = Some r \<and> B r (net (iroh_op_cancel op w)))"
      using assms t [of op "\<lambda>b. b = f \<and> A (net w)"] by (auto simp: waiting_def op_state_def)
    show "\<forall>x k. x \<noteq> op \<longrightarrow> tasks (iroh_op_cancel op w) x = Some k \<longrightarrow> okay (body k)"
      using assms t [of _ "\<lambda>b. \<not> okay b"] unfolding waiting_def op_state_def by blast
  qed
  moreover have "clean (iroh_op_cancel op w)"
    using assms by (auto simp: waiting_def clean_def iroh_op_cancel_def op_cancel_def live_simps split: sum.split)
  ultimately show ?thesis using assms by (auto simp: waiting_def fr)
qed

lemma ctx_Err_script [simp]: "ctx_Err c (w\<lparr>script := es\<rparr>) = ctx_Err c w"
  by (simp add: ctx_Err_def split: ctx.split)

lemma ctx_Err_cong: "ctxs w' = ctxs w \<Longrightarrow> ctx_Err c w' = ctx_Err c w"
  by (simp add: ctx_Err_def split: ctx.split)

lemma waiting_script:
  assumes "waiting f A B okay op a v" and "\<And>g. Ev (StartOp g) \<in> set es \<Longrightarrow> okay g"
  shows "waiting f A B okay op a (v\<lparr>script := es\<rparr>)"
  using assms by (simp add: waiting_def op_state_def result_of_def)

context operation
begin

text \<open>Giving way keeps the wait as it is, and a context that is done stays done.\<close>

lemma schedule_waiting:
  assumes run: "schedule I op turn w = Some r" and ok: "world_ok k w"
    and wait: "waiting f A B okay op a (w :: 'n world)"
  obtains b v where "world_ok (k + 2) v" "waiting f A B okay op a v" "turn b v = Some r" "evolves w v"
    "\<And>c e. ctx_Err c w = Some e \<Longrightarrow> ctx_Err c v = Some e"
    "set (script v) \<subseteq> set (script w)" "length (script v) < length (script w)"
proof (rule schedule_rule [OF run ok, where
    P = "\<lambda>v. waiting f A B okay op a v \<and> evolves w v \<and> (\<forall>c e. ctx_Err c w = Some e \<longrightarrow> ctx_Err c v = Some e)"])
  have okay: "okay g" if "Ev (StartOp g) \<in> set (script w)" for g using wait that by (simp add: waiting_def)
  show "waiting f A B okay op a w \<and> evolves w w \<and> (\<forall>c e. ctx_Err c w = Some e \<longrightarrow> ctx_Err c w = Some e)"
    using wait by simp
  show "waiting f A B okay op a (env_step I op e v) \<and> evolves w (env_step I op e v) \<and>
      (\<forall>c x. ctx_Err c w = Some x \<longrightarrow> ctx_Err c (env_step I op e v) = Some x)"
    if "pump_ok v" "room v 2" "waiting f A B okay op a v \<and> evolves w v \<and> (\<forall>c e. ctx_Err c w = Some e \<longrightarrow> ctx_Err c v = Some e)"
      "e \<in> set (script w)" for e v
    using that okay by (auto intro: waiting_env_step env_step_ctx_err evolves_trans evolves_env_step)
  show "waiting f A B okay op a (v\<lparr>script := es\<rparr>) \<and> evolves w (v\<lparr>script := es\<rparr>) \<and> (\<forall>c e. ctx_Err c w = Some e \<longrightarrow> ctx_Err c (v\<lparr>script := es\<rparr>) = Some e)"
    if "waiting f A B okay op a v \<and> evolves w v \<and> (\<forall>c e. ctx_Err c w = Some e \<longrightarrow> ctx_Err c v = Some e)"
      "set es \<subseteq> set (script w)" for v es
    using that okay by (auto intro: waiting_script)
qed (use that in blast)

end

subsection \<open>Collecting the result\<close>

text \<open>
  \<open>v\<close> becomes \<open>w\<close> when the goroutine is finished with its operation: the handles in \<open>R\<close>, the
  operation's own among them, are gone, at most one id was used up on the way, and nothing else
  of the library or the pump is different.
\<close>

definition ends :: "u64 \<Rightarrow> u64 set \<Rightarrow> ('n, 'z) pump_scheme \<Rightarrow> ('n, 'z) pump_scheme \<Rightarrow> bool" where
  "ends op R v w \<longleftrightarrow> op \<in> R \<and> (\<forall>h. live w h = (if h \<in> R then None else live v h)) \<and>
     next_id (reg v) \<le> next_id (reg w) \<and> unat (next_id (reg w)) \<le> unat (next_id (reg v)) + 1 \<and>
     w = v\<lparr>reg := reg w, next_buf := next_buf w, awaiters := (awaiters v)(op := None)\<rparr>"

lemma got_op:
  assumes ok: "pump_ok v" and got: "awaiters v op = Some Got"
  obtains p where "live v op = Some (SOp p)" "tasks v op = None" "0 < op" "op < next_id (reg v)"
    "result_of v op = result p"
proof -
  have "tasks v op = None" using not_under_way(1) [OF pump_okD(1) [OF ok], of op] got by (simp add: under_way_def)
  then show thesis using waiting_op [OF ok, of op] got that by (auto simp: is_op_def result_of_def)
qed

lemma pump_ok_ends:
  assumes ok: "pump_ok v" and got: "awaiters v op = Some Got" and e: "ends op R v w"
    and R: "\<And>x. x \<in> R \<Longrightarrow> x \<noteq> op \<Longrightarrow> \<not> is_op (live v x)"
  shows "pump_ok w"
proof -
  note inv = pump_okD [OF ok]
  obtain rg nb where w: "w = v\<lparr>reg := rg, next_buf := nb, awaiters := (awaiters v)(op := None)\<rparr>"
    using e unfolding ends_def by blast
  let ?v = "v\<lparr>reg := rg, next_buf := nb\<rparr>"
  have same: "upstream ?v = upstream v" "downstream ?v = downstream v" "under_way ?v = under_way v"
    by (auto simp: fun_eq_iff upstream_def downstream_def under_way_def sending_def split: option.split awaiter.split)
  have "pump_inv ?v" using inv(1) by (simp add: pump_inv_def same)
  then have "pump_inv (forget op ?v)" using got by (intro pump_inv_forget) simp_all
  moreover have "forget op ?v = w" by (simp add: w forget_def)
  ultimately have pi: "pump_inv w" by simp
  have "lib_inv w"
    using inv(2)
  proof (rule lib_inv_release [where R = R])
    have noR: "x \<notin> R" if "is_op (live v x)" "x \<noteq> op" for x using R that by blast
    show "awaiters v x \<noteq> None \<and> x \<notin> R" if "awaiters w x \<noteq> None" for x
      using that noR [of x] lib_invD(6) [OF inv(2), of x] by (auto simp: w split: if_splits)
    show "under_way v x \<and> x \<notin> R" if "under_way w x" for x
    proof -
      from that have "under_way v x" "x \<noteq> op" by (auto simp: w under_way_def split: if_splits)
      then show ?thesis using noR lib_invD(2) [OF inv(2), of x] by blast
    qed
    show "carries v x st \<and> x \<notin> R" if "carries w x st" for x st
    proof -
      from that have c: "carries v x st" by (auto simp: w carries_def split: if_splits)
      then obtain r where r: "result_of v x = Some r" using lib_invD(3) [OF inv(2)] by blast
      have "x \<noteq> op" using c got not_under_way [OF inv(1), of op]
        by (auto simp: carries_def under_way_def image_iff)
      then show ?thesis using c r noR by (auto simp: result_of_def is_op_def split: option.splits slot.splits)
    qed
    show "live w h = (if h \<in> R then None else live v h)" for h using e by (simp add: ends_def)
    show "next_id (reg v) \<le> next_id (reg w)" using e by (simp add: ends_def)
    show "tasks w = tasks v" by (simp add: w)
  qed
  with pi show ?thesis by (simp add: pump_ok_def)
qed

text \<open>The four ways a goroutine ends its dealings with an operation.\<close>

lemma ends_free:
  assumes ok: "pump_ok v" and got: "awaiters v op = Some Got"
  shows "ends op (dropped v op) v (opFree op v)"
proof -
  obtain p where p: "live v op = Some (SOp p)" "tasks v op = None" "0 < op" using got_op [OF ok got] by metis
  note l = live_iroh_op_free [of v op] 
  obtain rg where rg: "iroh_op_free op v = v\<lparr>reg := rg\<rparr>" using iroh_op_free_frame by blast
  then have eq: "opFree op v = v\<lparr>reg := rg, awaiters := (awaiters v)(op := None)\<rparr>"
    by (cases v) (simp add: opFree_def forget_def)
  have "live (opFree op v) h = (if h \<in> dropped v op then None else live v h)" for h
    using l(1) [of h] p dropped_pos [OF pump_okD(2) [OF ok] p(3), of h] by (auto simp: eq rg)
  moreover have "next_id (reg (opFree op v)) = next_id (reg v)" using l(2) p by (simp add: eq rg)
  ultimately show ?thesis unfolding ends_def eq by (simp add: dropped_def)
qed

lemma take_op_got:
  assumes ok: "pump_ok v" and got: "awaiters v op = Some Got" and r: "result_of v op = Some r"
  obtains p where "take_op op v = (r, v\<lparr>reg := publish op (SOp (p\<lparr>result := None\<rparr>)) (reg v)\<rparr>)"
    "live v op = Some (SOp p)" "0 < op" "tasks v op = None"
proof -
  obtain p where "live v op = Some (SOp p)" "0 < op" "result p = Some r" "tasks v op = None"
    using got_op [OF ok got] r by metis
  then show thesis using take_op_live [of v op p] that [of p] by (cases "take_op op v") auto
qed

lemma live_opFree_taken:
  assumes "live w op = Some (SOp p)" and "result p = None" and "tasks w op = None" and "0 < op"
  shows "live (opFree op w) h = (if h = op then None else live w h)"
    and "next_id (reg (opFree op w)) = next_id (reg w)"
proof -
  have "dropped w op = {op}" using assms by (simp add: dropped_def result_of_def)
  then show "live (opFree op w) h = (if h = op then None else live w h)"
    "next_id (reg (opFree op w)) = next_id (reg w)"
    using live_iroh_op_free [of w op] assms by (auto simp: opFree_def forget_def)
qed

lemma opFree_frame: "\<exists>rg. opFree op w = w\<lparr>reg := rg, awaiters := (awaiters w)(op := None)\<rparr>"
  using iroh_op_free_frame [of op w] by (cases w) (auto simp: opFree_def forget_def)

lemma ends_take:
  assumes ok: "pump_ok v" and got: "awaiters v op = Some Got" and r: "result_of v op = Some r"
  shows "ends op {op} v (opFree op (snd (take_op op v)))"
proof -
  obtain p where p: "take_op op v = (r, v\<lparr>reg := publish op (SOp (p\<lparr>result := None\<rparr>)) (reg v)\<rparr>)"
    "live v op = Some (SOp p)" "0 < op" "tasks v op = None"
    using take_op_got [OF ok got r] by metis
  let ?w = "v\<lparr>reg := publish op (SOp (p\<lparr>result := None\<rparr>)) (reg v)\<rparr>"
  obtain rg where rg: "opFree op ?w = v\<lparr>reg := rg, awaiters := (awaiters v)(op := None)\<rparr>"
    using opFree_frame [of op ?w] by auto
  have "live (opFree op ?w) h = (if h = op then None else live v h)" for h
    using live_opFree_taken(1) [of ?w op "p\<lparr>result := None\<rparr>" h] p by (simp add: live_simps)
  moreover have "next_id (reg (opFree op ?w)) = next_id (reg v)"
    using live_opFree_taken(2) [of ?w op "p\<lparr>result := None\<rparr>"] p by (simp add: live_simps)
  ultimately show ?thesis using p(1) unfolding ends_def by (simp add: rg)
qed

text \<open>The error handle round trip: what \<^verbatim>\<open>store_err\<close> put in, \<^verbatim>\<open>takeError\<close> takes out, leaving nothing behind.\<close>

lemma takeError_stored:
  assumes "live w h = Some (SErr e)" and "h \<noteq> 0" and "bufs w = Map.empty"
  shows "\<exists>nb. takeError h w = (NewError (kind_code (err_kind e)) (err_msg e),
     w\<lparr>reg := snd (remove h (reg w)), next_buf := nb\<rparr>)"
proof -
  have get: "get_slot as_err h (reg w) = Inr e" using assms by (simp add: get_slot_lookup)
  show ?thesis
  proof (cases "err_msg e = []")
    case True
    then show ?thesis using assms(2) get
      by (intro exI [of _ "next_buf w"]) (simp add: takeError_def iroh_error_take_def out_bytes_def takeBytes_def)
  next
    case False
    have "Map.empty(Suc (next_buf w) := None) = (Map.empty :: nat \<rightharpoonup> bytes)" by auto
    then show ?thesis using assms(2,3) get False
      by (intro exI [of _ "Suc (next_buf w)"], cases w)
        (simp add: takeError_def iroh_error_take_def out_bytes_def takeBytes_def unsafe_Slice_def free_bytes_def)
  qed
qed

lemma finish_error:
  assumes ok: "pump_ok v" and got: "awaiters v op = Some Got" and r: "result_of v op = Some (Inl e)"
    and room: "room v 2" and bufs: "bufs v = Map.empty" and st: "st \<noteq> StatusOK"
  obtains w where "finish op st v = (Some (NewError (kind_code (err_kind e)) (err_msg e)), w)" "ends op {op} v w"
proof -
  obtain p where p: "take_op op v = (Inl e, v\<lparr>reg := publish op (SOp (p\<lparr>result := None\<rparr>)) (reg v)\<rparr>)"
    "live v op = Some (SOp p)" "0 < op" "tasks v op = None"
    using take_op_got [OF ok got r] by metis
  let ?h = "next_id (reg v)"
  let ?v1 = "v\<lparr>reg := publish op (SOp (p\<lparr>result := None\<rparr>)) (reg v)\<rparr>"
  let ?v2 = "?v1\<lparr>reg := snd (insert_slot (SErr e) (reg ?v1))\<rparr>"
  note ws = word_succ_facts [OF room [unfolded room_def]]
  have h: "?h \<noteq> 0" "?h \<noteq> op" "live v ?h = None"
    using lib_invD(5) [OF pump_okD(2) [OF ok]] waiting_op(2) [OF ok, of op] got
      fresh_next(1) [OF pump_okD(2) [OF ok]] by auto
  have res: "iroh_op_result_err op v = ((FFI_ERR, ?h), ?v2)"
    using p(1) by (simp add: iroh_op_result_err_def store_err_def live_simps)
  obtain nb where take: "takeError ?h ?v2 = (NewError (kind_code (err_kind e)) (err_msg e),
      ?v2\<lparr>reg := snd (remove ?h (reg ?v2)), next_buf := nb\<rparr>)"
    using takeError_stored [of ?v2 ?h e] h bufs by (auto simp: live_simps)
  let ?v3 = "?v2\<lparr>reg := snd (remove ?h (reg ?v2)), next_buf := nb\<rparr>"
  have live3: "live ?v3 x = (if x = op then Some (SOp (p\<lparr>result := None\<rparr>)) else live v x)" for x
    using h by (simp add: live_simps)
  have fin: "finish op st v = (Some (NewError (kind_code (err_kind e)) (err_msg e)), opFree op ?v3)"
    using st res take by (simp add: finish_def)
  obtain rg where rg: "opFree op ?v3 = ?v3\<lparr>reg := rg, awaiters := (awaiters v)(op := None)\<rparr>"
    using opFree_frame [of op ?v3] by auto
  have "ends op {op} v (opFree op ?v3)"
    unfolding ends_def
  proof (intro conjI allI)
    note free = live_opFree_taken [of ?v3 op "p\<lparr>result := None\<rparr>"]
    show "live (opFree op ?v3) x = (if x \<in> {op} then None else live v x)" for x
      using free(1) [of x] live3 p by simp
    have nx: "next_id (reg (opFree op ?v3)) = ?h + 1"
      using free(2) live3 [of op] p by (simp add: live_simps)
    show "next_id (reg v) \<le> next_id (reg (opFree op ?v3))"
      "unat (next_id (reg (opFree op ?v3))) \<le> unat (next_id (reg v)) + 1"
      unfolding nx using ws(1,2) by simp_all
    show "opFree op ?v3 = v\<lparr>reg := reg (opFree op ?v3), next_buf := next_buf (opFree op ?v3),
        awaiters := (awaiters v)(op := None)\<rparr>"
      unfolding rg by simp
  qed simp
  with fin show thesis by (rule that)
qed

lemma finish_ok: "finish op StatusOK v = (None, v)"
  by (simp add: finish_def)

subsection \<open>What a wait comes to\<close>

text \<open>Between two operations: nothing is borrowed, and everything in flight or to come is in \<open>okay\<close>.\<close>

definition quiet :: "(future \<Rightarrow> bool) \<Rightarrow> ('n, 'z) world_scheme \<Rightarrow> bool" where
  "quiet okay w \<longleftrightarrow> clean w \<and> (\<forall>x k. tasks w x = Some k \<longrightarrow> okay (body k)) \<and>
     (\<forall>g. Ev (StartOp g) \<in> set (script w) \<longrightarrow> okay g)"

text \<open>The operation is gone from the library and the pump, handles stayed what they were, and some of the script was used.\<close>

definition reaped :: "nat \<Rightarrow> (future \<Rightarrow> bool) \<Rightarrow> u64 \<Rightarrow> ('n, 'z) world_scheme \<Rightarrow> ('n, 'z) world_scheme \<Rightarrow> bool" where
  "reaped k okay op w w' \<longleftrightarrow> quiet okay w' \<and> world_ok k w' \<and> live w' op = None \<and> awaiters w' op = None \<and> evolves w w' \<and>
     set (script w') \<subseteq> set (script w) \<and> length (script w') < length (script w)"

lemma ends_quiet:
  assumes wait: "waiting f A B okay op ((=) Got) v" and ok: "world_ok (k + 2) v" and e: "ends op R v w"
    and R: "\<And>x. x \<in> R \<Longrightarrow> x \<noteq> op \<Longrightarrow> \<not> is_op (live v x)"
  shows "quiet okay w" "world_ok k w" "live w op = None" "awaiters w op = None" "script w = script v" "net w = net v"
    "ctxs w = ctxs v" "evolves v w"
proof -
  obtain rg nb where w: "w = v\<lparr>reg := rg, next_buf := nb, awaiters := (awaiters v)(op := None)\<rparr>"
    using e unfolding ends_def by blast
  have got: "awaiters v op = Some Got" and pok: "pump_ok v" using wait ok by (auto simp: waiting_def world_ok_def)
  have live: "live w h = (if h \<in> R then None else live v h)" for h using e by (simp add: ends_def)
  have "unat (next_id (reg w)) \<le> unat (next_id (reg v)) + 1" using e by (simp add: ends_def)
  then show "world_ok k w"
    using ok pump_ok_ends [OF pok got e R] by (auto simp: world_ok_def room_def w)
  have "tasks v op = None" using not_under_way(1) [OF pump_okD(1) [OF pok], of op] got by (simp add: under_way_def)
  then have "okay (body k')" if "tasks v x = Some k'" for x k'
    using wait that by (cases "x = op") (auto simp: waiting_def op_state_def)
  moreover have "clean w" using wait live by (auto simp: waiting_def clean_def w split: if_splits)
  ultimately show "quiet okay w" using wait by (auto simp: quiet_def waiting_def w)
  show "live w op = None" using live e by (simp add: ends_def)
  show "awaiters w op = None" "script w = script v" "net w = net v" "ctxs w = ctxs v" by (simp_all add: w)
  show "evolves v w" using e live by (simp add: evolves_def ends_def)
qed

lemma waiting_result:
  assumes wait: "waiting f A B okay op ((=) Got) v" and ok: "pump_ok v"
  obtains r where "result_of v op = Some r" "B r (net v)"
proof -
  have got: "awaiters v op = Some Got" using wait by (auto simp: waiting_def)
  have "tasks v op = None" using not_under_way(1) [OF pump_okD(1) [OF ok], of op] got by (simp add: under_way_def)
  then show thesis using wait that by (auto simp: waiting_def op_state_def)
qed

lemma preempt_eq: "preempt I op w = Some v \<longleftrightarrow> schedule I op (\<lambda>_ w. Some ((), w)) w = Some ((), v)"
  by (auto simp: preempt_def)

context operation
begin

lemma received:
  assumes "world_ok k v" and "waiting f A B okay op a v" and rcv: "receive op v = Some (st, v')"
  shows "world_ok k v'" "waiting f A B okay op ((=) Got) v'"
    "\<exists>r. result_of v' op = Some r \<and> status_of r = st \<and> B r (net v')"
proof -
  show ok: "world_ok k v'" using world_ok_receive [OF assms(1) rcv] .
  show w: "waiting f A B okay op ((=) Got) v'" using waiting_receive [OF assms(2) rcv] .
  obtain r where "result_of v' op = Some r" "B r (net v')"
    using waiting_result [OF w] ok by (auto simp: world_ok_def)
  moreover obtain r' where "result_of v' op = Some r'" "status_of r' = st"
    using receive_result(1) [OF _ rcv] assms(1) unfolding world_ok_def by blast
  ultimately show "\<exists>r. result_of v' op = Some r \<and> status_of r = st \<and> B r (net v')" by auto
qed

lemma await_rule:
  assumes run: "await I c op w = Some (r, w')" and ok: "world_ok k w"
    and wait: "waiting f A B okay op ((=) Started) w"
  shows "((\<exists>st res. r = Inr st \<and> waiting f A B okay op ((=) Got) w' \<and> world_ok (Suc k + 2) w' \<and>
       evolves w w' \<and> result_of w' op = Some res \<and> status_of res = st \<and> B res (net w')) \<or>
     (\<exists>e x v. r = Inl e \<and> w' = opFree op v \<and> waiting f A B okay op ((=) Got) v \<and> world_ok (Suc k + 2) v \<and>
       evolves w v \<and> ctx_Err c v = Some e \<and> result_of v op = Some (Inl x) \<and> B (Inl x) (net v))) \<and>
     set (script w') \<subseteq> set (script w) \<and> length (script w') < length (script w)"
proof -
  have pos: "op \<noteq> 0" using waiting_op(1) [of w op] ok wait by (auto simp: world_ok_def waiting_def)
  from run pos obtain w1 sel w2 where 1: "schedule I op (\<lambda>_ w. Some ((), w)) w = Some ((), w1)"
    and 2: "schedule I op (select_turn c op) (park op w1) = Some (sel, w2)"
    and 3: "(case sel of Inr status \<Rightarrow> Some (Inr status, w2)
        | Inl _ \<Rightarrow> do {
            (status, w3) \<leftarrow> schedule I op (\<lambda>_. receive op) (iroh_op_cancel op w2);
            if status = StatusOK then Some (Inr status, w3)
            else Some (case ctx_Err c w3 of Some e \<Rightarrow> Inl e | None \<Rightarrow> Inr 0, opFree op w3)
          }) = Some (r, w')"
    by (auto simp: await_def preempt_eq bind_eq_Some_conv)
  obtain v1 b1 where v1: "world_ok (k + 2) v1" "waiting f A B okay op ((=) Started) v1" "v1 = w1" "evolves w v1"
    "set (script v1) \<subseteq> set (script w)" "length (script v1) < length (script w)"
    by (rule schedule_waiting [OF 1 ok wait]) auto
  have "awaiters w1 op = Some Started" using v1 by (auto simp: waiting_def)
  then have okp: "world_ok (k + 2) (park op w1)"
    and waitp: "waiting f A B okay op (\<lambda>a. \<exists>ch. a = Parked ch) (park op w1)"
    using v1 world_ok_park waiting_park by blast+
  obtain v2 b2 where v2: "world_ok (k + 2 + 2) v2" "waiting f A B okay op (\<lambda>a. \<exists>ch. a = Parked ch) v2"
    "select_turn c op b2 v2 = Some (sel, w2)" "evolves (park op w1) v2"
    "set (script v2) \<subseteq> set (script w1)" "length (script v2) < length (script w1)"
    by (rule schedule_waiting [OF 2 okp waitp]) (auto simp: park_go_side)
  have "evolves w1 (park op w1)" by (rule evolves_reg) (rule park_go_side)
  then have ev2: "evolves w v2" using v1(3,4) v2(4) evolves_trans by blast
  have ok2: "world_ok (Suc k + 2) v2" using v2(1) by (simp add: world_ok_def room_def)
  show ?thesis
  proof (cases sel)
    case (Inr st)
    then have rcv: "receive op v2 = Some (st, w2)" and "r = Inr st" "w' = w2"
      using v2(3) 3 by (auto simp: select_turn_def split: option.splits if_splits)
    moreover have "script w2 = script v2" using receive_go_side [OF rcv] by simp
    moreover have "evolves w w2" using ev2 evolves_reg [OF receive_go_side(1) [OF rcv]] evolves_trans by blast
    ultimately show ?thesis using received [OF ok2 v2(2) rcv] v1 v2 by (intro conjI disjI1) auto
  next
    case (Inl u)
    then have w2: "w2 = v2" and "ctx_Err c v2 \<noteq> None"
      using v2(3) by (auto simp: select_turn_def split: option.splits if_splits)
    then obtain e where e: "ctx_Err c v2 = Some e" by blast
    let ?c = "iroh_op_cancel op v2"
    from 3 Inl w2 obtain st w3 where 4: "schedule I op (\<lambda>_. receive op) ?c = Some (st, w3)"
      and 5: "(if st = StatusOK then Some (Inr st, w3)
            else Some (case ctx_Err c w3 of Some e \<Rightarrow> Inl e | None \<Rightarrow> Inr 0, opFree op w3)) = Some (r, w')"
      by (auto simp: bind_eq_Some_conv)
    have okc: "world_ok (Suc k + 2) ?c" "waiting f A B okay op (\<lambda>a. \<exists>ch. a = Parked ch) ?c"
      using world_ok_cancel [OF ok2] waiting_cancel [OF v2(2)] .
    have cc: "ctxs ?c = ctxs v2" "script ?c = script v2" using cancel_frame [of op v2] by auto
    obtain v3 b3 where v3: "world_ok (Suc k + 2 + 2) v3" "waiting f A B okay op (\<lambda>a. \<exists>ch. a = Parked ch) v3"
      "receive op v3 = Some (st, w3)" "ctx_Err c v3 = Some e" "evolves ?c v3"
      "set (script v3) \<subseteq> set (script v2)" "length (script v3) < length (script v2)"
      by (rule schedule_waiting [OF 4 okc]) (use e ctx_Err_cong [OF cc(1)] cc(2) in auto)
    have ok3: "world_ok (Suc k + 2) v3" using v3(1) by (simp add: world_ok_def room_def)
    note rcv = received [OF ok3 v3(2,3)] and side = receive_go_side [OF v3(3)]
    have e3: "ctx_Err c w3 = Some e" using v3(4) ctx_Err_cong [OF side(7)] by simp
    obtain res where res: "result_of w3 op = Some res" "status_of res = st" "B res (net w3)" using rcv(3) by blast
    have ev3: "evolves w w3"
      using ev2 evolves_cancel [of v2 op] v3(5) evolves_reg [OF side(1)] evolves_trans by blast
    have sub: "set (script w3) \<subseteq> set (script w)" "length (script w3) < length (script w)"
      using v1 v2 v3 side(6) by auto
    show ?thesis
    proof (cases "st = StatusOK")
      case True
      then show ?thesis using 5 rcv(1,2) res sub ev3 by auto
    next
      case False
      then obtain x where x: "res = Inl x" using res(2) by (cases res) (auto simp: status_of_def StatusOK_def COMPLETION_OK_def)
      have "r = Inl e" "w' = opFree op w3" using 5 False e3 by auto
      moreover have "script (opFree op w3) = script w3" using opFree_frame [of op w3] by auto
      ultimately show ?thesis using rcv(1,2) res x e3 sub ev3 by (intro conjI disjI2) auto
    qed
  qed
qed

end

text \<open>What an \<^verbatim>\<open>Await*\<close> function reports when it reports an error: the library's error, or the context's.\<close>

definition await_error :: "ctx \<Rightarrow> rust_error \<Rightarrow> go_error \<Rightarrow> ('n, 'z) world_scheme \<Rightarrow> bool" where
  "await_error c x e w \<longleftrightarrow> e = NewError (kind_code (err_kind x)) (err_msg x) \<or> ctx_Err c w = Some e"

context operation
begin

lemma await_ok_rule:
  assumes run: "await_ok I c op w = Some (r, w')" and ok: "world_ok k w"
    and wait: "waiting f A B okay op ((=) Started) w"
  shows "(\<exists>e x. r = Inl e \<and> reaped (Suc k) okay op w w' \<and> B (Inl x) (net w') \<and> await_error c x e w') \<or>
     (\<exists>v. r = Inr () \<and> waiting f A B okay op ((=) Got) w' \<and> world_ok (Suc k + 2) w' \<and> evolves w w' \<and>
       result_of w' op = Some (Inr v) \<and> B (Inr v) (net w') \<and>
       set (script w') \<subseteq> set (script w) \<and> length (script w') < length (script w))"
proof -
  obtain s w1 where aw: "await I c op w = Some (s, w1)"
    and rest: "(case s of Inl err \<Rightarrow> Some (Inl err, w1)
       | Inr st \<Rightarrow> (case finish op st w1 of (Some err, w2) \<Rightarrow> Some (Inl err, w2) | (None, w2) \<Rightarrow> Some (Inr (), w2)))
       = Some (r, w')"
    using run by (auto simp: await_ok_def bind_eq_Some_conv)
  have nop: "\<not> is_op (live v x)" if "x \<in> {op}" "x \<noteq> op" for x and v :: "'n world" using that by simp
  note rule = await_rule [OF aw ok wait]
  consider (got) st res where "s = Inr st" "waiting f A B okay op ((=) Got) w1" "world_ok (Suc k + 2) w1"
      "result_of w1 op = Some res" "status_of res = st" "B res (net w1)" "evolves w w1"
    | (ctx) e x v where "s = Inl e" "w1 = opFree op v" "waiting f A B okay op ((=) Got) v" "world_ok (Suc k + 2) v"
      "ctx_Err c v = Some e" "result_of v op = Some (Inl x)" "B (Inl x) (net v)" "evolves w v"
    using rule by blast
  then show ?thesis
  proof cases
    case (ctx e x v)
    have "pump_ok v" "awaiters v op = Some Got" using ctx by (auto simp: world_ok_def waiting_def)
    moreover have "dropped v op = {op}" using ctx(6) by (simp add: dropped_def)
    ultimately have "ends op {op} v w1" using ends_free [of v op] ctx(2) by simp
    note q = ends_quiet [OF ctx(3,4) this nop]
    have "r = Inl e" "w' = w1" using rest ctx(1) by auto
    then show ?thesis using q rule ctx ctx_Err_cong [OF q(7)] evolves_trans [OF ctx(8) q(8)] unfolding reaped_def await_error_def by auto
  next
    case (got st res)
    have pok: "pump_ok w1" and aw1: "awaiters w1 op = Some Got" and b: "bufs w1 = Map.empty" "room w1 2"
      using got by (auto simp: world_ok_def waiting_def clean_def room_def)
    show ?thesis
    proof (cases res)
      case (Inr v)
      then have "st = StatusOK" using got(5) by (simp add: status_of_def StatusOK_def COMPLETION_OK_def)
      then have "r = Inr ()" "w' = w1" using rest got(1) by (auto simp: finish_ok)
      then show ?thesis using got Inr rule by auto
    next
      case (Inl x)
      then have "st \<noteq> StatusOK" using got(5) by (auto simp: status_of_def StatusOK_def code_defs split: if_splits)
      then obtain w2 where fin: "finish op st w1 = (Some (NewError (kind_code (err_kind x)) (err_msg x)), w2)"
        and e: "ends op {op} w1 w2"
        using finish_error [OF pok aw1 _ b(2,1)] got(4) Inl by metis
      note q = ends_quiet [OF got(2,3) e nop]
      have "r = Inl (NewError (kind_code (err_kind x)) (err_msg x))" "w' = w2"
        using rest got(1) fin by auto
      then show ?thesis using q got Inl rule evolves_trans [OF got(7) q(8)] unfolding reaped_def await_error_def by auto
    qed
  qed
qed

lemma await_unit_rule:
  assumes run: "AwaitUnit I c op w = Some (r, w')" and ok: "world_ok k w"
    and wait: "waiting f A B okay op ((=) Started) w"
    and typed: "\<forall>v n. B (Inr v) n \<longrightarrow> value_handles v = []"
  shows "reaped (Suc k) okay op w w'"
    and "(\<exists>e x. r = Some e \<and> B (Inl x) (net w') \<and> await_error c x e w') \<or> (\<exists>v. r = None \<and> B (Inr v) (net w'))"
proof -
  obtain s w1 where aw: "await_ok I c op w = Some (s, w1)"
    and rest: "(case s of Inl err \<Rightarrow> Some (Some err, w1) | Inr _ \<Rightarrow> Some (None, opFree op w1)) = Some (r, w')"
    using run by (auto simp: AwaitUnit_def bind_eq_Some_conv)
  have "reaped (Suc k) okay op w w' \<and>
     ((\<exists>e x. r = Some e \<and> B (Inl x) (net w') \<and> await_error c x e w') \<or> (\<exists>v. r = None \<and> B (Inr v) (net w')))"
  proof (cases s)
    case (Inl e)
    then show ?thesis using await_ok_rule [OF aw ok wait] rest by auto
  next
    case (Inr u)
    then obtain v where v: "waiting f A B okay op ((=) Got) w1" "world_ok (Suc k + 2) w1"
        "result_of w1 op = Some (Inr v)" "B (Inr v) (net w1)"
        "set (script w1) \<subseteq> set (script w)" "length (script w1) < length (script w)" "evolves w w1"
      using await_ok_rule [OF aw ok wait] by auto
    have "dropped w1 op = {op}" using v(3) typed [rule_format, OF v(4)] by (simp add: dropped_def)
    then have e: "ends op {op} w1 w'"
      using ends_free [of w1 op] rest Inr v by (auto simp: world_ok_def waiting_def)
    have "r = None" using rest Inr by simp
    moreover note q = ends_quiet [OF v(1,2) e]
    ultimately show ?thesis using v q evolves_trans [OF v(7) q(8)] unfolding reaped_def by auto
  qed
  then show "reaped (Suc k) okay op w w'"
    "(\<exists>e x. r = Some e \<and> B (Inl x) (net w') \<and> await_error c x e w') \<or> (\<exists>v. r = None \<and> B (Inr v) (net w'))"
    by blast+
qed

text \<open>A result call that finds the kind of value it expects hands it over and frees the operation.\<close>

lemma await_collect_rule:
  assumes run: "await_collect call I c op w = Some (r, w')" and ok: "world_ok k w"
    and wait: "waiting f A B okay op ((=) Started) w"
    and call: "\<forall>v u u'. take_op op u = (Inr v, u') \<longrightarrow> typed v \<longrightarrow> call op u = ((0, get v, 0), u')"
    and typed: "\<forall>v n. B (Inr v) n \<longrightarrow> typed v"
  shows "reaped (Suc k) okay op w w'"
    and "(\<exists>e x. r = Inl e \<and> B (Inl x) (net w') \<and> await_error c x e w') \<or>
      (\<exists>v. r = Inr (get v) \<and> B (Inr v) (net w'))"
proof -
  obtain s w1 where aw: "await_ok I c op w = Some (s, w1)"
    and rest: "(case s of Inl err \<Rightarrow> Some (Inl err, w1) | Inr _ \<Rightarrow> Some (collect call op w1)) = Some (r, w')"
    using run by (auto simp: await_collect_def bind_eq_Some_conv)
  have "reaped (Suc k) okay op w w' \<and>
     ((\<exists>e x. r = Inl e \<and> B (Inl x) (net w') \<and> await_error c x e w') \<or> (\<exists>v. r = Inr (get v) \<and> B (Inr v) (net w')))"
  proof (cases s)
    case (Inl e)
    then show ?thesis using await_ok_rule [OF aw ok wait] rest by auto
  next
    case (Inr u)
    then obtain v where v: "waiting f A B okay op ((=) Got) w1" "world_ok (Suc k + 2) w1"
        "result_of w1 op = Some (Inr v)" "B (Inr v) (net w1)"
        "set (script w1) \<subseteq> set (script w)" "length (script w1) < length (script w)" "evolves w w1"
      using await_ok_rule [OF aw ok wait] by auto
    have pok: "pump_ok w1" "awaiters w1 op = Some Got" using v by (auto simp: world_ok_def waiting_def)
    obtain w2 where t: "take_op op w1 = (Inr v, w2)" using take_op_got [OF pok v(3)] by metis
    then have "collect call op w1 = (Inr (get v), opFree op w2)"
      using call [rule_format, OF t typed [rule_format, OF v(4)]] by (simp add: collect_def)
    then have r: "r = Inr (get v)" and "w' = opFree op (snd (take_op op w1))" using rest Inr t by simp_all
    then have e: "ends op {op} w1 w'" using ends_take [OF pok v(3)] by simp
    note q = ends_quiet [OF v(1,2) e]
    show ?thesis using v q r evolves_trans [OF v(7) q(8)] unfolding reaped_def by auto
  qed
  then show "reaped (Suc k) okay op w w'"
    "(\<exists>e x. r = Inl e \<and> B (Inl x) (net w') \<and> await_error c x e w') \<or> (\<exists>v. r = Inr (get v) \<and> B (Inr v) (net w'))"
    by blast+
qed

end

text \<open>The value each result call expects.\<close>

fun is_handle :: "op_value \<Rightarrow> bool" where "is_handle (Handle h) = True" | "is_handle _ = False"
fun is_handle2 :: "op_value \<Rightarrow> bool" where "is_handle2 (Handle2 a b) = True" | "is_handle2 _ = False"
fun is_u64 :: "op_value \<Rightarrow> bool" where "is_u64 (U64 n) = True" | "is_u64 _ = False"
fun is_bytes :: "op_value \<Rightarrow> bool" where "is_bytes (Bytes b) = True" | "is_bytes Eof = True" | "is_bytes _ = False"
fun the_handle :: "op_value \<Rightarrow> u64" where "the_handle (Handle h) = h" | "the_handle _ = 0"
fun the_handle2 :: "op_value \<Rightarrow> u64 \<times> u64" where "the_handle2 (Handle2 a b) = (a, b)" | "the_handle2 _ = (0, 0)"
fun the_u64 :: "op_value \<Rightarrow> u64" where "the_u64 (U64 n) = n" | "the_u64 _ = 0"
fun the_bytes :: "op_value \<Rightarrow> bytes" where "the_bytes (Bytes b) = b" | "the_bytes _ = []"

lemma result_handle_typed:
  "\<forall>v u u'. take_op op u = (Inr v, u') \<longrightarrow> is_handle v \<longrightarrow> iroh_op_result_handle op u = ((0, the_handle v, 0), u')"
  by (auto elim!: is_handle.elims simp: iroh_op_result_handle_def FFI_OK_def)

lemma result_handle2_typed:
  "\<forall>v u u'. take_op op u = (Inr v, u') \<longrightarrow> is_handle2 v \<longrightarrow> iroh_op_result_handle2 op u = ((0, the_handle2 v, 0), u')"
  by (auto elim!: is_handle2.elims simp: iroh_op_result_handle2_def FFI_OK_def)

lemma result_u64_typed:
  "\<forall>v u u'. take_op op u = (Inr v, u') \<longrightarrow> is_u64 v \<longrightarrow> iroh_op_result_u64 op u = ((0, the_u64 v, 0), u')"
  by (auto elim!: is_u64.elims simp: iroh_op_result_u64_def FFI_OK_def)

lemma opFree_bufs: "opFree op (w\<lparr>bufs := b, next_buf := n\<rparr>) = (opFree op w)\<lparr>bufs := b, next_buf := n\<rparr>"
  by (cases w) (auto simp: opFree_def forget_def iroh_op_free_def op_drop_def release_handles_def Let_def
      split: option.split slot.split sum.split)

text \<open>A byte result: the buffer handed out holds the bytes, and taking it frees it.\<close>

lemma collect_bytes:
  assumes ok: "pump_ok w1" and got: "awaiters w1 op = Some Got" and r: "result_of w1 op = Some (Inr v)"
    and v: "is_bytes v" and clean: "bufs w1 = Map.empty" "\<not> fault w1"
  obtains p n w2 u where "collect iroh_op_result_bytes op w1 = (Inr (p, n, if v = Eof then 1 else 0), w2)"
    "ends op {op} w1 u"
    "if p \<noteq> 0 \<and> n > 0 then unsafe_Slice p n w2 = (the_bytes v, w2) \<and> free_bytes p n w2 = u \<and> the_bytes v \<noteq> []
     else w2 = u \<and> the_bytes v = []"
proof -
  obtain x where x: "take_op op w1 = (Inr v, x)" using take_op_got [OF ok got r] by metis
  let ?u = "opFree op x"
  have e: "ends op {op} w1 ?u" using ends_take [OF ok got r] x by simp
  have xb: "bufs x = Map.empty" "\<not> fault x" using take_op_frame [of op w1] x clean by auto
  have ub: "bufs ?u = Map.empty" "\<not> fault ?u" using opFree_frame [of op x] xb by auto
  show thesis
  proof (cases "the_bytes v = []")
    case True
    then have "collect iroh_op_result_bytes op w1 = (Inr (0, 0, if v = Eof then 1 else 0), ?u)"
      using v x by (cases v) (simp_all add: collect_def iroh_op_result_bytes_def out_bytes_def FFI_OK_def)
    then show thesis using that [OF _ e] True by simp
  next
    case False
    then obtain b where b: "v = Bytes b" "b \<noteq> []" using v by (cases v) auto
    let ?p = "Suc (next_buf x)"
    let ?w2 = "?u\<lparr>bufs := [?p \<mapsto> b], next_buf := ?p\<rparr>"
    have c: "collect iroh_op_result_bytes op w1 = (Inr (?p, length b, if v = Eof then 1 else 0), ?w2)"
      using x b xb by (simp add: collect_def iroh_op_result_bytes_def out_bytes_def FFI_OK_def opFree_bufs)
    have "Map.empty(?p := None) = (Map.empty :: nat \<rightharpoonup> bytes)" by auto
    then have free: "free_bytes ?p (length b) ?w2 = ?u\<lparr>next_buf := ?p\<rparr>"
      using b ub by (cases ?u) (simp add: free_bytes_def)
    have slice: "unsafe_Slice ?p (length b) ?w2 = (b, ?w2)"
      using ub by (cases ?u) (simp add: unsafe_Slice_def)
    have "?u = w1\<lparr>reg := reg ?u, next_buf := next_buf ?u, awaiters := (awaiters w1)(op := None)\<rparr>"
      using e by (simp add: ends_def)
    then have "?u\<lparr>next_buf := ?p\<rparr> = w1\<lparr>reg := reg ?u, next_buf := ?p, awaiters := (awaiters w1)(op := None)\<rparr>"
      by (cases w1; cases ?u) simp
    then have "ends op {op} w1 (?u\<lparr>next_buf := ?p\<rparr>)" using e by (simp add: ends_def)
    then show thesis using that [OF c] free slice b by simp
  qed
qed

context operation
begin

lemma await_bytes_state:
  assumes aw: "await_collect iroh_op_result_bytes I c op w = Some (s, w2)" and ok: "world_ok k w"
    and wait: "waiting f A B okay op ((=) Started) w" and typed: "\<forall>v n. B (Inr v) n \<longrightarrow> is_bytes v"
  obtains (error) e x where "s = Inl e" "reaped (Suc k) okay op w w2" "B (Inl x) (net w2)" "await_error c x e w2"
  | (bytes) v p n u where "s = Inr (p, n, if v = Eof then 1 else 0)" "is_bytes v" "reaped (Suc k) okay op w u" "B (Inr v) (net u)"
    "if p \<noteq> 0 \<and> n > 0 then unsafe_Slice p n w2 = (the_bytes v, w2) \<and> free_bytes p n w2 = u \<and> the_bytes v \<noteq> []
     else w2 = u \<and> the_bytes v = []"
proof -
  obtain t w1 where aok: "await_ok I c op w = Some (t, w1)"
    and rest: "(case t of Inl err \<Rightarrow> Some (Inl err, w1) | Inr _ \<Rightarrow> Some (collect iroh_op_result_bytes op w1)) = Some (s, w2)"
    using aw by (auto simp: await_collect_def bind_eq_Some_conv)
  show thesis
  proof (cases t)
    case (Inl e)
    then show thesis using await_ok_rule [OF aok ok wait] rest error by auto
  next
    case (Inr z)
    then obtain v where v: "waiting f A B okay op ((=) Got) w1" "world_ok (Suc k + 2) w1"
        "result_of w1 op = Some (Inr v)" "B (Inr v) (net w1)"
        "set (script w1) \<subseteq> set (script w)" "length (script w1) < length (script w)" "evolves w w1"
      using await_ok_rule [OF aok ok wait] by auto
    have st: "pump_ok w1" "awaiters w1 op = Some Got" "bufs w1 = Map.empty" "\<not> fault w1"
      using v by (auto simp: world_ok_def waiting_def clean_def)
    obtain p n w2' u where c: "collect iroh_op_result_bytes op w1 = (Inr (p, n, if v = Eof then 1 else 0), w2')"
      "ends op {op} w1 u"
      "if p \<noteq> 0 \<and> n > 0 then unsafe_Slice p n w2' = (the_bytes v, w2') \<and> free_bytes p n w2' = u \<and> the_bytes v \<noteq> []
       else w2' = u \<and> the_bytes v = []"
      using collect_bytes [OF st(1,2) v(3) typed [rule_format, OF v(4)] st(3,4)] by metis
    note q = ends_quiet [OF v(1,2) c(2)]
    have "reaped (Suc k) okay op w u" "B (Inr v) (net u)" using q v evolves_trans [OF v(7) q(8)] unfolding reaped_def by auto
    moreover have s: "s = Inr (p, n, if v = Eof then 1 else 0)" "w2' = w2" using rest Inr c(1) by auto
    ultimately show thesis using bytes [of p n v u] c(3) [unfolded s(2)] typed [rule_format, OF v(4)] by blast
  qed
qed

lemma await_bytes_rule:
  assumes run: "AwaitBytes I c op w = Some (r, w')" and ok: "world_ok k w"
    and wait: "waiting f A B okay op ((=) Started) w" and typed: "\<forall>v n. B (Inr v) n \<longrightarrow> is_bytes v"
  shows "reaped (Suc k) okay op w w' \<and> ((\<exists>e x. r = Inl e \<and> B (Inl x) (net w') \<and> await_error c x e w') \<or>
      (\<exists>v. r = Inr (the_bytes v, v = Eof) \<and> B (Inr v) (net w')))"
proof -
  obtain s w2 where aw: "await_collect iroh_op_result_bytes I c op w = Some (s, w2)"
    and rest: "(case s of Inl err \<Rightarrow> Some (Inl err, w2)
       | Inr (p, n, eof) \<Rightarrow> (let (b, w3) = takeBytes p n w2 in Some (Inr (b, eof \<noteq> 0), w3))) = Some (r, w')"
    using run by (auto simp: AwaitBytes_def bind_eq_Some_conv)
  show ?thesis
  proof (cases rule: await_bytes_state [OF aw ok wait typed])
    case (1 e x)
    then show ?thesis using rest by auto
  next
    case (2 v p n u)
    then have "takeBytes p n w2 = (the_bytes v, u)" by (auto simp: takeBytes_def split: if_splits)
    then have "r = Inr (the_bytes v, v = Eof)" "w' = u" using rest 2(1) by (auto split: if_splits)
    then show ?thesis using 2 by auto
  qed
qed

lemma await_bytes_into_rule:
  assumes run: "AwaitBytesInto I c op dst w = Some (r, w')" and ok: "world_ok k w"
    and wait: "waiting f A B okay op ((=) Started) w" and typed: "\<forall>v n. B (Inr v) n \<longrightarrow> is_bytes v"
  shows "reaped (Suc k) okay op w w' \<and> ((\<exists>e x. r = Inl e \<and> B (Inl x) (net w') \<and> await_error c x e w') \<or>
      (\<exists>v n. r = Inr (n, take n (the_bytes v) @ drop n dst, v = Eof) \<and> n = min (length dst) (length (the_bytes v)) \<and>
         is_bytes v \<and> B (Inr v) (net w')))"
proof -
  obtain s w2 where aw: "await_collect iroh_op_result_bytes I c op w = Some (s, w2)"
    and rest: "(case s of Inl err \<Rightarrow> Some (Inl err, w2)
       | Inr (p, n, eof) \<Rightarrow>
         if p \<noteq> 0 \<and> n > 0
         then (let (b, w3) = unsafe_Slice p n w2; copied = min (length dst) (length b)
               in Some (Inr (copied, take copied b @ drop copied dst, eof \<noteq> 0), free_bytes p n w3))
         else Some (Inr (0, dst, eof \<noteq> 0), w2)) = Some (r, w')"
    using run by (auto simp: AwaitBytesInto_def bind_eq_Some_conv)
  show ?thesis
  proof (cases rule: await_bytes_state [OF aw ok wait typed])
    case (1 e x)
    then show ?thesis using rest by auto
  next
    case (2 v p n u)
    let ?n = "min (length dst) (length (the_bytes v))"
    have "r = Inr (?n, take ?n (the_bytes v) @ drop ?n dst, v = Eof) \<and> w' = u"
      using rest 2 by (auto simp: Let_def split: if_splits)
    then show ?thesis using 2 by auto
  qed
qed

end

end
