(* ===== verification/Calls.thy ===== *)
theory Calls
  imports Await_Rules
begin

text \<open>
  The asynchronous calls (\<^verbatim>\<open>internal/ffi/calls.go\<close>) with the library's entry points they go through
  (\<^verbatim>\<open>stream.rs\<close>, \<^verbatim>\<open>conn.rs\<close>, \<^verbatim>\<open>endpoint.rs\<close>): start the operation, wait for it, collect the result.
\<close>

subsection \<open>Entry points of the library\<close>

text \<open>Look the object up under its type; start the body, or an operation that has failed already.\<close>

definition spawn_on :: "(slot \<Rightarrow> 'a option) \<Rightarrow> u64 \<Rightarrow> future \<Rightarrow> ('n, 'z) lib_scheme \<Rightarrow> u64 \<times> ('n, 'z) lib_scheme" where
  "spawn_on as h f w = (case get_slot as h (reg w) of Inl e \<Rightarrow> spawn_ready (Inl e) w | Inr _ \<Rightarrow> spawn f w)"

definition iroh_send_write :: "u64 \<Rightarrow> bytes \<Rightarrow> ('n, 'z) lib_scheme \<Rightarrow> u64 \<times> ('n, 'z) lib_scheme" where
  "iroh_send_write h b = spawn_on as_send h (FWrite h b)"

definition iroh_send_finish :: "u64 \<Rightarrow> ('n, 'z) lib_scheme \<Rightarrow> u64 \<times> ('n, 'z) lib_scheme" where
  "iroh_send_finish h = spawn_on as_send h (FFinish h)"

definition iroh_send_reset :: "'n iroh \<Rightarrow> u64 \<Rightarrow> u64 \<Rightarrow> ('n, 'z) lib_scheme \<Rightarrow> u64 \<times> ('n, 'z) lib_scheme" where
  "iroh_send_reset I h code w = (case get_slot as_send h (reg w) of Inl e \<Rightarrow> spawn_ready (Inl e) w
     | Inr _ \<Rightarrow> (case i_varint I code of
         Inl m \<Rightarrow> spawn_ready (Inl (rerr InvalidInput (''bad reset code: '' @ m))) w
       | Inr c \<Rightarrow> spawn (FReset h c) w))"

definition iroh_send_set_priority :: "u64 \<Rightarrow> i32 \<Rightarrow> ('n, 'z) lib_scheme \<Rightarrow> u64 \<times> ('n, 'z) lib_scheme" where
  "iroh_send_set_priority h q = spawn_on as_send h (FSetPriority h q)"

definition iroh_send_stopped :: "u64 \<Rightarrow> ('n, 'z) lib_scheme \<Rightarrow> u64 \<times> ('n, 'z) lib_scheme" where
  "iroh_send_stopped h = spawn_on as_send h (FStopped h)"

definition iroh_recv_read :: "u64 \<Rightarrow> u64 \<Rightarrow> ('n, 'z) lib_scheme \<Rightarrow> u64 \<times> ('n, 'z) lib_scheme" where
  "iroh_recv_read h max_len w = (case get_slot as_recv h (reg w) of Inl e \<Rightarrow> spawn_ready (Inl e) w
     | Inr _ \<Rightarrow> if max_len = 0 then spawn_ready (Inl (rerr InvalidInput ''read length must be positive'')) w
       else spawn (FRead h max_len) w)"

definition iroh_recv_stop :: "'n iroh \<Rightarrow> u64 \<Rightarrow> u64 \<Rightarrow> ('n, 'z) lib_scheme \<Rightarrow> u64 \<times> ('n, 'z) lib_scheme" where
  "iroh_recv_stop I h code w = (case get_slot as_recv h (reg w) of Inl e \<Rightarrow> spawn_ready (Inl e) w
     | Inr _ \<Rightarrow> (case i_varint I code of
         Inl m \<Rightarrow> spawn_ready (Inl (rerr InvalidInput (''bad stop code: '' @ m))) w
       | Inr c \<Rightarrow> spawn (FStop h c) w))"

definition iroh_conn_open_bi :: "u64 \<Rightarrow> ('n, 'z) lib_scheme \<Rightarrow> u64 \<times> ('n, 'z) lib_scheme" where
  "iroh_conn_open_bi h = spawn_on as_conn h (FOpenBi h)"

definition iroh_conn_accept_bi :: "u64 \<Rightarrow> ('n, 'z) lib_scheme \<Rightarrow> u64 \<times> ('n, 'z) lib_scheme" where
  "iroh_conn_accept_bi h = spawn_on as_conn h (FAcceptBi h)"

definition iroh_conn_open_uni :: "u64 \<Rightarrow> ('n, 'z) lib_scheme \<Rightarrow> u64 \<times> ('n, 'z) lib_scheme" where
  "iroh_conn_open_uni h = spawn_on as_conn h (FOpenUni h)"

definition iroh_conn_accept_uni :: "u64 \<Rightarrow> ('n, 'z) lib_scheme \<Rightarrow> u64 \<times> ('n, 'z) lib_scheme" where
  "iroh_conn_accept_uni h = spawn_on as_conn h (FAcceptUni h)"

definition iroh_conn_read_datagram :: "u64 \<Rightarrow> ('n, 'z) lib_scheme \<Rightarrow> u64 \<times> ('n, 'z) lib_scheme" where
  "iroh_conn_read_datagram h = spawn_on as_conn h (FReadDatagram h)"

definition iroh_conn_closed :: "u64 \<Rightarrow> ('n, 'z) lib_scheme \<Rightarrow> u64 \<times> ('n, 'z) lib_scheme" where
  "iroh_conn_closed h = spawn_on as_conn h (FClosed h)"

definition iroh_endpoint_online :: "u64 \<Rightarrow> ('n, 'z) lib_scheme \<Rightarrow> u64 \<times> ('n, 'z) lib_scheme" where
  "iroh_endpoint_online h = spawn_on as_endpoint h (FOnline h)"

definition iroh_endpoint_accept :: "u64 \<Rightarrow> ('n, 'z) lib_scheme \<Rightarrow> u64 \<times> ('n, 'z) lib_scheme" where
  "iroh_endpoint_accept h = spawn_on as_endpoint h (FAccept h)"

definition iroh_endpoint_close :: "u64 \<Rightarrow> ('n, 'z) lib_scheme \<Rightarrow> u64 \<times> ('n, 'z) lib_scheme" where
  "iroh_endpoint_close h = spawn_on as_endpoint h (FEndpointClose h)"

text \<open>Freeing an object is the same for every type: its handle leaves the table.\<close>

definition free_handle :: "u64 \<Rightarrow> ('n, 'z) lib_scheme \<Rightarrow> ('n, 'z) lib_scheme" where
  "free_handle h w = w\<lparr>reg := snd (remove h (reg w))\<rparr>"

subsection \<open>The calls\<close>

text \<open>From here on the goroutine is the one that waits for the operation.\<close>

definition begin_op :: "u64 \<times> ('n, 'z) pump_scheme \<Rightarrow> u64 \<times> ('n, 'z) pump_scheme" where
  "begin_op r = (fst r, mark_started (fst r) (snd r))"

definition SendWrite :: "'n iroh \<Rightarrow> ctx \<Rightarrow> u64 \<Rightarrow> bytes \<Rightarrow> ('n, 'z) world_scheme \<Rightarrow>
    ((go_error + u64) \<times> ('n, 'z) world_scheme) option" where
  "SendWrite I c h data w = (let (op, w1) = begin_op (iroh_send_write h data w) in AwaitU64 I c op w1)"

definition SendFinish :: "'n iroh \<Rightarrow> ctx \<Rightarrow> u64 \<Rightarrow> ('n, 'z) world_scheme \<Rightarrow>
    (go_error option \<times> ('n, 'z) world_scheme) option" where
  "SendFinish I c h w = (let (op, w1) = begin_op (iroh_send_finish h w) in AwaitUnit I c op w1)"

definition SendReset :: "'n iroh \<Rightarrow> ctx \<Rightarrow> u64 \<Rightarrow> u64 \<Rightarrow> ('n, 'z) world_scheme \<Rightarrow>
    (go_error option \<times> ('n, 'z) world_scheme) option" where
  "SendReset I c h code w = (let (op, w1) = begin_op (iroh_send_reset I h code w) in AwaitUnit I c op w1)"

definition SendSetPriority :: "'n iroh \<Rightarrow> ctx \<Rightarrow> u64 \<Rightarrow> i32 \<Rightarrow> ('n, 'z) world_scheme \<Rightarrow>
    (go_error option \<times> ('n, 'z) world_scheme) option" where
  "SendSetPriority I c h q w = (let (op, w1) = begin_op (iroh_send_set_priority h q w) in AwaitUnit I c op w1)"

definition SendStopped :: "'n iroh \<Rightarrow> ctx \<Rightarrow> u64 \<Rightarrow> ('n, 'z) world_scheme \<Rightarrow>
    ((go_error + u64) \<times> ('n, 'z) world_scheme) option" where
  "SendStopped I c h w = (let (op, w1) = begin_op (iroh_send_stopped h w) in AwaitU64 I c op w1)"

definition RecvRead :: "'n iroh \<Rightarrow> ctx \<Rightarrow> u64 \<Rightarrow> bytes \<Rightarrow> ('n, 'z) world_scheme \<Rightarrow>
    ((go_error + nat \<times> bytes \<times> bool) \<times> ('n, 'z) world_scheme) option" where
  "RecvRead I c h dst w =
     (let (op, w1) = begin_op (iroh_recv_read h (of_nat (length dst)) w) in AwaitBytesInto I c op dst w1)"

definition RecvStop :: "'n iroh \<Rightarrow> ctx \<Rightarrow> u64 \<Rightarrow> u64 \<Rightarrow> ('n, 'z) world_scheme \<Rightarrow>
    (go_error option \<times> ('n, 'z) world_scheme) option" where
  "RecvStop I c h code w = (let (op, w1) = begin_op (iroh_recv_stop I h code w) in AwaitUnit I c op w1)"

definition ConnOpenBi :: "'n iroh \<Rightarrow> ctx \<Rightarrow> u64 \<Rightarrow> ('n, 'z) world_scheme \<Rightarrow>
    ((go_error + u64 \<times> u64) \<times> ('n, 'z) world_scheme) option" where
  "ConnOpenBi I c h w = (let (op, w1) = begin_op (iroh_conn_open_bi h w) in AwaitHandle2 I c op w1)"

definition ConnAcceptBi :: "'n iroh \<Rightarrow> ctx \<Rightarrow> u64 \<Rightarrow> ('n, 'z) world_scheme \<Rightarrow>
    ((go_error + u64 \<times> u64) \<times> ('n, 'z) world_scheme) option" where
  "ConnAcceptBi I c h w = (let (op, w1) = begin_op (iroh_conn_accept_bi h w) in AwaitHandle2 I c op w1)"

definition ConnOpenUni :: "'n iroh \<Rightarrow> ctx \<Rightarrow> u64 \<Rightarrow> ('n, 'z) world_scheme \<Rightarrow>
    ((go_error + u64) \<times> ('n, 'z) world_scheme) option" where
  "ConnOpenUni I c h w = (let (op, w1) = begin_op (iroh_conn_open_uni h w) in AwaitHandle I c op w1)"

definition ConnAcceptUni :: "'n iroh \<Rightarrow> ctx \<Rightarrow> u64 \<Rightarrow> ('n, 'z) world_scheme \<Rightarrow>
    ((go_error + u64) \<times> ('n, 'z) world_scheme) option" where
  "ConnAcceptUni I c h w = (let (op, w1) = begin_op (iroh_conn_accept_uni h w) in AwaitHandle I c op w1)"

definition ConnReadDatagram :: "'n iroh \<Rightarrow> ctx \<Rightarrow> u64 \<Rightarrow> ('n, 'z) world_scheme \<Rightarrow>
    ((go_error + bytes) \<times> ('n, 'z) world_scheme) option" where
  "ConnReadDatagram I c h w = (let (op, w1) = begin_op (iroh_conn_read_datagram h w) in
     map_option (\<lambda>(r, w2). (map_sum id fst r, w2)) (AwaitBytes I c op w1))"

definition ConnClosed :: "'n iroh \<Rightarrow> ctx \<Rightarrow> u64 \<Rightarrow> ('n, 'z) world_scheme \<Rightarrow>
    ((go_error + string) \<times> ('n, 'z) world_scheme) option" where
  "ConnClosed I c h w = (let (op, w1) = begin_op (iroh_conn_closed h w) in
     map_option (\<lambda>(r, w2). (map_sum id fst r, w2)) (AwaitBytes I c op w1))"

definition EndpointOnline :: "'n iroh \<Rightarrow> ctx \<Rightarrow> u64 \<Rightarrow> ('n, 'z) world_scheme \<Rightarrow>
    (go_error option \<times> ('n, 'z) world_scheme) option" where
  "EndpointOnline I c h w = (let (op, w1) = begin_op (iroh_endpoint_online h w) in AwaitUnit I c op w1)"

definition EndpointAccept :: "'n iroh \<Rightarrow> ctx \<Rightarrow> u64 \<Rightarrow> ('n, 'z) world_scheme \<Rightarrow>
    ((go_error + u64) \<times> ('n, 'z) world_scheme) option" where
  "EndpointAccept I c h w = (let (op, w1) = begin_op (iroh_endpoint_accept h w) in AwaitHandle I c op w1)"

definition EndpointClose :: "'n iroh \<Rightarrow> ctx \<Rightarrow> u64 \<Rightarrow> ('n, 'z) world_scheme \<Rightarrow>
    (go_error option \<times> ('n, 'z) world_scheme) option" where
  "EndpointClose I c h w = (let (op, w1) = begin_op (iroh_endpoint_close h w) in AwaitUnit I c op w1)"

definition SendFree :: "u64 \<Rightarrow> ('n, 'z) lib_scheme \<Rightarrow> ('n, 'z) lib_scheme" where "SendFree = free_handle"
definition RecvFree :: "u64 \<Rightarrow> ('n, 'z) lib_scheme \<Rightarrow> ('n, 'z) lib_scheme" where "RecvFree = free_handle"
definition ConnFree :: "u64 \<Rightarrow> ('n, 'z) lib_scheme \<Rightarrow> ('n, 'z) lib_scheme" where "ConnFree = free_handle"
definition EndpointFree :: "u64 \<Rightarrow> ('n, 'z) lib_scheme \<Rightarrow> ('n, 'z) lib_scheme" where "EndpointFree = free_handle"

end
