(* ===== verification/Call_Properties.thy ===== *)
theory Call_Properties
  imports Calls
begin

text \<open>
  What the asynchronous calls guarantee whatever the rest of the process does meanwhile: how they
  start, that a write and a read account for every byte, the rules by which a call leaves nothing
  behind, and that a call can always come back. \<open>Async_Calls\<close> has what holds of all of them.
\<close>

subsection \<open>Starting an operation\<close>

context operation
begin

text \<open>A call that starts the body, or fails at once, waits for the operation it got.\<close>

lemma begin_waiting:
  fixes w :: "'n world"
  assumes r: "(r = spawn f w \<and> A (net w)) \<or> (\<exists>e. r = spawn_ready (Inl e) w \<and> B (Inl e) (net w))"
    and ok: "world_ok (Suc (Suc k)) w" and q: "quiet okay w"
  shows "world_ok (Suc k) (snd (begin_op r))" "waiting f A B okay (fst r) ((=) Started) (snd (begin_op r))"
    "script (snd (begin_op r)) = script w" "evolves w (snd (begin_op r))"
proof -
  let ?op = "next_id (reg w)" and ?w = "snd (begin_op r)"
  have pok: "pump_ok w" and room: "room w 2" using ok by (auto simp: world_ok_def room_def)
  note inv = pump_okD [OF pok]
  note fresh = fresh_next [OF inv(2)]
  note nu = not_under_way [OF inv(1) fresh(3)]
  let ?v = "w\<lparr>reg := publish ?op (SOp Op_new) (reg w\<lparr>next_id := ?op + 1\<rparr>)\<rparr>"
  have lv: "live ?v ?op = Some (SOp Op_new)" by (simp add: live_simps)
  have op: "fst r = ?op" using r by (auto simp: spawn_def spawn_ready_def reserve_def)
  have ready: "spawn_ready (Inl e) w = (?op, ?v\<lparr>queue := queue w @ [(?op, status_of (Inl e))],
      reg := publish ?op (SOp (Op_new\<lparr>result := Some (Inl e)\<rparr>)) (reg ?v)\<rparr>)" for e
    by (simp add: spawn_ready_def reserve_def post_live [OF lv])
  have "pump_ok ?w"
    using r inv room fresh
    by (auto simp: begin_op_def pump_ok_def pump_inv_spawn lib_inv_spawn pump_inv_spawn_ready lib_inv_spawn_failed)
  moreover have "next_id (reg ?w) = ?op + 1" "script ?w = script w"
    using r by (auto simp: begin_op_def mark_started_def spawn_def reserve_def ready live_simps)
  ultimately show "world_ok (Suc k) ?w"
    using ok unat_plus_one_le [of ?op] by (auto simp: world_ok_def room_def)
  have "clean ?w" using q r
    by (auto simp: quiet_def clean_def begin_op_def mark_started_def spawn_def reserve_def ready live_simps split: if_splits)
  moreover have "op_state f A B okay ?op ?w"
    using r q nu(1)
    by (auto simp: op_state_def quiet_def begin_op_def mark_started_def spawn_def reserve_def ready
        result_of_def live_simps)
  ultimately show "waiting f A B okay (fst r) ((=) Started) ?w"
    using q r op by (auto simp: waiting_def quiet_def begin_op_def mark_started_def spawn_def reserve_def ready)
  show "script ?w = script w" by (fact \<open>script ?w = script w\<close>)
  show "evolves w ?w" using r word_succ_facts(1) [OF room [unfolded room_def]]
    by (auto simp: evolves_def begin_op_def mark_started_def spawn_def reserve_def ready live_simps split: if_splits)
qed

lemma start_waiting:
  fixes w :: "'n world"
  assumes r: "r = spawn f w \<or> (\<exists>e. r = spawn_ready (Inl e) w)" and ok: "world_ok (Suc (Suc k)) w"
    and q: "quiet okay w" and A: "A (net w)"
  shows "world_ok (Suc k) (snd (begin_op r))" "waiting f A B okay (fst r) ((=) Started) (snd (begin_op r))"
    "script (snd (begin_op r)) = script w" "evolves w (snd (begin_op r))"
proof -
  have "(r = spawn f w \<and> A (net w)) \<or> (\<exists>e. r = spawn_ready (Inl e) w \<and> B (Inl e) (net w))"
    using r A stopped by blast
  from begin_waiting [OF this ok q] show "world_ok (Suc k) (snd (begin_op r))"
    "waiting f A B okay (fst r) ((=) Started) (snd (begin_op r))" "script (snd (begin_op r)) = script w"
    "evolves w (snd (begin_op r))" .
qed

end

lemma reaped_begin:
  "reaped k okay op (snd (begin_op r)) w' \<Longrightarrow> evolves w (snd (begin_op r)) \<Longrightarrow> script (snd (begin_op r)) = script w \<Longrightarrow>
    reaped k okay op w w'"
  by (auto simp: reaped_def intro: evolves_trans)

lemma spawn_on_cases: "spawn_on as h f w = spawn f w \<or> (\<exists>e. spawn_on as h f w = spawn_ready (Inl e) w)"
  by (auto simp: spawn_on_def split: sum.split)

text \<open>The kind of value every body produces.\<close>

fun yields :: "future \<Rightarrow> op_value \<Rightarrow> bool" where
  "yields (FWrite h b) v = is_u64 v"
| "yields (FStopped h) v = is_u64 v"
| "yields (FRead h m) v = is_bytes v"
| "yields (FReadDatagram h) v = is_bytes v"
| "yields (FClosed h) v = is_bytes v"
| "yields (FRemoteInfo h i) v = is_bytes v"
| "yields (FOpenBi h) v = is_handle2 v"
| "yields (FAcceptBi h) v = is_handle2 v"
| "yields (FOpenUni h) v = is_handle v"
| "yields (FAcceptUni h) v = is_handle v"
| "yields (FAccept h) v = is_handle v"
| "yields (FBind q) v = is_handle v"
| "yields (FConnect h a p) v = is_handle v"
| "yields _ v \<longleftrightarrow> v = Unit"

definition typed_result :: "future \<Rightarrow> rust_error + op_value \<Rightarrow> 'n \<Rightarrow> bool" where
  "typed_result f r n = (case r of Inl _ \<Rightarrow> True | Inr v \<Rightarrow> yields f v)"

interpretation typed: operation I f "\<lambda>_. True" "typed_result f" "\<lambda>_. True" for I f
  by unfold_locales
    (cases f; auto simp: typed_result_def yield_handle_def yield_stream_pair_def Let_def
      split: prod.splits sum.splits option.splits)+

subsection \<open>What the network owes a stream\<close>

text \<open>Every method of the crate but write and read leaves an observation of the network as it is.\<close>

definition leaves :: "'n iroh \<Rightarrow> ('n \<Rightarrow> 'a) \<Rightarrow> bool" where
  "leaves I obs \<longleftrightarrow>
     (\<forall>h n. obs (i_finish I h n) = obs n) \<and> (\<forall>h c n. obs (i_reset I h c n) = obs n) \<and>
     (\<forall>h q n. obs (snd (i_set_priority I h q n)) = obs n) \<and> (\<forall>h n. obs (snd (i_stopped I h n)) = obs n) \<and>
     (\<forall>h c n. obs (i_stop I h c n) = obs n) \<and> (\<forall>h hs n. obs (snd (i_open_bi I h hs n)) = obs n) \<and>
     (\<forall>h hs n. obs (snd (i_accept_bi I h hs n)) = obs n) \<and> (\<forall>h x n. obs (snd (i_open_uni I h x n)) = obs n) \<and>
     (\<forall>h x n. obs (snd (i_accept_uni I h x n)) = obs n) \<and> (\<forall>h n. obs (snd (i_read_datagram I h n)) = obs n) \<and>
     (\<forall>h n. obs (snd (i_closed I h n)) = obs n) \<and> (\<forall>h n. obs (i_online I h n) = obs n) \<and>
     (\<forall>h x n. obs (snd (i_accept I h x n)) = obs n) \<and> (\<forall>h n. obs (i_close I h n) = obs n) \<and>
     (\<forall>b x n. obs (snd (i_bind I b x n)) = obs n) \<and> (\<forall>h a p x n. obs (snd (i_connect I h a p x n)) = obs n) \<and>
     (\<forall>h i n. obs (snd (i_remote_info I h i n)) = obs n)"

text \<open>
  The documented behaviour of a QUIC stream's write: it appends a prefix of what it is given to what
  the stream has accepted and says how long the prefix was, or it fails and appends nothing.
\<close>

definition write_law :: "'n iroh \<Rightarrow> ('n \<Rightarrow> u64 \<Rightarrow> bytes) \<Rightarrow> bool" where
  "write_law I sent \<longleftrightarrow> leaves I sent \<and> (\<forall>h m n. sent (snd (i_read_chunk I h m n)) = sent n) \<and>
     (\<forall>h b n. case i_write I h b n of
        (Inr k, n') \<Rightarrow> unat k \<le> length b \<and> sent n' = (sent n)(h := sent n h @ take (unat k) b)
      | (Inl _, n') \<Rightarrow> sent n' = sent n)"

text \<open>And of its read: the next bytes of the stream, at most as many as asked for, or nothing at all.\<close>

definition read_law :: "'n iroh \<Rightarrow> ('n \<Rightarrow> u64 \<Rightarrow> bytes) \<Rightarrow> bool" where
  "read_law I got \<longleftrightarrow> leaves I got \<and> (\<forall>h b n. got (snd (i_write I h b n)) = got n) \<and>
     (\<forall>h m n. case i_read_chunk I h m n of
        (Inr (Some b), n') \<Rightarrow> b \<noteq> [] \<and> length b \<le> unat m \<and> got n' = (got n)(h := got n h @ b)
      | (_, n') \<Rightarrow> got n' = got n)"

lemma run_body_leaves:
  assumes "leaves I obs" and "\<And>h b. f \<noteq> FWrite h b" and "\<And>h m. f \<noteq> FRead h m"
  shows "obs (net (snd (run_body I f w))) = obs (net w)"
  using assms
  by (cases f) (auto simp: leaves_def yield_handle_def yield_stream_pair_def Let_def
      split: prod.splits sum.splits option.splits; metis snd_conv)+

definition write_done :: "('n \<Rightarrow> u64 \<Rightarrow> bytes) \<Rightarrow> u64 \<Rightarrow> bytes \<Rightarrow> bytes \<Rightarrow> rust_error + op_value \<Rightarrow> 'n \<Rightarrow> bool" where
  "write_done sent h old b r n = (case r of
     Inr v \<Rightarrow> is_u64 v \<and> unat (the_u64 v) \<le> length b \<and> sent n h = old @ take (unat (the_u64 v)) b
   | Inl _ \<Rightarrow> sent n h = old)"

definition read_done :: "('n \<Rightarrow> u64 \<Rightarrow> bytes) \<Rightarrow> u64 \<Rightarrow> bytes \<Rightarrow> u64 \<Rightarrow> rust_error + op_value \<Rightarrow> 'n \<Rightarrow> bool" where
  "read_done got h old m r n = (case r of
     Inr v \<Rightarrow> is_bytes v \<and> length (the_bytes v) \<le> unat m \<and> (the_bytes v = [] \<longleftrightarrow> v = Eof) \<and>
       got n h = old @ the_bytes v
   | Inl _ \<Rightarrow> got n h = old)"

definition not_write :: "u64 \<Rightarrow> future \<Rightarrow> bool" where
  "not_write h g \<longleftrightarrow> (\<forall>b. g \<noteq> FWrite h b)"

definition not_read :: "u64 \<Rightarrow> future \<Rightarrow> bool" where
  "not_read h g \<longleftrightarrow> (\<forall>m. g \<noteq> FRead h m)"

lemma write_lawD:
  assumes "write_law I sent"
  shows "i_write I h b n = (Inr k, n') \<Longrightarrow> unat k \<le> length b \<and> sent n' = (sent n)(h := sent n h @ take (unat k) b)"
    and "i_write I h b n = (Inl e, n') \<Longrightarrow> sent n' = sent n"
    and "i_read_chunk I h m n = (r, n') \<Longrightarrow> sent n' = sent n" and "leaves I sent"
proof -
  note law = assms [unfolded write_law_def]
  show "i_write I h b n = (Inr k, n') \<Longrightarrow> unat k \<le> length b \<and> sent n' = (sent n)(h := sent n h @ take (unat k) b)"
    "i_write I h b n = (Inl e, n') \<Longrightarrow> sent n' = sent n"
    using law [THEN conjunct2, THEN conjunct2, THEN spec [of _ h], THEN spec [of _ b], THEN spec [of _ n]] by auto
  show "i_read_chunk I h m n = (r, n') \<Longrightarrow> sent n' = sent n"
    using law [THEN conjunct2, THEN conjunct1, THEN spec [of _ h], THEN spec [of _ m], THEN spec [of _ n]] by simp
  show "leaves I sent" using law by simp
qed

lemma read_lawD:
  assumes "read_law I got"
  shows "i_read_chunk I h m n = (Inr (Some b), n') \<Longrightarrow>
      b \<noteq> [] \<and> length b \<le> unat m \<and> got n' = (got n)(h := got n h @ b)"
    and "i_read_chunk I h m n = (Inr None, n') \<Longrightarrow> got n' = got n"
    and "i_read_chunk I h m n = (Inl e, n') \<Longrightarrow> got n' = got n"
    and "i_write I h b n = (r, n') \<Longrightarrow> got n' = got n" and "leaves I got"
proof -
  note law = assms [unfolded read_law_def]
  show "i_read_chunk I h m n = (Inr (Some b), n') \<Longrightarrow>
      b \<noteq> [] \<and> length b \<le> unat m \<and> got n' = (got n)(h := got n h @ b)"
    "i_read_chunk I h m n = (Inr None, n') \<Longrightarrow> got n' = got n"
    "i_read_chunk I h m n = (Inl e, n') \<Longrightarrow> got n' = got n"
    using law [THEN conjunct2, THEN conjunct2, THEN spec [of _ h], THEN spec [of _ m], THEN spec [of _ n]] by auto
  show "i_write I h b n = (r, n') \<Longrightarrow> got n' = got n"
    using law [THEN conjunct2, THEN conjunct1, THEN spec [of _ h], THEN spec [of _ b], THEN spec [of _ n]] by simp
  show "leaves I got" using law by simp
qed

lemma write_law_body:
  assumes law: "write_law I sent" and "not_write h g"
  shows "sent (net (snd (run_body I g w))) h = sent (net w) h"
proof (cases "(\<exists>x b. g = FWrite x b) \<or> (\<exists>x m. g = FRead x m)")
  case True
  then show ?thesis using assms(2) write_lawD(1-3) [OF law]
    by (fastforce simp: not_write_def split: prod.splits sum.splits option.splits)
next
  case False
  then show ?thesis using run_body_leaves [OF write_lawD(4) [OF law], of g w] by simp
qed

lemma read_law_body:
  assumes law: "read_law I got" and "not_read h g"
  shows "got (net (snd (run_body I g w))) h = got (net w) h"
proof (cases "(\<exists>x b. g = FWrite x b) \<or> (\<exists>x m. g = FRead x m)")
  case True
  then show ?thesis using assms(2) read_lawD(1-4) [OF law]
    by (fastforce simp: not_read_def split: prod.splits sum.splits option.splits)
next
  case False
  then show ?thesis using run_body_leaves [OF read_lawD(5) [OF law], of g w] by simp
qed

text \<open>An observation of the network that no body in \<open>okay\<close> changes.\<close>

definition steady :: "'n iroh \<Rightarrow> (future \<Rightarrow> bool) \<Rightarrow> ('n \<Rightarrow> 'a) \<Rightarrow> bool" where
  "steady I okay obs \<longleftrightarrow> (\<forall>g (w :: 'n world). okay g \<longrightarrow> obs (net (snd (run_body I g w))) = obs (net w))"

text \<open>
  Everyone else in \<open>okay\<close> keeps off the writing (or reading) of the stream \<open>h\<close>, and neither they nor
  the writes (or reads) of that stream touch the observation \<open>obs\<close>.
\<close>

definition writes_beside :: "'n iroh \<Rightarrow> u64 \<Rightarrow> (future \<Rightarrow> bool) \<Rightarrow> ('n \<Rightarrow> 'a) \<Rightarrow> bool" where
  "writes_beside I h okay obs \<longleftrightarrow>
     (\<forall>g. okay g \<longrightarrow> not_write h g) \<and> steady I okay obs \<and> (\<forall>b n. obs (snd (i_write I h b n)) = obs n)"

definition reads_beside :: "'n iroh \<Rightarrow> u64 \<Rightarrow> (future \<Rightarrow> bool) \<Rightarrow> ('n \<Rightarrow> 'a) \<Rightarrow> bool" where
  "reads_beside I h okay obs \<longleftrightarrow>
     (\<forall>g. okay g \<longrightarrow> not_read h g) \<and> steady I okay obs \<and> (\<forall>m n. obs (snd (i_read_chunk I h m n)) = obs n)"

lemma writes_beside_alone: "writes_beside I h (not_write h) (\<lambda>_. ())"
  by (simp add: writes_beside_def steady_def)

lemma reads_beside_alone: "reads_beside I h (not_read h) (\<lambda>_. ())"
  by (simp add: reads_beside_def steady_def)

lemma write_operation:
  fixes I :: "'n iroh"
  assumes law: "write_law I sent" and beside: "writes_beside I h okay obs"
  shows "operation I (FWrite h b) (\<lambda>n. sent n h = old \<and> obs n = v) (\<lambda>r n. write_done sent h old b r n \<and> obs n = v) okay"
proof unfold_locales
  have o: "obs (snd (i_write I h b n)) = obs n" for b n using beside by (simp add: writes_beside_def)
  show "write_done sent h old b r (net w') \<and> obs (net w') = v"
    if "sent (net w) h = old \<and> obs (net w) = v" "run_body I (FWrite h b) w = (r, w')" for w r w'
    using that write_lawD(1,2) [OF law] o [of b "net w"]
    by (fastforce simp: write_done_def split: prod.splits sum.splits)
  show "sent n h = old \<and> obs n = v \<Longrightarrow> write_done sent h old b (Inl e) n \<and> obs n = v" for n e by (simp add: write_done_def)
  have body: "sent (net (snd (run_body I g w))) h = sent (net w) h" "obs (net (snd (run_body I g w))) = obs (net w)"
    if "okay g" for g and w :: "'n world" using beside that write_law_body [OF law, of h g w] by (auto simp: writes_beside_def steady_def)
  show "okay g \<Longrightarrow> sent (net w) h = old \<and> obs (net w) = v \<Longrightarrow>
      sent (net (snd (run_body I g w))) h = old \<and> obs (net (snd (run_body I g w))) = v" for g and w :: "'n world"
    by (simp add: body)
  show "write_done sent h old b r (net (snd (run_body I g w))) \<and> obs (net (snd (run_body I g w))) = v"
    if "okay g" "write_done sent h old b r (net w) \<and> obs (net w) = v" for g r and w :: "'n world"
    using that body [OF that(1), of w] by (simp add: write_done_def split: sum.splits)
qed

lemma read_operation:
  fixes I :: "'n iroh"
  assumes law: "read_law I got" and beside: "reads_beside I h okay obs"
  shows "operation I (FRead h m) (\<lambda>n. got n h = old \<and> obs n = v) (\<lambda>r n. read_done got h old m r n \<and> obs n = v) okay"
proof unfold_locales
  have o: "obs (snd (i_read_chunk I h m n)) = obs n" for m n using beside by (simp add: reads_beside_def)
  show "read_done got h old m r (net w') \<and> obs (net w') = v"
    if "got (net w) h = old \<and> obs (net w) = v" "run_body I (FRead h m) w = (r, w')" for w r w'
    using that read_lawD(1-3) [OF law] o [of m "net w"]
    by (fastforce simp: read_done_def split: prod.splits sum.splits option.splits)
  show "got n h = old \<and> obs n = v \<Longrightarrow> read_done got h old m (Inl e) n \<and> obs n = v" for n e by (simp add: read_done_def)
  have body: "got (net (snd (run_body I g w))) h = got (net w) h" "obs (net (snd (run_body I g w))) = obs (net w)"
    if "okay g" for g and w :: "'n world" using beside that read_law_body [OF law, of h g w] by (auto simp: reads_beside_def steady_def)
  show "okay g \<Longrightarrow> got (net w) h = old \<and> obs (net w) = v \<Longrightarrow>
      got (net (snd (run_body I g w))) h = old \<and> obs (net (snd (run_body I g w))) = v" for g and w :: "'n world"
    by (simp add: body)
  show "read_done got h old m r (net (snd (run_body I g w))) \<and> obs (net (snd (run_body I g w))) = v"
    if "okay g" "read_done got h old m r (net w) \<and> obs (net w) = v" for g r and w :: "'n world"
    using that body [OF that(1), of w] by (simp add: read_done_def split: sum.splits)
qed

subsection \<open>Exactness of writes and reads\<close>

lemma send_write_rule:
  fixes w :: "'n world"
  assumes law: "write_law I sent" and beside: "writes_beside I h okay obs" and run: "SendWrite I c h b w = Some (r, w')"
    and ok: "world_ok (Suc (Suc k)) w" and q: "quiet okay w"
  shows "reaped (Suc (Suc k)) okay (next_id (reg w)) w w'"
    and "case r of Inr n \<Rightarrow> unat n \<le> length b \<and> sent (net w') h = sent (net w) h @ take (unat n) b
        | Inl e \<Rightarrow> sent (net w') h = sent (net w) h"
    and "obs (net w') = obs (net w)"
    and "r = Inl e \<Longrightarrow> \<exists>x. await_error c x e w'"
proof -
  note op = write_operation [OF law beside, of b "sent (net w) h" "obs (net w)"]
  let ?r = "iroh_send_write h b w"
  have sp: "?r = spawn (FWrite h b) w \<or> (\<exists>e. ?r = spawn_ready (Inl e) w)"
    unfolding iroh_send_write_def by (rule spawn_on_cases)
  then have id: "fst ?r = next_id (reg w)" by (auto simp: spawn_def spawn_ready_def reserve_def)
  note st = operation.start_waiting [OF op sp ok q conjI [OF refl refl]]
  have aw: "await_collect iroh_op_result_u64 I c (fst ?r) (snd (begin_op ?r)) = Some (r, w')"
    using run by (simp add: SendWrite_def AwaitU64_def begin_op_def)
  have typed: "\<forall>v n. write_done sent h (sent (net w) h) b (Inr v) n \<and> obs n = obs (net w) \<longrightarrow> is_u64 v"
    by (simp add: write_done_def)
  note rule = operation.await_collect_rule [OF op aw st(1,2) result_u64_typed typed]
  show "reaped (Suc (Suc k)) okay (next_id (reg w)) w w'"
    using reaped_begin [OF rule(1) st(4,3)] by (simp add: id)
  show "case r of Inr n \<Rightarrow> unat n \<le> length b \<and> sent (net w') h = sent (net w) h @ take (unat n) b
        | Inl e \<Rightarrow> sent (net w') h = sent (net w) h"
    using rule(2) by (auto simp: write_done_def)
  show "obs (net w') = obs (net w)" using rule(2) by auto
  show "\<exists>x. await_error c x e w'" if "r = Inl e" using rule(2) that by auto
qed

lemma recv_read_rule:
  fixes w :: "'n world"
  assumes law: "read_law I got" and beside: "reads_beside I h okay obs" and run: "RecvRead I c h dst w = Some (r, w')"
    and ok: "world_ok (Suc (Suc k)) w" and q: "quiet okay w" and len: "length dst < 2 ^ 64"
  shows "reaped (Suc (Suc k)) okay (next_id (reg w)) w w'"
    and "case r of
          Inr (n, dst', eof) \<Rightarrow> n \<le> length dst \<and> length dst' = length dst \<and> drop n dst' = drop n dst \<and>
            got (net w') h = got (net w) h @ take n dst' \<and> (eof \<longleftrightarrow> n = 0)
        | Inl e \<Rightarrow> got (net w') h = got (net w) h"
    and "obs (net w') = obs (net w)"
    and "r = Inl e \<Longrightarrow> \<exists>x. await_error c x e w'"
proof -
  let ?m = "of_nat (length dst) :: u64"
  note op = read_operation [OF law beside, of ?m "got (net w) h" "obs (net w)"]
  let ?r = "iroh_recv_read h ?m w"
  have sp: "?r = spawn (FRead h ?m) w \<or> (\<exists>e. ?r = spawn_ready (Inl e) w)"
    by (auto simp: iroh_recv_read_def split: sum.split)
  then have id: "fst ?r = next_id (reg w)" by (auto simp: spawn_def spawn_ready_def reserve_def)
  note st = operation.start_waiting [OF op sp ok q conjI [OF refl refl]]
  have aw: "AwaitBytesInto I c (fst ?r) dst (snd (begin_op ?r)) = Some (r, w')"
    using run by (simp add: RecvRead_def begin_op_def)
  have typed: "\<forall>v n. read_done got h (got (net w) h) ?m (Inr v) n \<and> obs n = obs (net w) \<longrightarrow> is_bytes v"
    by (simp add: read_done_def)
  note rule = operation.await_bytes_into_rule [OF op aw st(1,2) typed]
  have m: "unat ?m = length dst" using len by (simp add: unat_of_nat take_bit_nat_eq_self)
  show "reaped (Suc (Suc k)) okay (next_id (reg w)) w w'"
    using reaped_begin [OF conjunct1 [OF rule] st(4,3)] by (simp add: id)
  show "case r of
          Inr (n, dst', eof) \<Rightarrow> n \<le> length dst \<and> length dst' = length dst \<and> drop n dst' = drop n dst \<and>
            got (net w') h = got (net w) h @ take n dst' \<and> (eof \<longleftrightarrow> n = 0)
        | Inl e \<Rightarrow> got (net w') h = got (net w) h"
    using rule by (auto simp: read_done_def m min_def)
  show "obs (net w') = obs (net w)" using rule by auto
  show "\<exists>x. await_error c x e w'" if "r = Inl e" using rule that by auto
qed

text \<open>
  One write on a stream is exact whatever happens meanwhile, a cancellation of its context
  included: a count returned is the number of bytes of the data the stream accepted, and an error
  means it accepted none.
\<close>

theorem send_write_exact:
  fixes w :: "'n world"
  assumes "SendWrite I c h b w = Some (r, w')" and "write_law I sent" and "world_ok 2 w"
    and "quiet (not_write h) w"
  shows "case r of Inr n \<Rightarrow> unat n \<le> length b \<and> sent (net w') h = sent (net w) h @ take (unat n) b
        | Inl e \<Rightarrow> sent (net w') h = sent (net w) h"
  using send_write_rule(2) [OF assms(2) writes_beside_alone assms(1), of 0] assms(3,4) by (simp add: numeral_2_eq_2)

text \<open>
  C26: one read from a stream is exact too: the bytes that left the stream are the ones now at the
  front of the caller's buffer, nothing behind them is overwritten, the end of the stream is
  reported exactly when there were none, and an error, a cancellation included, consumed nothing.
\<close>

theorem recv_read_exact:
  fixes w :: "'n world"
  assumes "RecvRead I c h dst w = Some (r, w')" and "read_law I got" and "world_ok 2 w"
    and "quiet (not_read h) w" and "length dst < 2 ^ 64"
  shows "case r of
          Inr (n, dst', eof) \<Rightarrow> n \<le> length dst \<and> length dst' = length dst \<and> drop n dst' = drop n dst \<and>
            got (net w') h = got (net w) h @ take n dst' \<and> (eof \<longleftrightarrow> n = 0)
        | Inl e \<Rightarrow> got (net w') h = got (net w) h"
  using recv_read_rule(2) [OF assms(2) reads_beside_alone assms(1), of 0] assms(3,4,5) by (simp add: numeral_2_eq_2)

subsection \<open>No call leaves anything behind\<close>

lemma reap_unit:
  fixes w :: "'n world"
  assumes "AwaitUnit I c (fst s) (snd (begin_op s)) = Some (r, w')" and "world_ok 2 w" and "quiet (\<lambda>_. True) w"
    and "s = spawn f w \<or> (\<exists>e. s = spawn_ready (Inl e) w)" and "\<forall>v. yields f v \<longrightarrow> value_handles v = []"
  shows "reaped 2 (\<lambda>_. True) (next_id (reg w)) w w'"
proof -
  have id: "fst s = next_id (reg w)" using assms(4) by (auto simp: spawn_def spawn_ready_def reserve_def)
  note st = typed.start_waiting [OF assms(4) assms(2) [unfolded numeral_2_eq_2] assms(3) TrueI]
  have "\<forall>v n. typed_result f (Inr v) n \<longrightarrow> value_handles v = []" using assms(5) by (simp add: typed_result_def)
  from reaped_begin [OF typed.await_unit_rule(1) [OF assms(1) st(1,2) this] st(4,3)] show ?thesis by (simp add: id numeral_2_eq_2)
qed

lemma reap_collect:
  fixes w :: "'n world"
  assumes "await_collect call I c (fst s) (snd (begin_op s)) = Some (r, w')" and "world_ok 2 w" and "quiet (\<lambda>_. True) w"
    and "s = spawn f w \<or> (\<exists>e. s = spawn_ready (Inl e) w)"
    and "\<forall>v u u'. take_op (fst s) u = (Inr v, u') \<longrightarrow> P v \<longrightarrow> call (fst s) u = ((0, get v, 0), u')"
    and "\<forall>v. yields f v \<longrightarrow> P v"
  shows "reaped 2 (\<lambda>_. True) (next_id (reg w)) w w'"
proof -
  have id: "fst s = next_id (reg w)" using assms(4) by (auto simp: spawn_def spawn_ready_def reserve_def)
  note st = typed.start_waiting [OF assms(4) assms(2) [unfolded numeral_2_eq_2] assms(3) TrueI]
  have "\<forall>v n. typed_result f (Inr v) n \<longrightarrow> P v" using assms(6) by (simp add: typed_result_def)
  from reaped_begin [OF typed.await_collect_rule(1) [OF assms(1) st(1,2) assms(5) this] st(4,3)]
  show ?thesis by (simp add: id numeral_2_eq_2)
qed

lemma reap_bytes:
  fixes w :: "'n world"
  assumes "AwaitBytes I c (fst s) (snd (begin_op s)) = Some (r, w') \<or>
      AwaitBytesInto I c (fst s) dst (snd (begin_op s)) = Some (r', w')"
    and "world_ok 2 w" and "quiet (\<lambda>_. True) w"
    and "s = spawn f w \<or> (\<exists>e. s = spawn_ready (Inl e) w)" and "\<forall>v. yields f v \<longrightarrow> is_bytes v"
  shows "reaped 2 (\<lambda>_. True) (next_id (reg w)) w w'"
proof -
  have id: "fst s = next_id (reg w)" using assms(4) by (auto simp: spawn_def spawn_ready_def reserve_def)
  note st = typed.start_waiting [OF assms(4) assms(2) [unfolded numeral_2_eq_2] assms(3) TrueI]
  have t: "\<forall>v n. typed_result f (Inr v) n \<longrightarrow> is_bytes v" using assms(5) by (simp add: typed_result_def)
  from assms(1) show ?thesis
    using typed.await_bytes_rule [OF _ st(1,2) t, of I c r w'] typed.await_bytes_into_rule [OF _ st(1,2) t, of I c dst r' w']
      reaped_begin [OF _ st(4,3)] by (auto simp: id numeral_2_eq_2)
qed

lemma reap_unit_call:
  fixes w :: "'n world"
  assumes "(let (op, w1) = begin_op s in AwaitUnit I c op w1) = Some (r, w')" and "world_ok 2 w" and "quiet (\<lambda>_. True) w"
    and "s = spawn f w \<or> (\<exists>e. s = spawn_ready (Inl e) w)" and "\<forall>v. yields f v \<longrightarrow> value_handles v = []"
  shows "reaped 2 (\<lambda>_. True) (next_id (reg w)) w w'"
  using reap_unit [OF _ assms(2-5)] assms(1) by (simp add: begin_op_def)

lemma reap_handle_call:
  fixes w :: "'n world"
  assumes "(let (op, w1) = begin_op s in AwaitHandle I c op w1) = Some (r, w')" and "world_ok 2 w" and "quiet (\<lambda>_. True) w"
    and "s = spawn f w \<or> (\<exists>e. s = spawn_ready (Inl e) w)" and "\<forall>v. yields f v \<longrightarrow> is_handle v"
  shows "reaped 2 (\<lambda>_. True) (next_id (reg w)) w w'"
  using reap_collect [where call = iroh_op_result_handle and get = the_handle and P = is_handle, OF _ assms(2-4) result_handle_typed assms(5)] assms(1)
  by (simp add: AwaitHandle_def begin_op_def)

lemma reap_handle2_call:
  fixes w :: "'n world"
  assumes "(let (op, w1) = begin_op s in AwaitHandle2 I c op w1) = Some (r, w')" and "world_ok 2 w" and "quiet (\<lambda>_. True) w"
    and "s = spawn f w \<or> (\<exists>e. s = spawn_ready (Inl e) w)" and "\<forall>v. yields f v \<longrightarrow> is_handle2 v"
  shows "reaped 2 (\<lambda>_. True) (next_id (reg w)) w w'"
  using reap_collect [where call = iroh_op_result_handle2 and get = the_handle2 and P = is_handle2, OF _ assms(2-4) result_handle2_typed assms(5)] assms(1)
  by (simp add: AwaitHandle2_def begin_op_def)

lemma reap_u64_call:
  fixes w :: "'n world"
  assumes "(let (op, w1) = begin_op s in AwaitU64 I c op w1) = Some (r, w')" and "world_ok 2 w" and "quiet (\<lambda>_. True) w"
    and "s = spawn f w \<or> (\<exists>e. s = spawn_ready (Inl e) w)" and "\<forall>v. yields f v \<longrightarrow> is_u64 v"
  shows "reaped 2 (\<lambda>_. True) (next_id (reg w)) w w'"
  using reap_collect [where call = iroh_op_result_u64 and get = the_u64 and P = is_u64, OF _ assms(2-4) result_u64_typed assms(5)] assms(1)
  by (simp add: AwaitU64_def begin_op_def)

lemma reap_bytes_call:
  fixes w :: "'n world"
  assumes "(let (op, w1) = begin_op s in map_option (\<lambda>(r, w2). (map_sum id fst r, w2)) (AwaitBytes I c op w1)) = Some (r, w') \<or>
     (let (op, w1) = begin_op s in AwaitBytesInto I c op dst w1) = Some (r', w')"
    and "world_ok 2 w" and "quiet (\<lambda>_. True) w"
    and "s = spawn f w \<or> (\<exists>e. s = spawn_ready (Inl e) w)" and "\<forall>v. yields f v \<longrightarrow> is_bytes v"
  shows "reaped 2 (\<lambda>_. True) (next_id (reg w)) w w'"
proof -
  obtain x where "AwaitBytes I c (fst s) (snd (begin_op s)) = Some (x, w') \<or>
      AwaitBytesInto I c (fst s) dst (snd (begin_op s)) = Some (r', w')"
    using assms(1) by (auto simp: begin_op_def)
  from reap_bytes [OF this assms(2-5)] show ?thesis .
qed

subsection \<open>A world for the examples\<close>

definition world_init :: "'n \<Rightarrow> env list \<Rightarrow> 'n world" where
  "world_init n es = \<lparr>reg = registry_init, queue = [], shut = False, tasks = Map.empty, bufs = Map.empty,
     next_buf = 0, fault = False, net = n, waiters = Map.empty, unclaimed = Map.empty,
     chans = (\<lambda>_. []), next_chan = 0, pump_pc = PumpIdle, awaiters = Map.empty,
     ctxs = (\<lambda>_. \<lparr>ctx_err = None, ctx_deadline = None\<rparr>), next_ctx = 0, now = 0,
     streams = (\<lambda>_. \<lparr>sh = 0, smu = Unlocked, sdl = no_deadline, sconn = 0\<rparr>), next_stream = 0,
     conns = (\<lambda>_. \<lparr>ch = 0, cendpoint = 0, cmu = Unlocked, cremote = zero_id\<rparr>), next_conn = 0,
     endpoints = (\<lambda>_. \<lparr>eh = 0, eid = zero_id\<rparr>), next_endpoint = 0,
     sconns = (\<lambda>_. \<lparr>nc_send = 0, nc_recv = 0, nc_local = zero_id, nc_remote = zero_id, nc_once = NotRun, nc_closeErr = None, nc_closed = False\<rparr>),
     next_sconn = 0, script = es\<rparr>"

text \<open>The same with one object in the library, under handle 1.\<close>

definition world_with :: "slot \<Rightarrow> 'n \<Rightarrow> env list \<Rightarrow> 'n world" where
  "world_with s n es = (let w = world_init n es in w\<lparr>reg := snd (insert_slot s (reg w))\<rparr>)"

lemma pump_ok_world_init: "pump_ok (world_init n es)"
  using pump_ok_init [of n]
  by (subst pump_ok_cong [where w = "pump_init n"]) (simp_all add: world_init_def pump_init_def)

lemma world_ok_with:
  assumes "is_object (Some s)" and "length es < 1000"
  shows "world_ok 2 (world_with s n es)"
proof -
  let ?w = "world_init n es" and ?v = "world_with s n es"
  have v: "?v = ?w\<lparr>reg := snd (insert_slot s registry_init)\<rparr>" by (simp add: world_with_def world_init_def)
  note inv = pump_okD [OF pump_ok_world_init, of n es]
  have "pump_inv ?v" using inv(1) by (simp add: v)
  moreover have "lib_inv ?v"
    by (rule lib_invI) (use object_not_op [OF assms(1)] in \<open>auto simp: v world_init_def live_simps under_way_def
        carries_def result_of_def is_op_def split: if_splits slot.splits\<close>)
  ultimately show ?thesis
    using assms(2) by (simp add: world_ok_def pump_ok_def room_def v live_simps) (simp add: world_init_def)
qed

lemma quiet_with:
  assumes "is_object (Some s)" and "\<forall>g. Ev (StartOp g) \<in> set es \<longrightarrow> okay g"
  shows "quiet okay (world_with s n es)"
  using assms by (auto simp: quiet_def clean_def world_with_def world_init_def live_simps split: if_splits)

text \<open>
  The turns of a script in which the operation 2 finishes, the pump delivers it and the caller
  collects it.
\<close>

abbreviation smooth :: "env list" where
  "smooth \<equiv> [Go True, Ev (TaskFinishes 2), Ev PumpWaits, Ev PumpSends, Go True]"

text \<open>
  And of one in which the context is cancelled while the operation is in flight: the caller sees the
  cancellation first, and the operation finishes all the same.
\<close>

abbreviation raced :: "env list" where
  "raced \<equiv> [Go True, CancelsCtx 0, Go True, Ev (TaskFinishes 2), Ev PumpWaits, Ev PumpSends, Go True]"

lemma echo_write_law: "write_law echo fst"
  by (auto simp: write_law_def leaves_def echo_def echo_read_def Let_def min_def unat_of_nat take_bit_nat_eq_self)

lemma echo_read_law: "read_law echo snd"
  by (auto simp: read_law_def leaves_def echo_def echo_read_def Let_def)

theorem send_write_exact_witness:
  "\<exists>w'. SendWrite echo (Ctx 0) 1 ''greetings'' (world_with SSend echo_start raced) = Some (Inr 4, w')
     \<and> fst (net w') 1 = ''gree''"
proof -
  define w where "w = world_with SSend echo_start raced"
  have "map_option fst (SendWrite echo (Ctx 0) 1 ''greetings'' w) = Some (Inr 4)" unfolding w_def by code_simp
  then obtain w' where run: "SendWrite echo (Ctx 0) 1 ''greetings'' w = Some (Inr 4, w')" by auto
  have "world_ok 2 w" "quiet (not_write 1) w" unfolding w_def
    by (rule world_ok_with, simp, simp, rule quiet_with) simp_all
  from send_write_exact [OF run echo_write_law this] have "fst (net w') 1 = fst (net w) 1 @ take 4 ''greetings''"
    by simp
  then show ?thesis using run unfolding w_def by (auto simp: world_with_def world_init_def echo_start_def)
qed

theorem recv_read_exact_witness:
  "\<exists>w'. RecvRead echo (Ctx 0) 1 ''........'' (world_with SRecv echo_start raced) = Some (Inr (5, ''hello...'', False), w')
     \<and> snd (net w') 1 = ''hello''"
proof -
  define w where "w = world_with SRecv echo_start raced"
  have "map_option fst (RecvRead echo (Ctx 0) 1 ''........'' w) = Some (Inr (5, ''hello...'', False))"
    unfolding w_def by code_simp
  then obtain w' where run: "RecvRead echo (Ctx 0) 1 ''........'' w = Some (Inr (5, ''hello...'', False), w')" by auto
  have "world_ok 2 w" "quiet (not_read 1) w" unfolding w_def
    by (rule world_ok_with, simp, simp, rule quiet_with) simp_all
  from recv_read_exact [OF run echo_read_law this] have "snd (net w') 1 = snd (net w) 1 @ take 5 ''hello...''"
    by simp
  then show ?thesis using run unfolding w_def by (auto simp: world_with_def world_init_def echo_start_def)
qed

subsection \<open>A call can always return\<close>

lemma pump_ok_park: "pump_ok w \<Longrightarrow> awaiters w op = Some Started \<Longrightarrow> pump_ok (park op w)"
  by (simp add: pump_ok_def pump_inv_park lib_inv_park)

lemma park_pump_side: "queue (park op w) = queue w" "pump_pc (park op w) = pump_pc w"
  by (auto simp: park_def register_def Let_def split: option.split)

lemma sched_events:
  assumes "\<forall>e \<in> set xs. \<not> concerns e op"
  shows "sched I op turn (map Ev xs @ ys) w = sched I op turn ys (run I xs w)"
  using assms by (induction xs arbitrary: w) auto

lemma drain_not_concerns: "e \<in> set (drain k) \<Longrightarrow> \<not> concerns e op"
  by (auto simp: drain_def split: if_splits)

text \<open>
  C16: as long as the pump runs, a goroutine that waits for its operation can come back: the script in
  which its task ends and the pump empties the queue makes \<^verbatim>\<open>await\<close> return, whatever its context and
  whatever else is in flight.
\<close>

theorem await_can_return:
  fixes w :: "'n world"
  assumes ok: "pump_ok w" and st: "awaiters w op = Some Started" and pc: "pump_pc w \<noteq> PumpExited"
  shows "\<exists>es. await I c op (w\<lparr>script := es\<rparr>) \<noteq> None"
proof -
  define k where "k = length (queue w) + (if tasks w op = None then 0 else 1)"
  define xs where "xs = [TaskFinishes op, PumpSends] @ drain k"
  define es where "es = map Ev xs @ [Go True]"
  define p where "p = park op (w\<lparr>script := es\<rparr>)"
  have op: "op \<noteq> 0" using waiting_op(1) [OF ok] st by auto
  have pre: "preempt I op (w\<lparr>script := Go True # es\<rparr>) = Some (w\<lparr>script := es\<rparr>)"
    by (simp add: preempt_def schedule_def)
  have "pump_ok p" unfolding p_def using ok st by (intro pump_ok_park) simp_all
  then have parked: "pump_ok p" "awaiters p op = Some (Parked (next_chan w))" "pump_pc p \<noteq> PumpExited"
    "queue p = queue w" "tasks p = tasks w" "script p = es"
    using pc by (simp_all add: p_def park_go_side park_pump_side)
  have "under_way p op" using parked(2) by (simp add: under_way_def)
  then obtain v where v: "v = run I xs p" "awaiters v op = awaiters p op"
    "\<And>ch. awaiters p op = Some (Parked ch) \<Longrightarrow> chans v ch \<noteq> []"
    using drained [OF parked(1) _ parked(3), of op k I] parked(4,5) unfolding k_def xs_def by metis
  then obtain s u where rcv: "receive op (v\<lparr>script := []\<rparr>) = Some (s, u)"
    using parked(2) by (cases "chans v (next_chan w)") (auto simp: receive_def)
  have "\<forall>e \<in> set xs. \<not> concerns e op" using drain_not_concerns by (auto simp: xs_def)
  from sched_events [OF this, of I "select_turn c op" "[Go True]" p]
  have "schedule I op (select_turn c op) p = sched I op (select_turn c op) [Go True] v"
    unfolding schedule_def parked(6) v(1) es_def .
  also have "\<dots> = Some (Inr s, u)" using rcv by (simp add: select_turn_def)
  finally have "await I c op (w\<lparr>script := Go True # es\<rparr>) = Some (Inr s, u)"
    using op pre by (simp add: await_def p_def)
  then show ?thesis by blast
qed

theorem await_can_return_witness:
  "\<exists>es. await echo Background 2 ((snd (begin_op (iroh_endpoint_accept 1 (world_with SEndpoint echo_start []))))\<lparr>script := es\<rparr>) \<noteq> None"
proof (rule await_can_return)
  let ?w = "snd (begin_op (iroh_endpoint_accept 1 (world_with SEndpoint echo_start [])))"
  have "world_ok 2 (world_with SEndpoint echo_start [])" "quiet (\<lambda>_. True) (world_with SEndpoint echo_start [])"
    by (rule world_ok_with, simp, simp, rule quiet_with) simp_all
  then have "world_ok (Suc 0) ?w"
    using typed.start_waiting(1) [OF spawn_on_cases] by (simp add: iroh_endpoint_accept_def numeral_2_eq_2)
  then show "pump_ok ?w" by (simp add: world_ok_def)
  show "awaiters ?w 2 = Some Started" by code_simp
  show "pump_pc ?w \<noteq> PumpExited" by code_simp
qed

end
