(* ===== verification/Streams.thy ===== *)
theory Streams
  imports Call_Properties
begin

text \<open>
  The stream objects of the package (\<^verbatim>\<open>stream.go\<close>): \<^verbatim>\<open>SendStream\<close> and \<^verbatim>\<open>RecvStream\<close> with their
  deadlines, the loops of \<^verbatim>\<open>Write\<close>, \<^verbatim>\<open>WriteContext\<close> and \<^verbatim>\<open>Read\<close>, and closing. A method of the stream at
  the address \<open>a\<close> is a function of \<open>a\<close>. Go's \<^verbatim>\<open>int\<close> is signed with 64 bits.
\<close>

subsection \<open>Go integers and slices\<close>

definition go_int :: "int \<Rightarrow> int" where
  "go_int x = sint (word_of_int x :: u64)"

text \<open>\<^verbatim>\<open>p[n:]\<close>, which panics unless \<open>0 \<le> n \<le> len(p)\<close>.\<close>

definition slice_from :: "int \<Rightarrow> bytes \<Rightarrow> bytes option" where
  "slice_from n p = (if 0 \<le> n \<and> n \<le> int (length p) then Some (drop (nat n) p) else None)"

subsection \<open>Constructors\<close>

text \<open>
  The cleanup that frees a forgotten stream runs at some later time, if at all; it is one of the
  steps \<open>FreesHandle\<close> of the rest of the process.
\<close>

definition new_stream :: "u64 \<Rightarrow> nat \<Rightarrow> ('n, 'z) world_scheme \<Rightarrow> nat \<times> ('n, 'z) world_scheme" where
  "new_stream h c w = (next_stream w, w\<lparr>next_stream := Suc (next_stream w),
     streams := (streams w)(next_stream w := \<lparr>sh = h, smu = Unlocked, sdl = no_deadline, sconn = c\<rparr>)\<rparr>)"

definition newSendStream :: "u64 \<Rightarrow> nat \<Rightarrow> ('n, 'z) world_scheme \<Rightarrow> nat \<times> ('n, 'z) world_scheme" where
  "newSendStream = new_stream"

definition newRecvStream :: "u64 \<Rightarrow> nat \<Rightarrow> ('n, 'z) world_scheme \<Rightarrow> nat \<times> ('n, 'z) world_scheme" where
  "newRecvStream = new_stream"

subsection \<open>SendStream\<close>

partial_function (option) write_loop :: "'n iroh \<Rightarrow> ctx \<Rightarrow> u64 \<Rightarrow> bytes \<Rightarrow> int \<Rightarrow> ('n, 'z) world_scheme \<Rightarrow>
    ((int \<times> go_error option) \<times> ('n, 'z) world_scheme) option" where
  "write_loop I c h p written w =
     (if written < int (length p) then
        case slice_from written p of
          None \<Rightarrow> Some ((written, Some SliceBounds), w)
        | Some rest \<Rightarrow>
            Option.bind (SendWrite I c h rest w) (\<lambda>(r, w1). case r of
                Inl err \<Rightarrow> Some ((written, Some err), w1)
              | Inr n \<Rightarrow>
                  if n = 0 then Some ((go_int (written + sint n), Some (errKind KindStream ''stream accepted no data'' [])), w1)
                  else write_loop I c h p (go_int (written + sint n)) w1)
      else Some ((written, None), w))"

declare write_loop.simps [code]

definition WriteContext :: "'n iroh \<Rightarrow> nat \<Rightarrow> ctx \<Rightarrow> bytes \<Rightarrow> ('n, 'z) world_scheme \<Rightarrow>
    ((int \<times> go_error option) \<times> ('n, 'z) world_scheme) option" where
  "WriteContext I a c p w = (case handle_get (sh (streams w a)) of
     Inl err \<Rightarrow> Some ((0, Some err), w)
   | Inr h \<Rightarrow> do {
       w1 \<leftarrow> lock_stream I a w;
       (r, w2) \<leftarrow> write_loop I c h p 0 w1;
       Some (r, unlock_stream a w2)
     })"

partial_function (option) write_resume :: "'n iroh \<Rightarrow> nat \<Rightarrow> bytes \<Rightarrow> int \<Rightarrow> ('n, 'z) world_scheme \<Rightarrow>
    ((int \<times> go_error option) \<times> ('n, 'z) world_scheme) option" where
  "write_resume I a p written w =
     (let ((c, rel), w1) = deadline_arm a w in
      case slice_from written p of
        None \<Rightarrow> Some ((written, Some SliceBounds), w1)
      | Some rest \<Rightarrow>
          Option.bind (WriteContext I a c rest w1) (\<lambda>((n, err), w2).
            let w3 = deadline_release a rel w2 in
            case err of
              None \<Rightarrow> Some ((go_int (written + n), None), w3)
            | Some e \<Rightarrow>
                if errors_Is e Canceled \<and> go_int (written + n) < int (length p)
                then write_resume I a p (go_int (written + n)) w3
                else Some ((go_int (written + n), Some (deadlineErr e)), w3)))"

declare write_resume.simps [code]

definition SendStream_Write :: "'n iroh \<Rightarrow> nat \<Rightarrow> bytes \<Rightarrow> ('n, 'z) world_scheme \<Rightarrow>
    ((int \<times> go_error option) \<times> ('n, 'z) world_scheme) option" where
  "SendStream_Write I a p w = write_resume I a p 0 w"

definition SetWriteDeadline :: "nat \<Rightarrow> gtime \<Rightarrow> ('n, 'z) world_scheme \<Rightarrow> go_error option \<times> ('n, 'z) world_scheme" where
  "SetWriteDeadline a t w = (None, deadline_set a t w)"

definition SetPriority :: "'n iroh \<Rightarrow> nat \<Rightarrow> ctx \<Rightarrow> i32 \<Rightarrow> ('n, 'z) world_scheme \<Rightarrow>
    (go_error option \<times> ('n, 'z) world_scheme) option" where
  "SetPriority I a c q w = (case handle_get (sh (streams w a)) of
     Inl err \<Rightarrow> Some (Some err, w) | Inr h \<Rightarrow> SendSetPriority I c h q w)"

definition Stopped :: "'n iroh \<Rightarrow> nat \<Rightarrow> ctx \<Rightarrow> ('n, 'z) world_scheme \<Rightarrow>
    ((go_error + u64 \<times> bool) \<times> ('n, 'z) world_scheme) option" where
  "Stopped I a c w = (case handle_get (sh (streams w a)) of
     Inl err \<Rightarrow> Some (Inl err, w)
   | Inr h \<Rightarrow> do {
       (r, w1) \<leftarrow> SendStopped I c h w;
       case r of
         Inl err \<Rightarrow> Some (Inl err, w1)
       | Inr code \<Rightarrow> Some (Inr (if code = NO_STOP_CODE then (0, False) else (code, True)), w1)
     })"

text \<open>\<^verbatim>\<open>s.h.take()\<close>\<close>

definition take_handle :: "nat \<Rightarrow> ('n, 'z) world_scheme \<Rightarrow> u64 \<times> ('n, 'z) world_scheme" where
  "take_handle a w = (let (h, v) = handle_take (sh (streams w a)) in (h, on_stream a (\<lambda>s. s\<lparr>sh := v\<rparr>) w))"

definition SendStream_Reset :: "'n iroh \<Rightarrow> nat \<Rightarrow> ctx \<Rightarrow> u64 \<Rightarrow> ('n, 'z) world_scheme \<Rightarrow>
    (go_error option \<times> ('n, 'z) world_scheme) option" where
  "SendStream_Reset I a c code w = (let (h, w1) = take_handle a w in
     if h = 0 then Some (None, w1)
     else do { (err, w2) \<leftarrow> SendReset I c h code w1; Some (err, SendFree h w2) })"

definition SendStream_Close :: "'n iroh \<Rightarrow> nat \<Rightarrow> ('n, 'z) world_scheme \<Rightarrow>
    (go_error option \<times> ('n, 'z) world_scheme) option" where
  "SendStream_Close I a w = (let (h, w1) = take_handle a w in
     if h = 0 then Some (None, w1)
     else do {
       (err, w2) \<leftarrow> SendFinish I Background h (deadline_set a pastDeadline w1);
       Some (err, SendFree h w2)
     })"

subsection \<open>RecvStream\<close>

text \<open>The results of a read: the count, the caller's buffer as it is afterwards, and the error.\<close>

definition ReadContext :: "'n iroh \<Rightarrow> nat \<Rightarrow> ctx \<Rightarrow> bytes \<Rightarrow> ('n, 'z) world_scheme \<Rightarrow>
    ((nat \<times> bytes \<times> go_error option) \<times> ('n, 'z) world_scheme) option" where
  "ReadContext I a c p w = (case handle_get (sh (streams w a)) of
     Inl err \<Rightarrow> Some ((0, p, Some err), w)
   | Inr h \<Rightarrow>
       if length p = 0 then Some ((0, p, None), w)
       else do {
         w1 \<leftarrow> lock_stream I a w;
         (r, w2) \<leftarrow> RecvRead I c h p w1;
         Some (case r of
             Inl err \<Rightarrow> (0, p, Some err)
           | Inr (n, p', eof) \<Rightarrow> (n, p', if eof then Some EOF else None), unlock_stream a w2)
       })"

partial_function (option) RecvStream_Read :: "'n iroh \<Rightarrow> nat \<Rightarrow> bytes \<Rightarrow> ('n, 'z) world_scheme \<Rightarrow>
    ((nat \<times> bytes \<times> go_error option) \<times> ('n, 'z) world_scheme) option" where
  "RecvStream_Read I a p w =
     (let ((c, rel), w1) = deadline_arm a w in
      Option.bind (ReadContext I a c p w1) (\<lambda>((n, p', err), w2).
        let w3 = deadline_release a rel w2 in
        case err of
          None \<Rightarrow> Some ((n, p', None), w3)
        | Some e \<Rightarrow>
            if n > 0 then Some ((n, p', Some e), w3)
            else if errors_Is e Canceled then RecvStream_Read I a p' w3
            else Some ((0, p', Some (deadlineErr e)), w3)))"

declare RecvStream_Read.simps [code]

definition SetReadDeadline :: "nat \<Rightarrow> gtime \<Rightarrow> ('n, 'z) world_scheme \<Rightarrow> go_error option \<times> ('n, 'z) world_scheme" where
  "SetReadDeadline a t w = (None, deadline_set a t w)"

definition RecvStream_Stop :: "'n iroh \<Rightarrow> nat \<Rightarrow> ctx \<Rightarrow> u64 \<Rightarrow> ('n, 'z) world_scheme \<Rightarrow>
    (go_error option \<times> ('n, 'z) world_scheme) option" where
  "RecvStream_Stop I a c code w = (let (h, w1) = take_handle a w in
     if h = 0 then Some (None, w1)
     else do { (err, w2) \<leftarrow> RecvStop I c h code w1; Some (err, RecvFree h w2) })"

definition RecvStream_Close :: "'n iroh \<Rightarrow> nat \<Rightarrow> ('n, 'z) world_scheme \<Rightarrow>
    (go_error option \<times> ('n, 'z) world_scheme) option" where
  "RecvStream_Close I a w = RecvStream_Stop I a Background 0 (deadline_set a pastDeadline w)"

end
