(* ===== verification/Stream_Rules.thy ===== *)
theory Stream_Rules
  imports Streams
begin

text \<open>
  What the stream methods rely on: how an observation of the network fares while other goroutines
  run, what stays as it is while only the Go side of the world moves, and the locale of the
  invariants of contexts and stream objects that every call into the library keeps.
\<close>

subsection \<open>Arithmetic and the state around a call\<close>

lemma go_int_id: "- (2 ^ 63) \<le> x \<Longrightarrow> x < 2 ^ 63 \<Longrightarrow> go_int x = x"
  by (simp add: go_int_def sint_sbintrunc' signed_take_bit_int_eq_self)

lemma sint_small:
  fixes n :: u64
  assumes "unat n < 2 ^ 63"
  shows "sint n = int (unat n)"
proof -
  have "uint n < 2 ^ 63" using assms of_nat_less_iff [where 'a = int, of "unat n" "2 ^ 63"] by simp
  then have "signed_take_bit 63 (uint n) = uint n"
    using uint_ge_0 [of n] by (intro signed_take_bit_int_eq_self) linarith+
  then show ?thesis by (simp add: sint_uint)
qed

lemma quiet_env_step:
  assumes "quiet okay w" and "\<And>g. e = Ev (StartOp g) \<Longrightarrow> okay g"
  shows "quiet okay (env_step I m e w)"
  using assms env_step_tasks [of I m e w] unfolding quiet_def
  by (auto simp: clean_env_step) metis

lemma steady_env_step:
  fixes w :: "'n world"
  assumes "steady I okay obs" and "quiet okay w"
  shows "obs (net (env_step I m e w)) = obs (net w)"
proof -
  from env_step_net [of I m e w] show ?thesis
  proof (elim disjE exE conjE)
    fix x k assume "tasks w x = Some k"
      and n: "net (env_step I m e w) = net (snd (run_body I (body k) (w\<lparr>tasks := (tasks w)(x := None)\<rparr>)))"
    then have "okay (body k)" using assms(2) by (simp add: quiet_def)
    then show ?thesis using assms(1) by (simp add: steady_def n)
  qed simp
qed

lemma schedule_quiet:
  fixes w :: "'n world"
  assumes run: "schedule I m turn w = Some r" and ok: "world_ok k w" and q: "quiet okay w"
    and st: "steady I okay obs"
  obtains b v where "world_ok (k + 2) v" "quiet okay v" "obs (net v) = obs (net w)" "turn b v = Some r" "evolves w v"
    "\<And>c e. ctx_Err c w = Some e \<Longrightarrow> ctx_Err c v = Some e"
    "set (script v) \<subseteq> set (script w)" "length (script v) < length (script w)"
proof (rule schedule_rule [OF run ok, where P = "\<lambda>v. quiet okay v \<and> obs (net v) = obs (net w) \<and> evolves w v
    \<and> (\<forall>c e. ctx_Err c w = Some e \<longrightarrow> ctx_Err c v = Some e)"])
  have okay: "okay g" if "Ev (StartOp g) \<in> set (script w)" for g using q that by (simp add: quiet_def)
  show "quiet okay w \<and> obs (net w) = obs (net w) \<and> evolves w w \<and> (\<forall>c e. ctx_Err c w = Some e \<longrightarrow> ctx_Err c w = Some e)"
    using q by simp
  show "quiet okay (env_step I m e v) \<and> obs (net (env_step I m e v)) = obs (net w) \<and> evolves w (env_step I m e v)
      \<and> (\<forall>c x. ctx_Err c w = Some x \<longrightarrow> ctx_Err c (env_step I m e v) = Some x)"
    if "pump_ok v" "room v 2" "quiet okay v \<and> obs (net v) = obs (net w) \<and> evolves w v \<and> (\<forall>c e. ctx_Err c w = Some e \<longrightarrow> ctx_Err c v = Some e)"
      "e \<in> set (script w)" for e and v :: "'n world"
    using that okay by (auto intro: quiet_env_step env_step_ctx_err evolves_trans evolves_env_step simp: steady_env_step [OF st])
  show "quiet okay (v\<lparr>script := es\<rparr>) \<and> obs (net (v\<lparr>script := es\<rparr>)) = obs (net w) \<and> evolves w (v\<lparr>script := es\<rparr>)
      \<and> (\<forall>c e. ctx_Err c w = Some e \<longrightarrow> ctx_Err c (v\<lparr>script := es\<rparr>) = Some e)"
    if "quiet okay v \<and> obs (net v) = obs (net w) \<and> evolves w v \<and> (\<forall>c e. ctx_Err c w = Some e \<longrightarrow> ctx_Err c v = Some e)"
      "set es \<subseteq> set (script w)" for v es
    using that okay by (auto simp: quiet_def)
qed (use that in blast)

text \<open>What only touches the Go side of the world keeps the library's state as it is.\<close>

definition go_side :: "('n, 'z) world_scheme \<Rightarrow> ('n, 'z) world_scheme \<Rightarrow> bool" where
  "go_side w w' \<longleftrightarrow> pump.truncate w' = pump.truncate w \<and> script w' = script w \<and> now w' = now w"

lemma go_sideD:
  assumes "go_side w w'"
  shows "reg w' = reg w" "queue w' = queue w" "tasks w' = tasks w" "bufs w' = bufs w" "next_buf w' = next_buf w"
    "fault w' = fault w" "net w' = net w" "waiters w' = waiters w" "unclaimed w' = unclaimed w" "chans w' = chans w"
    "next_chan w' = next_chan w" "pump_pc w' = pump_pc w" "awaiters w' = awaiters w" "script w' = script w" "now w' = now w"
  using assms by (cases w; cases w'; simp add: go_side_def pump.defs)+

lemma go_side_keeps:
  assumes "go_side w w'"
  shows "world_ok k w' = world_ok k w" "quiet okay w' = quiet okay w"
proof -
  note f = go_sideD [OF assms]
  have "pump_ok w' = pump_ok w" by (rule pump_ok_cong) (simp_all add: f)
  then show "world_ok k w' = world_ok k w" by (simp add: world_ok_def room_def f)
  show "quiet okay w' = quiet okay w" by (simp add: quiet_def clean_def f)
qed

lemma go_side_trans: "go_side u v \<Longrightarrow> go_side v w \<Longrightarrow> go_side u w"
  by (simp add: go_side_def)

lemma go_side_steps [intro, simp]:
  "go_side w w" "go_side w (w\<lparr>ctxs := c\<rparr>)" "go_side w (w\<lparr>streams := s\<rparr>)" "go_side w (unlock_stream a w)"
  by (simp_all add: go_side_def pump.defs unlock_stream_def)

lemma go_side_deadlines [intro, simp]:
  "go_side w (snd (deadline_arm a w))" "go_side w (deadline_release a r w)" "go_side w (deadline_set a t w)"
  "go_side w (snd (take_handle a w))"
proof -
  show "go_side w (snd (deadline_arm a w))"
    by (auto simp: go_side_def deadline_arm_def WithCancel_def WithDeadline_def new_ctx_def pump.defs Let_def
        split: option.split)
  let ?w = "on_stream a (\<lambda>s. s\<lparr>sdl := (sdl s)\<lparr>armed := AList.delete (fst r) (armed (sdl s))\<rparr>\<rparr>) w"
  obtain c where "deadline_release a r w = ?w\<lparr>ctxs := c\<rparr>"
    using finish_ctx_frame [of "snd r" Canceled ?w] by (auto simp: deadline_release_def)
  then show "go_side w (deadline_release a r w)" by (simp add: go_side_def pump.defs)
  show "go_side w (deadline_set a t w)" using deadline_set_frame [of a t w] by (auto simp: go_side_def pump.defs)
  show "go_side w (snd (take_handle a w))" by (simp add: go_side_def pump.defs take_handle_def handle_take_def)
qed

lemma lock_stream_rule:
  fixes w :: "'n world"
  assumes run: "lock_stream I a w = Some w'" and ok: "world_ok k w" and q: "quiet okay w" and st: "steady I okay obs"
  shows "world_ok k w'" "quiet okay w'" "obs (net w') = obs (net w)" "length (script w') < length (script w)"
    "set (script w') \<subseteq> set (script w)" "\<And>c e. ctx_Err c w = Some e \<Longrightarrow> ctx_Err c w' = Some e" "evolves w w'"
proof -
  let ?turn = "\<lambda>_ w. if smu (streams w a) = Unlocked then Some ((), on_stream a (\<lambda>s. s\<lparr>smu := LockedHere\<rparr>) w) else None"
  from run have sch: "schedule I 0 ?turn w = Some ((), w')" by (auto simp: lock_stream_def)
  obtain v where v: "world_ok (k + 2) v" "quiet okay v" "obs (net v) = obs (net w)" "?turn True v = Some ((), w')" "evolves w v"
    "\<And>c e. ctx_Err c w = Some e \<Longrightarrow> ctx_Err c v = Some e"
    "set (script v) \<subseteq> set (script w)" "length (script v) < length (script w)"
    by (rule schedule_quiet [OF sch ok q st]) blast
  then have w': "w' = on_stream a (\<lambda>s. s\<lparr>smu := LockedHere\<rparr>) v" by (auto split: if_splits)
  have g: "go_side v w'" unfolding w' by simp
  show "evolves w w'" using evolves_trans [OF v(5) evolves_reg] by (simp add: w')
  have "world_ok k v" using v(1) by (simp add: world_ok_def room_def)
  then show "world_ok k w'" "quiet okay w'" using go_side_keeps [OF g] v(2) by simp_all
  show "obs (net w') = obs (net w)" "length (script w') < length (script w)" "set (script w') \<subseteq> set (script w)"
    using v go_sideD [OF g] by simp_all
  show "ctx_Err c w' = Some e" if "ctx_Err c w = Some e" for c e
    using v(6) [OF that] by (simp add: w' ctx_Err_def split: ctx.splits)
qed

lemma write_law_steady:
  "write_law I sent \<Longrightarrow> writes_beside I h okay obs \<Longrightarrow> steady I okay (\<lambda>n. (sent n h, obs n))"
  by (simp add: steady_def writes_beside_def write_law_body)

lemma read_law_steady:
  "read_law I got \<Longrightarrow> reads_beside I h okay obs \<Longrightarrow> steady I okay (\<lambda>n. (got n h, obs n))"
  by (simp add: steady_def reads_beside_def read_law_body)

subsection \<open>Contexts fail in two ways only\<close>

definition ctx_ok :: "('n, 'z) world_scheme \<Rightarrow> bool" where
  "ctx_ok w \<longleftrightarrow> (\<forall>a e. ctx_err (ctxs w a) = Some e \<longrightarrow> e = Canceled \<or> e = DeadlineExceeded)"

lemma ctx_okD: "ctx_ok w \<Longrightarrow> ctx_Err c w = Some e \<Longrightarrow> e = Canceled \<or> e = DeadlineExceeded"
  by (auto simp: ctx_ok_def ctx_Err_def split: ctx.splits)

lemma ctx_ok_cong: "ctxs w' = ctxs w \<Longrightarrow> ctx_ok w' = ctx_ok w"
  by (simp add: ctx_ok_def)

lemma ctx_ok_frame [simp]: "ctx_ok (w\<lparr>script := es\<rparr>) = ctx_ok w" "ctx_ok (w\<lparr>streams := s\<rparr>) = ctx_ok w"
  "ctx_ok (w\<lparr>now := t\<rparr>) = ctx_ok w" "ctx_ok (w\<lparr>conns := cs\<rparr>) = ctx_ok w" "ctx_ok (w\<lparr>endpoints := ps\<rparr>) = ctx_ok w"
  "ctx_ok (w\<lparr>sconns := ns\<rparr>) = ctx_ok w"
  "ctx_ok (w\<lparr>reg := r\<rparr>) = ctx_ok w" "ctx_ok (pump_step I e w) = ctx_ok w"
  by (simp_all add: ctx_ok_def)

lemma ctx_ok_finish: "ctx_ok w \<Longrightarrow> e = Canceled \<or> e = DeadlineExceeded \<Longrightarrow> ctx_ok (finish_ctx a e w)"
  by (auto simp: ctx_ok_def finish_ctx_def)

lemma ctx_ok_cancel_all: "ctx_ok w \<Longrightarrow> ctx_ok (fold (\<lambda>(_, a). cancel_ctx a) xs w)"
  by (induction xs arbitrary: w) (auto simp: ctx_ok_finish)

lemma ctx_ok_deadline_set: "ctx_ok w \<Longrightarrow> ctx_ok (deadline_set a t w)"
  by (simp add: deadline_set_def ctx_ok_cancel_all)

lemma ctx_ok_env_step: "ctx_ok w \<Longrightarrow> ctx_ok (env_step I m e w)"
  by (cases e) (auto simp: ctx_ok_finish ctx_ok_deadline_set split: option.split)

lemma ctx_ok_arm: "ctx_ok w \<Longrightarrow> ctx_ok (snd (deadline_arm a w))"
  by (auto simp: ctx_ok_def deadline_arm_def WithCancel_def WithDeadline_def new_ctx_def Let_def split: option.splits if_splits)

lemma ctx_ok_release: "ctx_ok w \<Longrightarrow> ctx_ok (deadline_release a r w)"
  by (simp add: deadline_release_def ctx_ok_finish)

text \<open>What the pump and the library do leaves the Go side of the world alone.\<close>

lemma lib_more [simp]:
  "pump.more (park op w) = pump.more w" "pump.more (iroh_op_cancel op w) = pump.more w" "pump.more (opFree op w) = pump.more w"
  "pump.more (free_bytes p n w) = pump.more w" "pump.more (snd (unsafe_Slice p n w)) = pump.more w"
  "pump.more (snd (take_op op w)) = pump.more w" "pump.more (snd (store_err x w)) = pump.more w"
  "pump.more (snd (out_bytes b w)) = pump.more w" "pump.more (post oid r w) = pump.more w"
proof -
  show "pump.more (park op w) = pump.more w" by (auto simp: park_def register_def Let_def split: option.split)
  show "pump.more (iroh_op_cancel op w) = pump.more w" using cancel_frame [of op w] by auto
  show "pump.more (opFree op w) = pump.more w" using opFree_frame [of op w] by auto
  show "pump.more (free_bytes p n w) = pump.more w" by (simp add: free_bytes_def split: option.split)
  show "pump.more (snd (unsafe_Slice p n w)) = pump.more w" by (simp add: unsafe_Slice_def split: option.split)
  show "pump.more (snd (take_op op w)) = pump.more w" using take_op_frame [of op w] by auto
  show "pump.more (snd (store_err x w)) = pump.more w" by (simp add: store_err_def case_prod_unfold Let_def)
  show "pump.more (snd (out_bytes b w)) = pump.more w" by (simp add: out_bytes_def)
  show "pump.more (post oid r w) = pump.more w" using post_frame [of oid r w] by auto
qed

lemma take_more [simp]:
  "pump.more (snd (takeBytes p n w)) = pump.more w" "pump.more (snd (takeError y w)) = pump.more w"
proof -
  have t: "pump.more (snd (takeBytes p n w)) = pump.more w" for p n and w :: "('x, 'y) pump_scheme"
    by (simp add: takeBytes_def case_prod_unfold Let_def)
  show "pump.more (snd (takeBytes p n w)) = pump.more w" by (rule t)
  show "pump.more (snd (takeError y w)) = pump.more w"
    by (simp add: takeError_def iroh_error_take_def case_prod_unfold Let_def t)
qed

lemma result_call_more [simp]:
  "pump.more (snd (iroh_op_result_u64 op w)) = pump.more w" "pump.more (snd (iroh_op_result_bytes op w)) = pump.more w"
  "pump.more (snd (iroh_op_result_err op w)) = pump.more w"
proof -
  obtain x v where t: "take_op op w = (x, v)" by (cases "take_op op w")
  have v: "pump.more v = pump.more w" using lib_more(6) [of op w] t by simp
  have s: "pump.more (snd (store_err e v)) = pump.more w" for e using v by simp
  have b: "pump.more (snd (out_bytes b v)) = pump.more w" for b using v by simp
  show "pump.more (snd (iroh_op_result_u64 op w)) = pump.more w" "pump.more (snd (iroh_op_result_bytes op w)) = pump.more w"
    "pump.more (snd (iroh_op_result_err op w)) = pump.more w"
    using t v s b by (auto simp: iroh_op_result_u64_def iroh_op_result_bytes_def iroh_op_result_err_def case_prod_unfold
        Let_def split: sum.split op_value.split)
qed

lemma finish_more [simp]: "pump.more (snd (finish op st w)) = pump.more w"
proof -
  obtain rc y v where r: "iroh_op_result_err op w = ((rc, y), v)" by (metis prod.collapse)
  have "pump.more v = pump.more w" using result_call_more(3) [of op w] r by simp
  moreover obtain e u where t: "takeError y v = (e, u)" by (metis prod.collapse)
  moreover have "pump.more u = pump.more v" using take_more(2) [of y v] t by simp
  ultimately show ?thesis using r by (simp add: finish_def)
qed

lemma collect_more:
  assumes "pump.more (snd (call op w)) = pump.more w"
  shows "pump.more (snd (collect call op w)) = pump.more w"
proof -
  obtain rc v y u where r: "call op w = ((rc, v, y), u)" by (metis prod.collapse)
  have "pump.more (snd (takeError y (opFree op u))) = pump.more w" using assms r by simp
  then show ?thesis using assms r by (simp add: collect_def case_prod_unfold Let_def)
qed

lemma begin_more: "pump.more (snd (begin_op (spawn f w))) = pump.more w"
  "pump.more (snd (begin_op (spawn_ready r w))) = pump.more w"
  by (simp_all add: begin_op_def mark_started_def spawn_def spawn_ready_def reserve_def)

lemma turn_more:
  "select_turn c op b v = Some (r, v') \<Longrightarrow> pump.more v' = pump.more v"
  "receive op v = Some (st, v') \<Longrightarrow> pump.more v' = pump.more v"
  by (auto simp: select_turn_def receive_def split: option.splits if_splits awaiter.splits list.splits)

subsection \<open>Invariants of the Go side\<close>

text \<open>
  A property of contexts and of the objects of the bindings that the rest of the process keeps is kept by every call
  that leaves them alone itself.
\<close>

locale go_invariant =
  fixes G :: "'n world \<Rightarrow> bool"
  assumes same: "ctxs w' = ctxs w \<Longrightarrow> streams w' = streams w \<Longrightarrow> conns w' = conns w \<Longrightarrow>
      endpoints w' = endpoints w \<Longrightarrow> sconns w' = sconns w \<Longrightarrow> G w' = G w"
    and env: "G w \<Longrightarrow> G (env_step I m e w)"
    and locked: "G w \<Longrightarrow> G (on_stream a (\<lambda>s. s\<lparr>smu := x\<rparr>) w)"
begin

lemma same_more: "pump.more w' = pump.more w \<Longrightarrow> G w' = G w"
  by (rule same) (erule go_side_of_more)+

lemma sched_keeps:
  assumes "sched I m turn es w = Some (r, w')" and "G w"
    and turn: "\<And>b v r v'. turn b v = Some (r, v') \<Longrightarrow> G v \<Longrightarrow> G v'"
  shows "G w'"
  using assms(1,2)
proof (induction es arbitrary: w)
  case (Cons e es)
  have step: "G (env_step I m e w)" using Cons.prems(2) by (rule env)
  show ?case
  proof (cases "\<exists>b x. e = Go b \<and> turn b (w\<lparr>script := es\<rparr>) = Some x")
    case True
    then obtain b x where "e = Go b" "turn b (w\<lparr>script := es\<rparr>) = Some x" by blast
    moreover from this have "x = (r, w')" using Cons.prems(1) by simp
    ultimately have "turn b (w\<lparr>script := es\<rparr>) = Some (r, w')" by simp
    moreover have "G (w\<lparr>script := es\<rparr>)" using Cons.prems(2) same [of "w\<lparr>script := es\<rparr>" w] by simp
    ultimately show ?thesis by (rule turn)
  next
    case False
    then have "sched I m turn es (env_step I m e w) = Some (r, w')"
      using Cons.prems(1) by (cases e) (auto split: option.splits)
    then show ?thesis using step Cons.IH by blast
  qed
qed simp

lemma schedule_keeps:
  assumes "schedule I m turn w = Some (r, w')" and "G w"
    and "\<And>b v r v'. turn b v = Some (r, v') \<Longrightarrow> G v \<Longrightarrow> G v'"
  shows "G w'"
  using sched_keeps [OF assms(1) [unfolded schedule_def] assms(2,3)] .

lemma lock_keeps:
  assumes "lock_stream I a w = Some w'" and "G w"
  shows "G w'"
proof -
  from assms(1) have "schedule I 0 (\<lambda>_ w. if smu (streams w a) = Unlocked
    then Some ((), on_stream a (\<lambda>s. s\<lparr>smu := LockedHere\<rparr>) w) else None) w = Some ((), w')"
    by (auto simp: lock_stream_def)
  then show ?thesis using assms(2) by (rule schedule_keeps) (auto split: if_splits intro: locked)
qed

lemma unlock_keeps: "G w \<Longrightarrow> G (unlock_stream a w)"
  by (simp add: unlock_stream_def locked)

lemma await_keeps:
  assumes run: "await I c op w = Some (r, w')" and ok: "G w"
  shows "G w'"
proof (cases "op = 0")
  case True
  then show ?thesis using assms by (simp add: await_def)
next
  case False
  then obtain w1 sel w2 where 1: "schedule I op (\<lambda>_ w. Some ((), w)) w = Some ((), w1)"
    and 2: "schedule I op (select_turn c op) (park op w1) = Some (sel, w2)"
    and 3: "(case sel of Inr status \<Rightarrow> Some (Inr status, w2)
        | Inl _ \<Rightarrow> do {
            (status, w3) \<leftarrow> schedule I op (\<lambda>_. receive op) (iroh_op_cancel op w2);
            if status = StatusOK then Some (Inr status, w3)
            else Some (case ctx_Err c w3 of Some e \<Rightarrow> Inl e | None \<Rightarrow> Inr 0, opFree op w3)
          }) = Some (r, w')"
    using run by (auto simp: await_def preempt_eq bind_eq_Some_conv)
  have "G w1" using schedule_keeps [OF 1 ok] by simp
  then have "G (park op w1)" using same_more [of "park op w1" w1] by simp
  then have w2: "G w2" by (rule schedule_keeps [OF 2]) (metis turn_more(1) same_more)
  show ?thesis
  proof (cases sel)
    case (Inl u)
    then obtain st w3 where 4: "schedule I op (\<lambda>_. receive op) (iroh_op_cancel op w2) = Some (st, w3)"
      and 5: "w' = w3 \<or> w' = opFree op w3"
      using 3 by (auto simp: bind_eq_Some_conv split: if_splits)
    have "G (iroh_op_cancel op w2)" using w2 same_more [of "iroh_op_cancel op w2" w2] by simp
    then have "G w3" by (rule schedule_keeps [OF 4]) (metis turn_more(2) same_more)
    moreover have "G (opFree op w3) = G w3" by (rule same_more) simp
    ultimately show ?thesis using 5 by auto
  qed (use 3 w2 in auto)
qed

lemma await_ok_keeps:
  assumes "await_ok I c op w = Some (r, w')" and "G w"
  shows "G w'"
proof -
  obtain s w1 where 1: "await I c op w = Some (s, w1)"
    and 2: "(case s of Inl err \<Rightarrow> Some (Inl err, w1)
       | Inr st \<Rightarrow> (case finish op st w1 of (Some err, w2) \<Rightarrow> Some (Inl err, w2) | (None, w2) \<Rightarrow> Some (Inr (), w2)))
       = Some (r, w')"
    using assms(1) by (auto simp: await_ok_def bind_eq_Some_conv)
  have "w' = w1 \<or> (\<exists>st. w' = snd (finish op st w1))"
    using 2 by (cases s) (auto split: prod.splits option.splits, metis snd_conv, metis snd_conv)
  moreover have "G (snd (finish op st w1)) = G w1" for st by (rule same_more) simp
  ultimately show ?thesis using await_keeps [OF 1 assms(2)] by auto
qed

lemma await_collect_keeps:
  assumes "await_collect call I c op w = Some (r, w')" and "G w"
    and call: "\<And>w. pump.more (snd (call op w)) = pump.more w"
  shows "G w'"
proof -
  obtain s w1 where 1: "await_ok I c op w = Some (s, w1)"
    and 2: "(case s of Inl err \<Rightarrow> Some (Inl err, w1) | Inr _ \<Rightarrow> Some (collect call op w1)) = Some (r, w')"
    using assms(1) by (auto simp: await_collect_def bind_eq_Some_conv)
  have "w' = w1 \<or> w' = snd (collect call op w1)" using 2 by (cases s) auto
  moreover have "G (snd (collect call op w1)) = G w1"
    by (rule same_more) (rule collect_more [of call op w1, OF call])
  ultimately show ?thesis using await_ok_keeps [OF 1 assms(2)] by auto
qed

lemma begin_keeps:
  assumes "G w" and "r = spawn f w \<or> (\<exists>e. r = spawn_ready (Inl e) w)"
  shows "G (snd (begin_op r))"
proof -
  have "pump.more (snd (begin_op r)) = pump.more w" using assms(2) begin_more by auto
  then show ?thesis using assms(1) same_more by blast
qed

lemma SendWrite_keeps:
  assumes "SendWrite I c h b w = Some (r, w')" and "G w"
  shows "G w'"
proof -
  let ?r = "iroh_send_write h b w"
  have "await_collect iroh_op_result_u64 I c (fst ?r) (snd (begin_op ?r)) = Some (r, w')"
    using assms(1) by (simp add: SendWrite_def AwaitU64_def begin_op_def)
  moreover have "G (snd (begin_op ?r))"
    by (rule begin_keeps [OF assms(2)]) (unfold iroh_send_write_def, rule spawn_on_cases)
  ultimately show ?thesis by (rule await_collect_keeps) simp
qed

lemma RecvRead_keeps:
  assumes "RecvRead I c h dst w = Some (r, w')" and "G w"
  shows "G w'"
proof -
  let ?r = "iroh_recv_read h (of_nat (length dst)) w"
  obtain s w1 where 1: "await_collect iroh_op_result_bytes I c (fst ?r) (snd (begin_op ?r)) = Some (s, w1)"
    and 2: "(case s of Inl err \<Rightarrow> Some (Inl err, w1)
       | Inr (p, n, eof) \<Rightarrow>
         if p \<noteq> 0 \<and> n > 0
         then (let (b, w2) = unsafe_Slice p n w1; copied = min (length dst) (length b)
               in Some (Inr (copied, take copied b @ drop copied dst, eof \<noteq> 0), free_bytes p n w2))
         else Some (Inr (0, dst, eof \<noteq> 0), w1)) = Some (r, w')"
    using assms(1) by (auto simp: RecvRead_def AwaitBytesInto_def begin_op_def bind_eq_Some_conv)
  have "w' = w1 \<or> (\<exists>p n. w' = free_bytes p n (snd (unsafe_Slice p n w1)))"
    using 2 by (cases s) (auto simp: Let_def case_prod_unfold split: if_splits)
  moreover have "G (free_bytes p n (snd (unsafe_Slice p n w1))) = G w1" for p n by (rule same_more) simp
  ultimately have 3: "G w' = G w1" by auto
  have "G (snd (begin_op ?r))"
    by (rule begin_keeps [OF assms(2), of _ "FRead h (of_nat (length dst))"]) (auto simp: iroh_recv_read_def split: sum.split)
  then show ?thesis using await_collect_keeps [OF 1] 3 by simp
qed

end

interpretation ctx_errors: go_invariant ctx_ok
proof unfold_locales
  show "ctx_ok w' = ctx_ok w" if "ctxs w' = ctxs w" for w w' :: "'n world" using that by (rule ctx_ok_cong)
qed (simp_all add: ctx_ok_env_step)

text \<open>The handle of a stream object is the one it was made with, or none once somebody took it.\<close>

definition handle_kept :: "nat \<Rightarrow> u64 \<Rightarrow> ('n, 'z) world_scheme \<Rightarrow> bool" where
  "handle_kept a h w \<longleftrightarrow> sh (streams w a) = h \<or> sh (streams w a) = 0"

lemma finish_ctx_streams [simp]: "streams (finish_ctx a e w) = streams w"
  by (simp add: finish_ctx_def)

lemma cancel_all_streams [simp]: "streams (fold (\<lambda>(_, a). cancel_ctx a) xs w) = streams w"
  by (induction xs arbitrary: w) auto

lemma deadline_set_handle [simp]: "sh (streams (deadline_set a t w) x) = sh (streams w x)"
  by (simp add: deadline_set_def)

lemma handle_kept_env_step: "handle_kept a h w \<Longrightarrow> handle_kept a h (env_step I m e w)"
  by (cases e) (auto simp: handle_kept_def handle_take_def split: option.split)

interpretation handles: go_invariant "handle_kept a h" for a h
proof unfold_locales
  show "handle_kept a h (on_stream x (\<lambda>s. s\<lparr>smu := y\<rparr>) w)" if "handle_kept a h w" for x y and w :: "'n world"
    using that by (auto simp: handle_kept_def)
qed (auto simp: handle_kept_env_step, auto simp: handle_kept_def)

end
