(* ===== verification/Stream_Properties.thy ===== *)
theory Stream_Properties
  imports Stream_Rules
begin

text \<open>
  What the methods of the stream objects promise: \<^verbatim>\<open>Write\<close> and \<^verbatim>\<open>WriteContext\<close> account for every
  byte, \<^verbatim>\<open>Read\<close> hands over each received byte once, a deadline interrupts, and closing is final.
\<close>

subsection \<open>Writing\<close>

text \<open>The state between calls: consistent, nothing borrowed, and nobody else on this stream.\<close>

definition streaming :: "(future \<Rightarrow> bool) \<Rightarrow> nat \<Rightarrow> u64 \<Rightarrow> ('n, 'z) world_scheme \<Rightarrow> bool" where
  "streaming okay a h w \<longleftrightarrow> world_ok 2 w \<and> quiet okay w \<and> ctx_ok w \<and> handle_kept a h w"

lemma streaming_go_side:
  "go_side w w' \<Longrightarrow> ctx_ok w' \<Longrightarrow> handle_kept a h w' \<Longrightarrow> streaming okay a h w \<Longrightarrow> streaming okay a h w'"
  by (simp add: streaming_def go_side_keeps)

lemma streaming_lock:
  fixes w :: "'n world"
  assumes "lock_stream I x w = Some w'" and "streaming okay a h w" and "steady I okay obs"
  shows "streaming okay a h w'" "obs (net w') = obs (net w)" "length (script w') < length (script w)" "evolves w w'"
  using lock_stream_rule [OF assms(1) _ _ assms(3), of 2] ctx_errors.lock_keeps [OF assms(1)] handles.lock_keeps [OF assms(1)] assms(2)
  by (auto simp: streaming_def)

text \<open>What a call on a stream leaves alone: the observation, what handles stand for, and the handles of all stream objects.\<close>

definition aside :: "('n \<Rightarrow> 'a) \<Rightarrow> ('n, 'z) world_scheme \<Rightarrow> ('n, 'z) world_scheme \<Rightarrow> bool" where
  "aside obs w w' \<longleftrightarrow> obs (net w') = obs (net w) \<and> evolves w w' \<and> (\<forall>x y. handle_kept x y w \<longrightarrow> handle_kept x y w')"

lemma aside_refl [simp]: "aside obs w w"
  by (simp add: aside_def)

lemma aside_trans [trans]: "aside obs u v \<Longrightarrow> aside obs v w \<Longrightarrow> aside obs u w"
  by (auto simp: aside_def intro: evolves_trans)

lemma aside_unlock [simp]: "aside obs w (unlock_stream x w)"
  by (simp add: aside_def unlock_stream_def handle_kept_def)

lemma aside_lock:
  fixes w :: "'n world"
  assumes "lock_stream I x w = Some w'" and "streaming okay a h w" and "steady I okay obs"
  shows "aside obs w w'"
  using streaming_lock(2,4) [OF assms] handles.lock_keeps [OF assms(1)] by (simp add: aside_def)

lemma aside_fst: "aside (\<lambda>n. (obs n, obs' n)) w w' \<Longrightarrow> obs (net w') = obs (net w)"
  and aside_snd: "aside (\<lambda>n. (obs n, obs' n)) w w' \<Longrightarrow> aside obs' w w'"
  by (simp_all add: aside_def)

lemma streaming_unlock: "streaming okay a h w \<Longrightarrow> streaming okay a h (unlock_stream x w)"
  by (rule streaming_go_side [of w]) (auto simp: unlock_stream_def streaming_def handle_kept_def)

lemma streaming_write:
  fixes w :: "'n world"
  assumes law: "write_law I sent" and beside: "writes_beside I h okay obs"
    and run: "SendWrite I c h b w = Some (r, w')" and st: "streaming okay a h w"
  shows "streaming okay a h w'" "length (script w') < length (script w)" "aside obs w w'"
    "r = Inr n \<Longrightarrow> unat n \<le> length b \<and> sent (net w') h = sent (net w) h @ take (unat n) b"
    "r = Inl e \<Longrightarrow> sent (net w') h = sent (net w) h"
    "r = Inl e \<Longrightarrow> \<exists>x. await_error c x e w'"
  using send_write_rule [OF law beside run, of 0] ctx_errors.SendWrite_keeps [OF run] handles.SendWrite_keeps [OF run] st
  by (auto simp: streaming_def reaped_def aside_def numeral_2_eq_2)

text \<open>The errors a call can report: the context's, the library's, or the package's own.\<close>

definition stream_failure :: "ctx \<Rightarrow> go_error \<Rightarrow> ('n, 'z) world_scheme \<Rightarrow> bool" where
  "stream_failure c e w \<longleftrightarrow> ctx_Err c w = Some e \<or> (\<exists>k m. e = Error k m) \<or> e = Sentinel ErrClosed \<or> e = EOF"

lemma await_error_failure: "await_error c x e w \<Longrightarrow> stream_failure c e w"
  by (auto simp: await_error_def stream_failure_def NewError_def)

lemma write_loop_rule:
  fixes w :: "'n world"
  assumes law: "write_law I sent" and beside: "writes_beside I h okay obs" and len: "length p < 2 ^ 63"
  shows "write_loop I c h p written w = Some ((n, err), w') \<Longrightarrow> streaming okay a h w \<Longrightarrow>
    0 \<le> written \<Longrightarrow> written \<le> int (length p) \<Longrightarrow>
    streaming okay a h w' \<and> aside obs w w' \<and> length (script w') \<le> length (script w) \<and> written \<le> n \<and> n \<le> int (length p) \<and>
    sent (net w') h = sent (net w) h @ take (nat (n - written)) (drop (nat written) p) \<and>
    (err = None \<longleftrightarrow> n = int (length p)) \<and> (\<forall>e. err = Some e \<longrightarrow> stream_failure c e w')"
proof (induction "length (script w)" arbitrary: written w rule: less_induct)
  case less
  show ?case
  proof (cases "written < int (length p)")
    case False
    then show ?thesis using less.prems by (subst (asm) write_loop.simps) auto
  next
    case True
    let ?rest = "drop (nat written) p"
    have sl: "slice_from written p = Some ?rest" using less.prems by (simp add: slice_from_def)
    from less.prems(1) True sl obtain r w1 where run: "SendWrite I c h ?rest w = Some (r, w1)"
      and rest: "(case r of Inl err \<Rightarrow> Some ((written, Some err), w1)
              | Inr n \<Rightarrow>
                  if n = 0 then Some ((go_int (written + sint n), Some (errKind KindStream ''stream accepted no data'' [])), w1)
                  else write_loop I c h p (go_int (written + sint n)) w1) = Some ((n, err), w')"
      by (subst (asm) write_loop.simps) (auto simp: bind_eq_Some_conv)
    note wr = streaming_write [OF law beside run less.prems(2)]
    show ?thesis
    proof (cases r)
      case (Inl e)
      then obtain x where x: "await_error c x e w1" using wr(6) by blast
      then have "n = written" "err = Some e" "w' = w1" using rest Inl by auto
      then show ?thesis using wr(1-3) wr(5) [OF Inl] await_error_failure [OF x] less.prems True by auto
    next
      case (Inr m)
      define k where "k = unat m"
      have acc: "k \<le> length ?rest" "sent (net w1) h = sent (net w) h @ take k ?rest" using wr(4) [OF Inr] by (simp_all add: k_def)
      let ?n1 = "written + int k"
      have "unat m < 2 ^ 63" using acc(1) len unfolding k_def by (simp add: le_less_trans [OF le_trans [OF _ diff_le_self]])
      then have k: "sint m = int k" using sint_small by (simp add: k_def)
      have "nat written + k \<le> length p" using acc(1) True less.prems(3) unfolding length_drop by linarith
      then have b: "?n1 \<le> int (length p)" "0 \<le> ?n1" using less.prems(3) by linarith+
      have "int (length p) < 2 ^ 63" using len by simp
      then have n1: "go_int (written + sint m) = ?n1" using b k by (simp, intro go_int_id) linarith+
      show ?thesis
      proof (cases "m = 0")
        case True
        then have "n = written" "err = Some (errKind KindStream ''stream accepted no data'' [])" "w' = w1" "k = 0"
          using rest Inr n1 k_def by auto
        then show ?thesis using wr(1-3) acc(2) less.prems \<open>written < int (length p)\<close>
          by (auto simp: stream_failure_def errKind_def)
      next
        case False
        then have again: "write_loop I c h p ?n1 w1 = Some ((n, err), w')" using rest Inr n1 by simp
        note ih = less.hyps [OF wr(2) again wr(1) b(2,1)]
        have "nat ?n1 = nat written + k" "nat (n - written) = k + nat (n - ?n1)" using less.prems(3) ih by auto
        then have "take k ?rest @ take (nat (n - ?n1)) (drop (nat ?n1) p) = take (nat (n - written)) ?rest"
          by (simp add: take_add add.commute)
        then show ?thesis using ih acc(2) wr(2) aside_trans [OF wr(3)] by auto
      qed
    qed
  qed
qed

lemma write_context_rule:
  fixes w :: "'n world"
  assumes law: "write_law I sent" and beside: "writes_beside I h okay obs" and len: "length p < 2 ^ 63"
    and run: "WriteContext I a c p w = Some ((n, err), w')" and st: "streaming okay a h w"
  shows "streaming okay a h w' \<and> aside obs w w' \<and> length (script w') \<le> length (script w) \<and>
    (sh (streams w a) \<noteq> 0 \<longrightarrow> length (script w') < length (script w)) \<and> 0 \<le> n \<and> n \<le> int (length p) \<and>
    sent (net w') h = sent (net w) h @ take (nat n) p \<and>
    (err = None \<longrightarrow> n = int (length p)) \<and> (\<forall>e. err = Some e \<longrightarrow> stream_failure c e w' \<and> (n < int (length p) \<or> e = Sentinel ErrClosed))"
proof (cases "sh (streams w a) = 0")
  case True
  then show ?thesis using run st by (auto simp: WriteContext_def handle_get_def stream_failure_def)
next
  case False
  then have h: "sh (streams w a) = h" using st by (simp add: streaming_def handle_kept_def)
  obtain w1 w2 where lock: "lock_stream I a w = Some w1" and loop: "write_loop I c h p 0 w1 = Some ((n, err), w2)"
    and w': "w' = unlock_stream a w2"
    using run False h by (auto simp: WriteContext_def handle_get_def bind_eq_Some_conv)
  note steady = write_law_steady [OF law beside]
  note l = streaming_lock [OF lock st steady]
  note r = write_loop_rule [OF law beside len loop l(1)]
  have "aside obs w w1" using aside_lock [OF lock st steady] by (rule aside_snd)
  then have "aside obs w w'" using aside_trans [OF aside_trans] r unfolding w' by (metis aside_unlock le0 of_nat_0_le_iff order_refl)
  moreover
  have "net w' = net w2" "script w' = script w2" "\<And>e. stream_failure c e w' \<longleftrightarrow> stream_failure c e w2"
    by (auto simp: w' unlock_stream_def stream_failure_def ctx_Err_def split: ctx.splits)
  ultimately show ?thesis using r l streaming_unlock [of okay a h w2 a] unfolding w' by auto
qed

text \<open>
  C5: a write under a context accounts for every byte: the count it returns is how many bytes from the
  front of the data the stream accepted, whether the write ran to the end, failed, or was cancelled
  in the middle, and the error is nil only if that is all of them. So a caller can resume where the
  count says.
\<close>

theorem write_context_exact:
  fixes w :: "'n world"
  assumes "WriteContext I a c p w = Some ((n, err), w')" and "write_law I sent" and "length p < 2 ^ 63"
    and "streaming (not_write (sh (streams w a))) a (sh (streams w a)) w"
  shows "0 \<le> n \<and> n \<le> int (length p) \<and> (err = None \<longrightarrow> n = int (length p)) \<and>
    sent (net w') (sh (streams w a)) = sent (net w) (sh (streams w a)) @ take (nat n) p"
  using write_context_rule [OF assms(2) writes_beside_alone assms(3,1,4)] by simp

lemma arm_handle [simp]: "sh (streams (snd (deadline_arm a w)) x) = sh (streams w x)"
  by (auto simp: deadline_arm_def WithCancel_def WithDeadline_def new_ctx_def Let_def split: option.split)

lemma release_handle [simp]: "sh (streams (deadline_release a r w) x) = sh (streams w x)"
  by (simp add: deadline_release_def)

lemma streaming_arm: "streaming okay a h w \<Longrightarrow> streaming okay a h (snd (deadline_arm x w))"
  by (rule streaming_go_side [OF go_side_deadlines(1)]) (auto simp: streaming_def ctx_ok_arm handle_kept_def)

lemma streaming_release: "streaming okay a h w \<Longrightarrow> streaming okay a h (deadline_release x r w)"
  by (rule streaming_go_side [OF go_side_deadlines(2)]) (auto simp: streaming_def ctx_ok_release handle_kept_def)

lemma aside_arm: "aside obs w (snd (deadline_arm a w))"
  by (simp add: aside_def handle_kept_def go_sideD(1,7) [OF go_side_deadlines(1)])

lemma aside_release: "aside obs w (deadline_release a r w)"
  by (simp add: aside_def handle_kept_def go_sideD(1,7) [OF go_side_deadlines(2)])

text \<open>
  What a caller of \<^verbatim>\<open>Write\<close> or \<^verbatim>\<open>Read\<close> gets to see: a passed deadline, an error of the package, the closed
  stream or its end, and never the error of the internal context itself.
\<close>

definition public_error :: "go_error \<Rightarrow> bool" where
  "public_error e \<longleftrightarrow> e = OsErrDeadlineExceeded \<or> (\<exists>k m. e = Error k m) \<or> e = Sentinel ErrClosed \<or> e = EOF"

lemma public_error_no_ctx: "public_error e \<Longrightarrow> \<not> errors_Is e Canceled \<and> \<not> errors_Is e DeadlineExceeded"
  by (auto simp: public_error_def Error_Unwrap_def)

lemma deadlineErr_public:
  assumes "stream_failure c e w" and "ctx_ok w" and "\<not> errors_Is e Canceled"
  shows "public_error (deadlineErr e)"
  using assms ctx_okD [OF assms(2), of c e]
  by (auto simp: stream_failure_def public_error_def deadlineErr_def Error_Unwrap_def)

lemma write_resume_rule:
  fixes w :: "'n world"
  assumes law: "write_law I sent" and beside: "writes_beside I h okay obs" and len: "length p < 2 ^ 63"
  shows "write_resume I a p written w = Some ((n, err), w') \<Longrightarrow> streaming okay a h w \<Longrightarrow>
    0 \<le> written \<Longrightarrow> written \<le> int (length p) \<Longrightarrow>
    streaming okay a h w' \<and> aside obs w w' \<and> length (script w') \<le> length (script w) \<and> written \<le> n \<and> n \<le> int (length p) \<and>
    sent (net w') h = sent (net w) h @ take (nat (n - written)) (drop (nat written) p) \<and>
    (err = None \<longrightarrow> n = int (length p)) \<and> (\<forall>e. err = Some e \<longrightarrow> public_error e)"
proof (induction "length (script w)" arbitrary: written w rule: less_induct)
  case less
  let ?rest = "drop (nat written) p"
  obtain c rel w1 where arm: "deadline_arm a w = ((c, rel), w1)" by (metis prod.collapse)
  then have w1: "w1 = snd (deadline_arm a w)" by simp
  have sl: "slice_from written p = Some ?rest" using less.prems by (simp add: slice_from_def)
  note unfolded = less.prems(1) [unfolded write_resume.simps [of I a p written w]]
  from unfolded arm sl obtain m er w2 where run: "WriteContext I a c ?rest w1 = Some ((m, er), w2)"
    and rest: "(let w3 = deadline_release a rel w2 in case er of
              None \<Rightarrow> Some ((go_int (written + m), None), w3)
            | Some e \<Rightarrow>
                if errors_Is e Canceled \<and> go_int (written + m) < int (length p)
                then write_resume I a p (go_int (written + m)) w3
                else Some ((go_int (written + m), Some (deadlineErr e)), w3)) = Some ((n, err), w')"
    by (auto simp: bind_eq_Some_conv)
  have st1: "streaming okay a h w1" unfolding w1 using less.prems(2) by (rule streaming_arm)
  have same1: "net w1 = net w" "script w1 = script w" unfolding w1 by (rule go_sideD [OF go_side_deadlines(1)])+
  have "length ?rest < 2 ^ 63" by (rule le_less_trans [OF _ len]) simp
  note wc = write_context_rule [OF law beside this run st1]
  let ?w3 = "deadline_release a rel w2"
  have st3: "streaming okay a h ?w3" using wc by (intro streaming_release) simp
  have same3: "net ?w3 = net w2" "script ?w3 = script w2" by (rule go_sideD [OF go_side_deadlines(2)])+
  have "aside obs w w1" unfolding w1 by (rule aside_arm)
  also have "aside obs w1 w2" using wc by simp
  also have "aside obs w2 ?w3" by (rule aside_release)
  finally have side: "aside obs w ?w3" .
  have short: "length (script ?w3) \<le> length (script w)" using wc same1 same3 by simp
  have m: "0 \<le> m" "m \<le> int (length p) - written" using wc less.prems(3,4) by auto
  moreover have "int (length p) < 2 ^ 63" using len by simp
  ultimately have n1: "go_int (written + m) = written + m" using less.prems(3) by (intro go_int_id) linarith+
  have sent: "sent (net ?w3) h = sent (net w) h @ take (nat m) ?rest" using wc same1 same3 by simp
  show ?case
  proof (cases er)
    case None
    then have "n = written + m" "err = None" "w' = ?w3" using rest n1 by (auto simp: Let_def)
    then show ?thesis using st3 sent m wc None less.prems(3,4) side short by auto
  next
    case (Some e)
    have fail: "stream_failure c e w2" "m < int (length ?rest) \<or> e = Sentinel ErrClosed" using wc Some by auto
    have ok2: "ctx_ok w2" using wc by (simp add: streaming_def)
    show ?thesis
    proof (cases "errors_Is e Canceled \<and> written + m < int (length p)")
      case True
      then have again: "write_resume I a p (written + m) ?w3 = Some ((n, err), w')" using rest Some n1 by (simp add: Let_def)
      have "sh (streams w1 a) \<noteq> 0"
      proof
        assume "sh (streams w1 a) = 0"
        then have "e = Sentinel ErrClosed" using run Some by (auto simp: WriteContext_def handle_get_def)
        then show False using True by simp
      qed
      then have "length (script ?w3) < length (script w)" using wc same1 same3 by simp
      note ih = less.hyps [OF this again st3] and dec = this
      have "nat (written + m) = nat written + nat m" "n \<ge> written + m \<Longrightarrow> nat (n - written) = nat m + nat (n - (written + m))"
        using less.prems(3) m by auto
      then show ?thesis using ih dec m less.prems(3) sent aside_trans [OF side] by (auto simp: take_add add.commute)
    next
      case False
      have "\<not> errors_Is e Canceled"
      proof
        assume c: "errors_Is e Canceled"
        then have "m = int (length ?rest)" using False m less.prems by auto
        then have "e = Sentinel ErrClosed" using fail(2) by simp
        then show False using c by simp
      qed
      then have "public_error (deadlineErr e)" using deadlineErr_public [OF fail(1) ok2] by simp
      moreover have "n = written + m" "err = Some (deadlineErr e)" "w' = ?w3" using rest Some n1 False by (auto simp: Let_def)
      ultimately show ?thesis using st3 sent m less.prems(3) side short by auto
    qed
  qed
qed

text \<open>
  C3: \<^verbatim>\<open>Write\<close> keeps the contract of \<^verbatim>\<open>io.Writer\<close> and of \<^verbatim>\<open>net.Conn\<close>'s deadlines: however often the deadline
  is moved while it is blocked, it resumes where the interrupted write left off, so the stream has
  accepted exactly the first \<^verbatim>\<open>n\<close> bytes, once each; it reports all of them or an error; and the
  cancellation it uses internally never shows.
\<close>

theorem write_exact:
  fixes w :: "'n world"
  assumes "SendStream_Write I a p w = Some ((n, err), w')" and "write_law I sent" and "length p < 2 ^ 63"
    and "streaming (not_write (sh (streams w a))) a (sh (streams w a)) w"
  shows "0 \<le> n \<and> n \<le> int (length p) \<and> (err = None \<longrightarrow> n = int (length p)) \<and>
    sent (net w') (sh (streams w a)) = sent (net w) (sh (streams w a)) @ take (nat n) p \<and>
    (\<forall>e. err = Some e \<longrightarrow> public_error e)"
  using write_resume_rule [OF assms(2) writes_beside_alone assms(3), of a 0 w n err w'] assms(1,4)
  by (simp add: SendStream_Write_def)

subsection \<open>Reading\<close>

lemma streaming_read:
  fixes w :: "'n world"
  assumes law: "read_law I got" and beside: "reads_beside I h okay obs"
    and run: "RecvRead I c h p w = Some (r, w')" and st: "streaming okay a h w" and len: "length p < 2 ^ 63"
  shows "streaming okay a h w'" "length (script w') < length (script w)" "aside obs w w'"
    "r = Inr (n, p', eof) \<Longrightarrow> n \<le> length p \<and> length p' = length p \<and> drop n p' = drop n p \<and>
       got (net w') h = got (net w) h @ take n p' \<and> (eof \<longleftrightarrow> n = 0)"
    "r = Inl e \<Longrightarrow> got (net w') h = got (net w) h"
    "r = Inl e \<Longrightarrow> \<exists>x. await_error c x e w'"
proof -
  have "length p < 2 ^ 64" using len by simp
  then show "streaming okay a h w'" "length (script w') < length (script w)" "aside obs w w'"
    "r = Inr (n, p', eof) \<Longrightarrow> n \<le> length p \<and> length p' = length p \<and> drop n p' = drop n p \<and>
       got (net w') h = got (net w) h @ take n p' \<and> (eof \<longleftrightarrow> n = 0)"
    "r = Inl e \<Longrightarrow> got (net w') h = got (net w) h"
    "r = Inl e \<Longrightarrow> \<exists>x. await_error c x e w'"
    using recv_read_rule [OF law beside run, of 0] ctx_errors.RecvRead_keeps [OF run] handles.RecvRead_keeps [OF run] st
    by (auto simp: streaming_def reaped_def aside_def numeral_2_eq_2)
qed

text \<open>What one read leaves: \<open>n\<close> bytes at the front of the buffer, the rest of it as it was.\<close>

definition read_into :: "bytes \<Rightarrow> bytes \<Rightarrow> bytes \<Rightarrow> nat \<Rightarrow> bytes \<Rightarrow> bool" where
  "read_into before after p n p' \<longleftrightarrow>
     n \<le> length p \<and> length p' = length p \<and> drop n p' = drop n p \<and> after = before @ take n p'"

lemma read_into_none: "read_into b b p 0 p"
  by (simp add: read_into_def)

lemma read_into_zero: "read_into b b' p 0 p' \<Longrightarrow> b' = b \<and> p' = p"
  by (simp add: read_into_def)

lemma read_context_rule:
  fixes w :: "'n world"
  assumes law: "read_law I got" and beside: "reads_beside I h okay obs" and len: "length p < 2 ^ 63"
    and run: "ReadContext I a c p w = Some ((n, p', err), w')" and st: "streaming okay a h w"
  shows "streaming okay a h w' \<and> aside obs w w' \<and> length (script w') \<le> length (script w) \<and>
    (sh (streams w a) \<noteq> 0 \<longrightarrow> p \<noteq> [] \<longrightarrow> length (script w') < length (script w)) \<and>
    read_into (got (net w) h) (got (net w') h) p n p' \<and> (err = None \<longrightarrow> n > 0 \<or> p = []) \<and>
    (\<forall>e. err = Some e \<longrightarrow> n = 0 \<and> stream_failure c e w' \<and> (sh (streams w a) = 0 \<or> p = [] \<longrightarrow> e = Sentinel ErrClosed))"
proof (cases "sh (streams w a) = 0 \<or> p = []")
  case True
  then show ?thesis using run st
    by (auto simp: ReadContext_def handle_get_def stream_failure_def read_into_none split: if_splits)
next
  case False
  then have h: "sh (streams w a) = h" using st by (simp add: streaming_def handle_kept_def)
  obtain w1 r w2 where lock: "lock_stream I a w = Some w1" and rd: "RecvRead I c h p w1 = Some (r, w2)"
    and res: "(n, p', err) = (case r of Inl err \<Rightarrow> (0, p, Some err)
           | Inr (n, p', eof) \<Rightarrow> (n, p', if eof then Some EOF else None))"
    and w': "w' = unlock_stream a w2"
    using run False h by (auto simp: ReadContext_def handle_get_def bind_eq_Some_conv)
  note steady = read_law_steady [OF law beside]
  note l = streaming_lock [OF lock st steady]
  note r = streaming_read [OF law beside rd l(1) len]
  have "aside obs w w1" using aside_lock [OF lock st steady] by (rule aside_snd)
  also have "aside obs w1 w2" by (rule r(3))
  also have "aside obs w2 w'" unfolding w' by (rule aside_unlock)
  finally have side: "aside obs w w'" .
  have same: "net w' = net w2" "script w' = script w2" "\<And>e. stream_failure c e w' \<longleftrightarrow> stream_failure c e w2"
    by (auto simp: w' unlock_stream_def stream_failure_def ctx_Err_def split: ctx.splits)
  have st': "streaming okay a h w'" unfolding w' by (rule streaming_unlock) (rule r(1))
  have short: "length (script w') < length (script w)" using r(2) l(3) by (simp add: same)
  show ?thesis
  proof (cases r)
    case (Inl e)
    then obtain x where "await_error c x e w2" using r(6) by blast
    then have "stream_failure c e w2" by (rule await_error_failure)
    then show ?thesis using r(5) [OF Inl] res Inl st' short side l(2) False by (simp add: same read_into_none)
  next
    case (Inr y)
    then obtain k q eof where y: "r = Inr (k, q, eof)" by (cases y) auto
    have "read_into (got (net w) h) (got (net w') h) p k q" "eof \<longleftrightarrow> k = 0"
      using r(4) [OF y] l(2) by (simp_all add: same read_into_def)
    moreover have "n = k" "p' = q" "err = (if eof then Some EOF else None)" using res y by auto
    ultimately show ?thesis using st' short side False by (simp add: stream_failure_def)
  qed
qed

lemma read_rule:
  fixes w :: "'n world"
  assumes law: "read_law I got" and beside: "reads_beside I h okay obs" and len: "length p < 2 ^ 63"
  shows "RecvStream_Read I a p w = Some ((n, p', err), w') \<Longrightarrow> streaming okay a h w \<Longrightarrow>
    streaming okay a h w' \<and> aside obs w w' \<and>
    (if err = None \<and> p \<noteq> [] then length (script w') < length (script w) else length (script w') \<le> length (script w)) \<and>
    read_into (got (net w) h) (got (net w') h) p n p' \<and>
    (err = None \<longrightarrow> n > 0 \<or> p = []) \<and> (\<forall>e. err = Some e \<longrightarrow> n = 0 \<and> public_error e)"
proof (induction "length (script w)" arbitrary: w rule: less_induct)
  case less
  obtain c rel w1 where arm: "deadline_arm a w = ((c, rel), w1)" by (metis prod.collapse)
  then have w1: "w1 = snd (deadline_arm a w)" by simp
  note unfolded = less.prems(1) [unfolded RecvStream_Read.simps [of I a p w]]
  from unfolded arm obtain m q er w2 where run: "ReadContext I a c p w1 = Some ((m, q, er), w2)"
    and rest: "(let w3 = deadline_release a rel w2 in case er of
          None \<Rightarrow> Some ((m, q, None), w3)
        | Some e \<Rightarrow>
            if m > 0 then Some ((m, q, Some e), w3)
            else if errors_Is e Canceled then RecvStream_Read I a q w3
            else Some ((0, q, Some (deadlineErr e)), w3)) = Some ((n, p', err), w')"
    by (auto simp: bind_eq_Some_conv)
  have st1: "streaming okay a h w1" unfolding w1 using less.prems(2) by (rule streaming_arm)
  have same1: "net w1 = net w" "script w1 = script w" unfolding w1 by (rule go_sideD [OF go_side_deadlines(1)])+
  note rc = read_context_rule [OF law beside len run st1]
  let ?w3 = "deadline_release a rel w2"
  have st3: "streaming okay a h ?w3" using rc by (intro streaming_release) simp
  have same3: "net ?w3 = net w2" "script ?w3 = script w2" by (rule go_sideD [OF go_side_deadlines(2)])+
  have "aside obs w w1" unfolding w1 by (rule aside_arm)
  also have "aside obs w1 w2" using rc by simp
  also have "aside obs w2 ?w3" by (rule aside_release)
  finally have side: "aside obs w ?w3" .
  have short: "length (script ?w3) \<le> length (script w)" using rc same1 same3 by simp
  have into: "read_into (got (net w) h) (got (net ?w3) h) p m q" using rc same1 same3 by simp
  show ?case
  proof (cases er)
    case None
    then have "n = m" "p' = q" "err = None" "w' = ?w3" using rest by (auto simp: Let_def)
    moreover have "sh (streams w1 a) \<noteq> 0" using run None by (auto simp: ReadContext_def handle_get_def split: if_splits)
    ultimately show ?thesis using st3 into rc None side short same1 same3 by auto
  next
    case (Some e)
    have m: "m = 0" and fail: "stream_failure c e w2" using rc Some by auto
    have ok2: "ctx_ok w2" using rc by (simp add: streaming_def)
    have q: "q = p" "got (net ?w3) h = got (net w) h" using read_into_zero into m by auto
    show ?thesis
    proof (cases "errors_Is e Canceled")
      case True
      then have again: "RecvStream_Read I a p ?w3 = Some ((n, p', err), w')" using rest Some m q by (simp add: Let_def)
      have "\<not> (sh (streams w1 a) = 0 \<or> p = [])" using rc Some True by auto
      then have "length (script ?w3) < length (script w)" using rc same1 same3 by simp
      from less.hyps [OF this again st3] q this aside_trans [OF side] show ?thesis by (auto split: if_splits)
    next
      case False
      have "public_error (deadlineErr e)" using deadlineErr_public [OF fail ok2 False] .
      moreover have "n = 0" "p' = q" "err = Some (deadlineErr e)" "w' = ?w3" using rest Some m False by (auto simp: Let_def)
      ultimately show ?thesis using st3 into m side short by simp
    qed
  qed
qed

text \<open>
  C4: \<^verbatim>\<open>Read\<close> keeps the contract of \<^verbatim>\<open>io.Reader\<close>: the bytes that left the stream are exactly the first \<^verbatim>\<open>n\<close>
  of the buffer, the rest of it is untouched, a read that reports an error consumed nothing, and
  one that reports none delivered something. However often the deadline is moved meanwhile, no byte
  is lost between the attempts, and the cancellation used internally never shows.
\<close>

theorem read_exact:
  fixes w :: "'n world"
  assumes "RecvStream_Read I a p w = Some ((n, p', err), w')" and "read_law I got" and "length p < 2 ^ 63"
    and "streaming (not_read (sh (streams w a))) a (sh (streams w a)) w"
  shows "n \<le> length p \<and> length p' = length p \<and> drop n p' = drop n p \<and>
    got (net w') (sh (streams w a)) = got (net w) (sh (streams w a)) @ take n p' \<and>
    (err = None \<longrightarrow> n > 0 \<or> p = []) \<and> (\<forall>e. err = Some e \<longrightarrow> n = 0 \<and> public_error e)"
  using read_rule [OF assms(2) reads_beside_alone assms(3,1,4)] by (simp add: read_into_def)

subsection \<open>Examples\<close>

text \<open>A world with one stream object, at address 0, that owns the object under handle 1.\<close>

definition stream_world :: "slot \<Rightarrow> gtime \<Rightarrow> 'n \<Rightarrow> env list \<Rightarrow> 'n world" where
  "stream_world s t n es = (let w = world_with s n es in
     w\<lparr>streams := (streams w)(0 := \<lparr>sh = 1, smu = Unlocked, sdl = no_deadline\<lparr>dl_t := t\<rparr>, sconn = 0\<rparr>), next_stream := 1\<rparr>)"

lemma streaming_stream_world:
  assumes "is_object (Some s)" and "length es < 1000" and "\<forall>g. Ev (StartOp g) \<in> set es \<longrightarrow> okay g"
  shows "streaming okay 0 1 (stream_world s t n es)"
proof -
  let ?v = "world_with s n es" and ?w = "stream_world s t n es"
  have g: "go_side ?v ?w" by (simp add: go_side_def stream_world_def pump.defs Let_def)
  have "ctx_ok ?w" "handle_kept 0 1 ?w"
    by (simp_all add: ctx_ok_def handle_kept_def stream_world_def Let_def world_with_def world_init_def)
  then show ?thesis using go_side_keeps [OF g] world_ok_with [OF assms(1,2), of n] quiet_with [OF assms(1,3), of n]
    by (simp add: streaming_def)
qed

lemma stream_world_simps [simp]: "net (stream_world s t n es) = n" "sh (streams (stream_world s t n es) 0) = 1"
  by (simp_all add: stream_world_def world_with_def world_init_def Let_def)

text \<open>One attempt at the stream: the mutex is free, and the operation 2 finishes and is delivered.\<close>

abbreviation attempt :: "env list" where
  "attempt \<equiv> [Go True, Go True, Ev (TaskFinishes 2), Ev PumpWaits, Ev PumpSends, Go True]"
theorem write_context_exact_witness:
  "\<exists>w'. WriteContext echo 0 (Ctx 0) ''hey'' (stream_world SSend None echo_start attempt) = Some ((3, None), w')
     \<and> fst (net w') 1 = ''hey''"
proof -
  define w where "w = stream_world SSend None echo_start attempt"
  have "map_option fst (WriteContext echo 0 (Ctx 0) ''hey'' w) = Some (3, None)" unfolding w_def by code_simp
  then obtain w' where run: "WriteContext echo 0 (Ctx 0) ''hey'' w = Some ((3, None), w')" by auto
  have "streaming (not_write 1) 0 1 w" unfolding w_def by (rule streaming_stream_world) simp_all
  from write_context_exact [OF run echo_write_law] this show ?thesis
    using run unfolding w_def by (auto simp: echo_start_def)
qed

theorem write_exact_witness:
  "\<exists>w'. SendStream_Write echo 0 ''hey'' (stream_world SSend None echo_start attempt) = Some ((3, None), w')
     \<and> fst (net w') 1 = ''hey''"
proof -
  define w where "w = stream_world SSend None echo_start attempt"
  define w1 where "w1 = snd (deadline_arm 0 w)"
  have arm: "deadline_arm 0 w = ((Ctx 0, 0, 0), w1)" unfolding w1_def w_def
    by (simp add: deadline_arm_def stream_world_def world_with_def world_init_def no_deadline_def WithCancel_def new_ctx_def Let_def)
  have "map_option fst (WriteContext echo 0 (Ctx 0) ''hey'' w1) = Some (3, None)" unfolding w1_def w_def by code_simp
  then obtain w2 where "WriteContext echo 0 (Ctx 0) ''hey'' w1 = Some ((3, None), w2)" by auto
  then have run: "SendStream_Write echo 0 ''hey'' w = Some ((3, None), deadline_release 0 (0, 0) w2)"
    unfolding SendStream_Write_def by (subst write_resume.simps) (simp add: arm slice_from_def go_int_id)
  have "streaming (not_write 1) 0 1 w" unfolding w_def by (rule streaming_stream_world) simp_all
  from write_exact [OF run echo_write_law] this show ?thesis
    using run unfolding w_def by (auto simp: echo_start_def)
qed

theorem read_exact_witness:
  "\<exists>w'. RecvStream_Read echo 0 ''........'' (stream_world SRecv None echo_start attempt) = Some ((5, ''hello...'', None), w')
     \<and> snd (net w') 1 = ''hello''"
proof -
  define w where "w = stream_world SRecv None echo_start attempt"
  define w1 where "w1 = snd (deadline_arm 0 w)"
  have arm: "deadline_arm 0 w = ((Ctx 0, 0, 0), w1)" unfolding w1_def w_def
    by (simp add: deadline_arm_def stream_world_def world_with_def world_init_def no_deadline_def WithCancel_def new_ctx_def Let_def)
  have "map_option fst (ReadContext echo 0 (Ctx 0) ''........'' w1) = Some (5, ''hello...'', None)" unfolding w1_def w_def by code_simp
  then obtain w2 where "ReadContext echo 0 (Ctx 0) ''........'' w1 = Some ((5, ''hello...'', None), w2)" by auto
  then have run: "RecvStream_Read echo 0 ''........'' w = Some ((5, ''hello...'', None), deadline_release 0 (0, 0) w2)"
    by (subst RecvStream_Read.simps) (simp add: arm)
  have "streaming (not_read 1) 0 1 w" unfolding w_def by (rule streaming_stream_world) simp_all
  from read_exact [OF run echo_read_law] this show ?thesis
    using run unfolding w_def by (auto simp: echo_start_def)
qed

subsection \<open>Deadlines interrupt\<close>

lemma deadline_set_t: "dl_t (sdl (streams (deadline_set a t w) a)) = t"
  by (simp add: deadline_set_def)

lemma arm_expired:
  assumes "dl_t (sdl (streams w a)) = Some t" and "t \<le> now w" and "deadline_arm a w = ((c, rel), w')"
  shows "ctx_Err c w' = Some DeadlineExceeded"
  using assms by (auto simp: deadline_arm_def WithDeadline_def new_ctx_def ctx_Err_def Let_def)

lemma finish_ctx_result: "ctx_err (ctxs (finish_ctx x e w) c) = (if c = x \<and> ctx_err (ctxs w c) = None then Some e else ctx_err (ctxs w c))"
  by (auto simp: finish_ctx_def)

lemma cancel_all_result:
  "ctx_err (ctxs (fold (\<lambda>(_, a). cancel_ctx a) xs w) c) =
    (if c \<in> snd ` set xs \<and> ctx_err (ctxs w c) = None then Some Canceled else ctx_err (ctxs w c))"
proof (induction xs arbitrary: w)
  case (Cons x xs)
  then show ?case by (cases "c \<in> snd ` set xs"; cases "c = snd x") (simp_all add: finish_ctx_result case_prod_unfold)
qed simp

lemma arm_ctx:
  assumes "deadline_arm a w = ((c, i, x), w')"
  shows "c = Ctx x" "(i, x) \<in> set (armed (sdl (streams w' a)))" "ctx_deadline (ctxs w' x) = dl_t (sdl (streams w a))"
    "ctx_Err c w' = (case dl_t (sdl (streams w a)) of Some t \<Rightarrow> if t \<le> now w then Some DeadlineExceeded else None | None \<Rightarrow> None)"
proof -
  have upd: "(k, v) \<in> set (AList.update k v al)" for k :: u64 and v :: nat and al
    by (rule map_of_SomeD) (simp add: update_conv)
  show "c = Ctx x" "(i, x) \<in> set (armed (sdl (streams w' a)))" "ctx_deadline (ctxs w' x) = dl_t (sdl (streams w a))"
    "ctx_Err c w' = (case dl_t (sdl (streams w a)) of Some t \<Rightarrow> if t \<le> now w then Some DeadlineExceeded else None | None \<Rightarrow> None)"
    using assms by (auto simp: deadline_arm_def WithCancel_def WithDeadline_def new_ctx_def ctx_Err_def Let_def upd split: option.splits)
qed

text \<open>
  C9: setting a deadline reaches the calls already in flight, as \<^verbatim>\<open>net.Conn\<close> requires, whichever deadline is set, a
  passed one, a later one or none: the context of every call armed at that moment is cancelled, unless it was done before,
  and no other context is touched. A call that arms afterwards gets a context that ends at the new deadline: it is
  expired at once exactly when that deadline has passed, as the one \<^verbatim>\<open>Close\<close> sets has, and it can be reached in its turn.
\<close>

theorem deadline_interrupts:
  "ctx_Err (Ctx c) (deadline_set a t w) =
     (if c \<in> snd ` set (armed (sdl (streams w a))) \<and> ctx_Err (Ctx c) w = None then Some Canceled else ctx_Err (Ctx c) w) \<and>
   (case deadline_arm a (deadline_set a t w) of ((c', i, x), w') \<Rightarrow>
      c' = Ctx x \<and> (i, x) \<in> set (armed (sdl (streams w' a))) \<and> ctx_deadline (ctxs w' x) = t \<and>
      ctx_Err c' w' = (case t of Some t' \<Rightarrow> if t' \<le> now w then Some DeadlineExceeded else None | None \<Rightarrow> None))"
proof -
  obtain c' i x w' where arm: "deadline_arm a (deadline_set a t w) = ((c', i, x), w')" by (metis prod.collapse)
  have n: "now (deadline_set a u w) = now w" for u using go_sideD(15) [OF go_side_deadlines(3)] .
  have "ctx_Err (Ctx c) (deadline_set a t w) =
     (if c \<in> snd ` set (armed (sdl (streams w a))) \<and> ctx_Err (Ctx c) w = None then Some Canceled else ctx_Err (Ctx c) w)"
    by (simp add: deadline_set_def ctx_Err_def cancel_all_result)
  then show ?thesis using arm_ctx [OF arm] by (simp add: arm deadline_set_t n split: option.split)
qed

theorem deadline_interrupts_witness:
  "let w = deadline_set 0 (Some (10 ^ 10)) (snd (deadline_arm 0 ((stream_world SRecv None echo_start [])\<lparr>now := 2 * 10 ^ 9\<rparr>)))
   in ctx_Err (Ctx 0) w = Some Canceled"
proof -
  define w where "w = snd (deadline_arm 0 ((stream_world SRecv None echo_start [])\<lparr>now := 2 * 10 ^ 9\<rparr>))"
  have "0 \<in> snd ` set (armed (sdl (streams w 0)))" "ctx_Err (Ctx 0) w = None"
    by (simp_all add: w_def deadline_arm_def stream_world_def world_with_def world_init_def no_deadline_def WithCancel_def
        new_ctx_def ctx_Err_def Let_def)
  then show ?thesis using deadline_interrupts [of 0 0 "Some (10 ^ 10)" w] unfolding w_def [symmetric] Let_def by simp
qed

text \<open>An expired context stays expired with the same error, whatever else happens.\<close>

lemma ctx_err_env_step: "ctx_Err c w = Some x \<Longrightarrow> ctx_Err c (env_step I m e w) = Some x"
  by (rule env_step_ctx_err)

interpretation expired: go_invariant "\<lambda>w. ctx_Err c w = Some e" for c e
  by unfold_locales (auto simp: ctx_err_env_step, auto simp: ctx_Err_def split: ctx.splits)

lemma read_context_expired:
  fixes w :: "'n world"
  assumes run: "ReadContext I a c p w = Some (r, w')" and e: "ctx_Err c w = Some e"
  shows "ctx_Err c w' = Some e"
proof (cases "handle_get (sh (streams w a))")
  case (Inr h)
  show ?thesis
  proof (cases "length p = 0")
    case False
    then obtain w1 r' w2 where "lock_stream I a w = Some w1" "RecvRead I c h p w1 = Some (r', w2)" "w' = unlock_stream a w2"
      using run Inr by (auto simp: ReadContext_def bind_eq_Some_conv)
    then show ?thesis using e by (metis expired.lock_keeps expired.RecvRead_keeps expired.unlock_keeps)
  qed (use run e Inr in \<open>auto simp: ReadContext_def\<close>)
qed (use run e in \<open>auto simp: ReadContext_def\<close>)

text \<open>
  C10: a \<^verbatim>\<open>Read\<close> whose deadline has passed does not go round again: it makes one attempt and returns
  what that gave, so setting a past deadline, as \<^verbatim>\<open>Close\<close> does, makes every later and every resumed
  read of the stream let go of it.
\<close>

theorem expired_read_ends:
  fixes w :: "'n world"
  assumes "RecvStream_Read I a p w = Some ((n, p', err), w')" and "read_law I got" and "length p < 2 ^ 63"
    and "streaming (not_read (sh (streams w a))) a (sh (streams w a)) w"
    and "dl_t (sdl (streams w a)) = Some t" and "t \<le> now w"
  shows "\<exists>c rel w1 e w2. deadline_arm a w = ((c, rel), w1) \<and> ReadContext I a c p w1 = Some ((n, p', e), w2) \<and>
    err = map_option deadlineErr e \<and> w' = deadline_release a rel w2 \<and> (\<forall>x. err = Some x \<longrightarrow> n = 0)"
proof -
  obtain c rel w1 where arm: "deadline_arm a w = ((c, rel), w1)" by (metis prod.collapse)
  then have w1: "w1 = snd (deadline_arm a w)" by simp
  note unfolded = assms(1) [unfolded RecvStream_Read.simps [of I a p w]]
  from unfolded arm obtain m q er w2 where run: "ReadContext I a c p w1 = Some ((m, q, er), w2)"
    and rest: "(let w3 = deadline_release a rel w2 in case er of
          None \<Rightarrow> Some ((m, q, None), w3)
        | Some e \<Rightarrow>
            if m > 0 then Some ((m, q, Some e), w3)
            else if errors_Is e Canceled then RecvStream_Read I a q w3
            else Some ((0, q, Some (deadlineErr e)), w3)) = Some ((n, p', err), w')"
    by (auto simp: bind_eq_Some_conv)
  have "streaming (not_read (sh (streams w a))) a (sh (streams w a)) w1" unfolding w1 using assms(4) by (rule streaming_arm)
  note rc = read_context_rule [OF assms(2) reads_beside_alone assms(3) run this]
  have e: "ctx_Err c w2 = Some DeadlineExceeded" using read_context_expired [OF run arm_expired [OF assms(5,6) arm]] .
  have "\<not> errors_Is x Canceled \<and> m = 0" if "er = Some x" for x
    using rc that e by (auto simp: stream_failure_def Error_Unwrap_def)
  then show ?thesis using arm run rest by (cases er) (auto simp: Let_def)
qed

subsection \<open>Closing\<close>

context go_invariant
begin

lemma AwaitUnit_keeps:
  assumes "AwaitUnit I c op w = Some (r, w')" and "G w"
  shows "G w'"
proof -
  obtain s w1 where 1: "await_ok I c op w = Some (s, w1)" and 2: "w' = w1 \<or> w' = opFree op w1"
    using assms(1) by (auto simp: AwaitUnit_def bind_eq_Some_conv split: sum.splits) (metis old.unit.exhaust sumE)
  have "G (opFree op w1) = G w1" by (rule same_more) simp
  then show ?thesis using 2 await_ok_keeps [OF 1 assms(2)] by auto
qed

lemma unit_call_keeps:
  assumes "(let (op, w1) = begin_op s in AwaitUnit I c op w1) = Some (r, w')" and "G w"
    and "s = spawn f w \<or> (\<exists>e. s = spawn_ready (Inl e) w)"
  shows "G w'"
proof -
  have "AwaitUnit I c (fst s) (snd (begin_op s)) = Some (r, w')" using assms(1) by (simp add: begin_op_def)
  then show ?thesis using begin_keeps [OF assms(2,3)] by (rule AwaitUnit_keeps)
qed

lemma SendFinish_keeps: "SendFinish I c h w = Some (r, w') \<Longrightarrow> G w \<Longrightarrow> G w'"
  unfolding SendFinish_def iroh_send_finish_def by (erule unit_call_keeps) (assumption, rule spawn_on_cases)

lemma SendReset_keeps: "SendReset I c h code w = Some (r, w') \<Longrightarrow> G w \<Longrightarrow> G w'"
  unfolding SendReset_def
  by (erule unit_call_keeps [where f = "FReset h (case i_varint I code of Inr x \<Rightarrow> x)"])
    (assumption, auto simp: iroh_send_reset_def split: sum.split)

lemma RecvStop_keeps: "RecvStop I c h code w = Some (r, w') \<Longrightarrow> G w \<Longrightarrow> G w'"
  unfolding RecvStop_def
  by (erule unit_call_keeps [where f = "FStop h (case i_varint I code of Inr x \<Rightarrow> x)"])
    (assumption, auto simp: iroh_recv_stop_def split: sum.split)

end

text \<open>A stream object whose handle is gone, with the object it had freed.\<close>

definition stream_closed :: "nat \<Rightarrow> u64 \<Rightarrow> ('n, 'z) world_scheme \<Rightarrow> bool" where
  "stream_closed a h w \<longleftrightarrow> sh (streams w a) = 0 \<and> live w h = None"

lemma take_handle_simps [simp]: "fst (take_handle a w) = sh (streams w a)"
  "sh (streams (snd (take_handle a w)) a) = 0"
  by (simp_all add: take_handle_def handle_take_def)

lemma taken_again: "sh (streams w a) = 0 \<Longrightarrow> take_handle a w = (0, w)"
  by (cases w) (simp add: take_handle_def handle_take_def fun_upd_idem)

lemma closed_free: "handle_kept a 0 w \<Longrightarrow> h \<noteq> 0 \<Longrightarrow> stream_closed a h (free_handle h w)"
  by (simp add: stream_closed_def handle_kept_def free_handle_def live_simps)

text \<open>
  C8: closing is final and happens once. After \<^verbatim>\<open>Close\<close> or \<^verbatim>\<open>Reset\<close> of a send stream, or \<^verbatim>\<open>Close\<close> or \<^verbatim>\<open>Stop\<close> of a
  receive stream, whatever the call reported, the object has no handle and the library's object is
  freed; closing again succeeds and touches nothing, and every other call finds the stream closed.
\<close>

theorem close_is_final:
  fixes w :: "'n world"
  assumes "SendStream_Close I a w = Some (r, w') \<or> SendStream_Reset I a c code w = Some (r, w') \<or>
      RecvStream_Close I a w = Some (r, w') \<or> RecvStream_Stop I a c code w = Some (r, w')"
    and "sh (streams w a) \<noteq> 0"
  shows "sh (streams w' a) = 0 \<and> live w' (sh (streams w a)) = None \<and>
    SendStream_Close I a w' = Some (None, w') \<and> SendStream_Reset I a c code w' = Some (None, w') \<and>
    RecvStream_Stop I a c code w' = Some (None, w') \<and>
    WriteContext I a c p w' = Some ((0, Some (Sentinel ErrClosed)), w') \<and>
    ReadContext I a c p w' = Some ((0, p, Some (Sentinel ErrClosed)), w')"
proof -
  let ?h = "sh (streams w a)"
  have taken: "handle_kept a 0 (snd (take_handle a v))" for v :: "'n world" by (simp add: handle_kept_def)
  have dl: "handle_kept a 0 (deadline_set a pastDeadline v)" if "handle_kept a 0 v" for v :: "'n world"
    using that by (simp add: handle_kept_def)
  have stop: "stream_closed a ?h w'" if s: "RecvStream_Stop I a c code v = Some (r, w')" and v: "sh (streams v a) = ?h"
    for c code and v :: "'n world"
  proof -
    obtain w2 where "RecvStop I c ?h code (snd (take_handle a v)) = Some (r, w2)" "w' = free_handle ?h w2"
      using s v assms(2) by (auto simp: RecvStream_Stop_def RecvFree_def case_prod_unfold bind_eq_Some_conv)
    then show ?thesis using handles.RecvStop_keeps [OF _ taken] closed_free [OF _ assms(2)] by blast
  qed
  from assms(1) have "stream_closed a ?h w'"
  proof (elim disjE)
    assume "SendStream_Close I a w = Some (r, w')"
    then obtain w2 where "SendFinish I Background ?h (deadline_set a pastDeadline (snd (take_handle a w))) = Some (r, w2)"
      "w' = free_handle ?h w2"
      using assms(2) by (auto simp: SendStream_Close_def SendFree_def case_prod_unfold bind_eq_Some_conv)
    then show ?thesis using handles.SendFinish_keeps [OF _ dl [OF taken]] closed_free [OF _ assms(2)] by blast
  next
    assume "SendStream_Reset I a c code w = Some (r, w')"
    then obtain w2 where "SendReset I c ?h code (snd (take_handle a w)) = Some (r, w2)" "w' = free_handle ?h w2"
      using assms(2) by (auto simp: SendStream_Reset_def SendFree_def case_prod_unfold bind_eq_Some_conv)
    then show ?thesis using handles.SendReset_keeps [OF _ taken] closed_free [OF _ assms(2)] by blast
  next
    assume "RecvStream_Close I a w = Some (r, w')"
    then show ?thesis unfolding RecvStream_Close_def by (rule stop) simp
  qed (rule stop, assumption, simp)
  then show ?thesis
    by (simp add: stream_closed_def SendStream_Close_def SendStream_Reset_def RecvStream_Stop_def taken_again
        WriteContext_def ReadContext_def handle_get_def)
qed

theorem close_is_final_witness:
  "\<exists>r w'. SendStream_Close echo 0 (stream_world SSend None echo_start smooth) = Some (r, w') \<and> sh (streams w' 0) = 0
     \<and> live w' 1 = None \<and> SendStream_Close echo 0 w' = Some (None, w')"
proof -
  define w where "w = stream_world SSend None echo_start smooth"
  have "map_option fst (SendStream_Close echo 0 w) = Some None" unfolding w_def by code_simp
  then obtain w' where run: "SendStream_Close echo 0 w = Some (None, w')" by auto
  have "sh (streams w 0) = 1" unfolding w_def by simp
  with close_is_final [OF disjI1 [OF run]] run show ?thesis unfolding w_def by auto
qed

theorem expired_read_ends_witness:
  "\<exists>w'. RecvStream_Read echo 0 ''........'' (stream_world SRecv (Some 0) echo_start
        [Go True, Go True, Go True, Ev (TaskStops 2), Ev PumpWaits, Ev PumpSends, Go True])
     = Some ((0, ''........'', Some OsErrDeadlineExceeded), w')
     \<and> (\<exists>rel w2. ReadContext echo 0 (Ctx 0) ''........'' (snd (deadline_arm 0 (stream_world SRecv (Some 0) echo_start
        [Go True, Go True, Go True, Ev (TaskStops 2), Ev PumpWaits, Ev PumpSends, Go True])))
       = Some ((0, ''........'', Some DeadlineExceeded), w2) \<and> w' = deadline_release 0 rel w2)"
proof -
  define w where "w = stream_world SRecv (Some 0) echo_start
    [Go True, Go True, Go True, Ev (TaskStops 2), Ev PumpWaits, Ev PumpSends, Go True]"
  define w1 where "w1 = snd (deadline_arm 0 w)"
  have arm: "deadline_arm 0 w = ((Ctx 0, 0, 0), w1)" unfolding w1_def w_def
    by (simp add: deadline_arm_def stream_world_def world_with_def world_init_def no_deadline_def WithDeadline_def new_ctx_def Let_def)
  have "map_option fst (ReadContext echo 0 (Ctx 0) ''........'' w1) = Some (0, ''........'', Some DeadlineExceeded)"
    unfolding w1_def w_def by code_simp
  then obtain w2 where rd: "ReadContext echo 0 (Ctx 0) ''........'' w1 = Some ((0, ''........'', Some DeadlineExceeded), w2)" by auto
  have run: "RecvStream_Read echo 0 ''........'' w = Some ((0, ''........'', Some OsErrDeadlineExceeded), deadline_release 0 (0, 0) w2)"
    by (subst RecvStream_Read.simps) (simp add: arm rd deadlineErr_def)
  have st: "streaming (not_read 1) 0 1 w" unfolding w_def by (rule streaming_stream_world) simp_all
  have "dl_t (sdl (streams w 0)) = Some 0" "0 \<le> now w"
    by (simp_all add: w_def stream_world_def world_with_def world_init_def Let_def)
  from expired_read_ends [OF run echo_read_law _ _ this] st
  have "\<exists>rel w2. ReadContext echo 0 (Ctx 0) ''........'' w1 = Some ((0, ''........'', Some DeadlineExceeded), w2)
      \<and> deadline_release 0 (0, 0) w2 = deadline_release 0 rel w2"
    using rd by auto
  then show ?thesis using run rd unfolding w1_def w_def by auto
qed

end
