(* ===== verification/Go_Strings.thy ===== *)
theory Go_Strings
  imports Prelude "HOL-Library.Sublist"
begin

text \<open>
  The functions on strings the sources use: Go's \<^verbatim>\<open>strings.Split\<close>, \<^verbatim>\<open>SplitN\<close>, \<^verbatim>\<open>Cut\<close> and \<^verbatim>\<open>TrimSpace\<close>,
  \<^verbatim>\<open>hex.EncodeToString\<close>, and their counterparts in Rust, \<^verbatim>\<open>str::lines\<close>, \<^verbatim>\<open>split_once\<close>, \<^verbatim>\<open>trim\<close>,
  \<^verbatim>\<open>str::from_utf8\<close> and the parsers of integers. Strings are sequences of bytes; white space beyond
  ASCII is the set of the UTF-8 encodings of the code points with that property, which is the same
  in both languages.
\<close>

abbreviation newline :: char where "newline \<equiv> CHR 0x0A"
abbreviation tab :: char where "tab \<equiv> CHR 0x09"
abbreviation space :: char where "space \<equiv> CHR 0x20"

subsection \<open>Splitting\<close>

fun Split :: "char \<Rightarrow> string \<Rightarrow> string list" where
  "Split sep [] = [[]]"
| "Split sep (c # s) = (if c = sep then [] # Split sep s
     else case Split sep s of [] \<Rightarrow> [[c]] | x # xs \<Rightarrow> (c # x) # xs)"

text \<open>The text before the first separator, the text after it, and whether there is one.\<close>

fun Cut :: "char \<Rightarrow> string \<Rightarrow> string \<times> string \<times> bool" where
  "Cut sep [] = ([], [], False)"
| "Cut sep (c # s) = (if c = sep then ([], s, True) else let (x, y, ok) = Cut sep s in (c # x, y, ok))"

text \<open>At most \<open>n > 0\<close> parts, the last one with whatever is left.\<close>

fun SplitN :: "char \<Rightarrow> nat \<Rightarrow> string \<Rightarrow> string list" where
  "SplitN sep 0 s = []"
| "SplitN sep (Suc 0) s = [s]"
| "SplitN sep (Suc (Suc n)) s = (case Cut sep s of (x, y, ok) \<Rightarrow> if ok then x # SplitN sep (Suc n) y else [s])"

fun join :: "char \<Rightarrow> string list \<Rightarrow> string" where
  "join sep [] = []"
| "join sep [x] = x"
| "join sep (x # xs) = x @ sep # join sep xs"

subsection \<open>White space\<close>

definition space_seqs :: "bytes list" where
  "space_seqs = [
    [CHR 0x09], [CHR 0x0A], [CHR 0x0B], [CHR 0x0C], [CHR 0x0D], [CHR 0x20], [CHR 0xC2, CHR 0x85],
    [CHR 0xC2, CHR 0xA0], [CHR 0xE1, CHR 0x9A, CHR 0x80], [CHR 0xE2, CHR 0x80, CHR 0x80],
    [CHR 0xE2, CHR 0x80, CHR 0x81], [CHR 0xE2, CHR 0x80, CHR 0x82], [CHR 0xE2, CHR 0x80, CHR 0x83],
    [CHR 0xE2, CHR 0x80, CHR 0x84], [CHR 0xE2, CHR 0x80, CHR 0x85], [CHR 0xE2, CHR 0x80, CHR 0x86],
    [CHR 0xE2, CHR 0x80, CHR 0x87], [CHR 0xE2, CHR 0x80, CHR 0x88], [CHR 0xE2, CHR 0x80, CHR 0x89],
    [CHR 0xE2, CHR 0x80, CHR 0x8A], [CHR 0xE2, CHR 0x80, CHR 0xA8], [CHR 0xE2, CHR 0x80, CHR 0xA9],
    [CHR 0xE2, CHR 0x80, CHR 0xAF], [CHR 0xE2, CHR 0x81, CHR 0x9F], [CHR 0xE3, CHR 0x80, CHR 0x80]]"

function trim_front :: "bytes list \<Rightarrow> string \<Rightarrow> string" where
  "trim_front qs s = (case find (\<lambda>q. q \<noteq> [] \<and> prefix q s) qs of
     None \<Rightarrow> s | Some q \<Rightarrow> trim_front qs (drop (length q) s))"
  by pat_completeness auto

termination
proof (relation "measure (length \<circ> snd)", simp)
  fix qs s q assume "find (\<lambda>q. q \<noteq> [] \<and> prefix q s) qs = Some q"
  then have "q \<noteq> []" "prefix q s" by (auto simp: find_Some_iff)
  then have "s \<noteq> []" "length q > 0" by auto
  then show "((qs, drop (length q) s), (qs, s)) \<in> measure (length \<circ> snd)" by simp
qed

declare trim_front.simps [simp del]

definition TrimSpace :: "string \<Rightarrow> string" where
  "TrimSpace s = rev (trim_front (map rev space_seqs) (rev (trim_front space_seqs s)))"

subsection \<open>Hexadecimal\<close>

definition hex_digit :: "nat \<Rightarrow> char" where
  "hex_digit d = (if d < 10 then char_of (48 + d) else char_of (87 + d))"

definition EncodeToString :: "bytes \<Rightarrow> string" where
  "EncodeToString b = concat (map (\<lambda>c. [hex_digit (of_char c div 16), hex_digit (of_char c mod 16)]) b)"

text \<open>The value of a digit in base 16, and in base 10.\<close>

definition digit16 :: "char \<Rightarrow> nat option" where
  "digit16 c = (let n = (of_char c :: nat) in
     if 48 \<le> n \<and> n \<le> 57 then Some (n - 48) else if 97 \<le> n \<and> n \<le> 102 then Some (n - 87)
     else if 65 \<le> n \<and> n \<le> 70 then Some (n - 55) else None)"

definition digit10 :: "char \<Rightarrow> nat option" where
  "digit10 c = (let n = (of_char c :: nat) in if 48 \<le> n \<and> n \<le> 57 then Some (n - 48) else None)"

fun digits_value :: "nat \<Rightarrow> (char \<Rightarrow> nat option) \<Rightarrow> nat \<Rightarrow> string \<Rightarrow> nat option" where
  "digits_value b dg acc [] = Some acc"
| "digits_value b dg acc (c # s) = (case dg c of None \<Rightarrow> None | Some d \<Rightarrow> digits_value b dg (acc * b + d) s)"

text \<open>The inverse, on texts of pairs of digits.\<close>

fun DecodeString :: "string \<Rightarrow> bytes option" where
  "DecodeString [] = Some []"
| "DecodeString (a # b # s) = (case (digit16 a, digit16 b, DecodeString s) of
     (Some x, Some y, Some r) \<Rightarrow> Some (char_of (16 * x + y) # r) | _ \<Rightarrow> None)"
| "DecodeString _ = None"

subsection \<open>Rust\<close>

text \<open>
  \<^verbatim>\<open>from_str_radix\<close> and \<^verbatim>\<open>parse\<close> of an unsigned type: an optional plus sign, then at least one digit. The
  error is the text of the \<^verbatim>\<open>ParseIntError\<close>.
\<close>

definition parse_unsigned :: "nat \<Rightarrow> (char \<Rightarrow> nat option) \<Rightarrow> nat \<Rightarrow> string \<Rightarrow> string + nat" where
  "parse_unsigned b dg limit s =
     (let ds = (case s of c # cs \<Rightarrow> if c = CHR ''+'' \<and> cs \<noteq> [] then cs else s | [] \<Rightarrow> []) in
      if s = [] then Inl ''cannot parse integer from empty string''
      else case digits_value b dg 0 ds of
        None \<Rightarrow> Inl ''invalid digit found in string''
      | Some n \<Rightarrow> if n \<ge> limit then Inl ''number too large to fit in target type'' else Inr n)"

text \<open>\<^verbatim>\<open>str::lines\<close>: each line without its \<^verbatim>\<open>\n\<close> or \<^verbatim>\<open>\r\n\<close>; a final line ending starts no further line.\<close>

fun strip_cr :: "string list \<Rightarrow> string list" where
  "strip_cr [] = []"
| "strip_cr [l] = (if l = [] then [] else [l])"
| "strip_cr (l # ls) = (if l \<noteq> [] \<and> last l = CHR 0x0D then butlast l else l) # strip_cr ls"

definition rust_lines :: "string \<Rightarrow> string list" where
  "rust_lines s = strip_cr (Split newline s)"

definition split_once :: "char \<Rightarrow> string \<Rightarrow> (string \<times> string) option" where
  "split_once sep s = (case Cut sep s of (x, y, ok) \<Rightarrow> if ok then Some (x, y) else None)"

definition in_range :: "nat \<Rightarrow> nat \<Rightarrow> char \<Rightarrow> bool" where
  "in_range a b c \<longleftrightarrow> a \<le> of_char c \<and> of_char c \<le> b"

text \<open>\<^verbatim>\<open>str::from_utf8\<close> accepts exactly the well-formed sequences of UTF-8.\<close>

fun utf8_tail :: "char \<Rightarrow> (nat \<times> nat) list option" where
  "utf8_tail c = (
     if in_range 0x00 0x7F c then Some []
     else if in_range 0xC2 0xDF c then Some [(0x80, 0xBF)]
     else if in_range 0xE0 0xE0 c then Some [(0xA0, 0xBF), (0x80, 0xBF)]
     else if in_range 0xED 0xED c then Some [(0x80, 0x9F), (0x80, 0xBF)]
     else if in_range 0xE1 0xEF c then Some [(0x80, 0xBF), (0x80, 0xBF)]
     else if in_range 0xF0 0xF0 c then Some [(0x90, 0xBF), (0x80, 0xBF), (0x80, 0xBF)]
     else if in_range 0xF1 0xF3 c then Some [(0x80, 0xBF), (0x80, 0xBF), (0x80, 0xBF)]
     else if in_range 0xF4 0xF4 c then Some [(0x80, 0x8F), (0x80, 0xBF), (0x80, 0xBF)]
     else None)"

fun utf8_from :: "(nat \<times> nat) list \<Rightarrow> bytes \<Rightarrow> bool" where
  "utf8_from [] [] \<longleftrightarrow> True"
| "utf8_from (r # rs) [] \<longleftrightarrow> False"
| "utf8_from [] (c # s) \<longleftrightarrow> (case utf8_tail c of None \<Rightarrow> False | Some rs \<Rightarrow> utf8_from rs s)"
| "utf8_from ((a, b) # rs) (c # s) \<longleftrightarrow> in_range a b c \<and> utf8_from rs s"

definition utf8_ok :: "bytes \<Rightarrow> bool" where
  "utf8_ok s = utf8_from [] s"

text \<open>Whether a string may be sliced at the byte offset \<open>i\<close>.\<close>

definition char_boundary :: "string \<Rightarrow> nat \<Rightarrow> bool" where
  "char_boundary s i \<longleftrightarrow> i = 0 \<or> i = length s \<or> i < length s \<and> \<not> in_range 0x80 0xBF (s ! i)"

subsection \<open>Laws of splitting\<close>

lemma Split_nonempty [simp]: "Split sep s \<noteq> []"
  by (cases s) (auto split: list.split)

lemma Split_no_sep: "sep \<notin> set s \<Longrightarrow> Split sep s = [s]"
  by (induction s) auto

lemma Split_parts: "x \<in> set (Split sep s) \<Longrightarrow> sep \<notin> set x"
proof (induction s arbitrary: x)
  case (Cons c s)
  obtain y ys where s: "Split sep s = y # ys" by (cases "Split sep s") auto
  then show ?case using Cons by (auto split: if_splits)
qed simp

lemma Split_append: "sep \<notin> set x \<Longrightarrow> Split sep (x @ sep # s) = x # Split sep s"
  by (induction x) auto

lemma Split_join:
  assumes "\<forall>x \<in> set xs. sep \<notin> set x" and "xs \<noteq> []"
  shows "Split sep (join sep xs) = xs"
  using assms by (induction sep xs rule: join.induct) (auto simp: Split_no_sep Split_append)

lemma join_Split: "join sep (Split sep s) = s"
proof (induction s)
  case (Cons c s)
  obtain x xs where s: "Split sep s = x # xs" by (cases "Split sep s") auto
  then show ?case using Cons by (cases xs) auto
qed simp

lemma Cut_append: "sep \<notin> set x \<Longrightarrow> Cut sep (x @ sep # y) = (x, y, True)"
  by (induction x) auto

lemma Cut_Some: "Cut sep s = (x, y, True) \<longleftrightarrow> s = x @ sep # y \<and> sep \<notin> set x"
proof (induction s arbitrary: x)
  case (Cons c s)
  obtain u v ok where c: "Cut sep s = (u, v, ok)" by (cases "Cut sep s") auto
  show ?case using Cons [of "tl x"] c by (cases x) auto
qed simp

lemma Cut_None: "Cut sep s = (x, y, False) \<Longrightarrow> sep \<notin> set s \<and> x = s \<and> y = []"
  by (induction s arbitrary: x) (auto split: prod.splits if_splits)

lemma Cut_found: "snd (snd (Cut sep s)) \<longleftrightarrow> sep \<in> set s"
  by (induction s) (auto split: prod.splits)

lemma SplitN_join:
  assumes "\<forall>x \<in> set (butlast xs). sep \<notin> set x" and "xs \<noteq> []"
  shows "SplitN sep (length xs) (join sep xs) = xs"
  using assms by (induction sep xs rule: join.induct) (auto simp: Cut_append)

lemma SplitN_length: "length (SplitN sep n s) \<le> n"
  by (induction sep n s rule: SplitN.induct) (auto split: prod.split)

lemma SplitN_full: "n > 0 \<Longrightarrow> SplitN sep n s = xs \<Longrightarrow> join sep xs = s"
proof (induction sep n s arbitrary: xs rule: SplitN.induct)
  case (3 sep n s)
  obtain x y ok where c: "Cut sep s = (x, y, ok)" by (cases "Cut sep s") auto
  show ?case
  proof (cases ok)
    case True
    have "join sep (SplitN sep (Suc n) y) = y" by (rule "3.IH" [OF c [symmetric] refl True _ refl]) simp
    moreover have "SplitN sep (Suc n) y \<noteq> []" by (cases n) (auto split: prod.split)
    ultimately have "join sep (x # SplitN sep (Suc n) y) = x @ sep # y"
      by (cases "SplitN sep (Suc n) y") auto
    then show ?thesis using 3(3) c True by (simp add: Cut_Some)
  qed (use 3(3) c in auto)
qed auto

subsection \<open>Laws of trimming\<close>

lemma find_prefix_None:
  "find (\<lambda>q. q \<noteq> [] \<and> prefix q s) qs = None \<longleftrightarrow> (\<forall>q \<in> set qs. q \<noteq> [] \<longrightarrow> \<not> prefix q s)"
  by (auto simp: find_None_iff)

lemma trim_front_id:
  assumes "\<forall>q \<in> set qs. q \<noteq> [] \<longrightarrow> \<not> prefix q s"
  shows "trim_front qs s = s"
proof -
  have "find (\<lambda>q. q \<noteq> [] \<and> prefix q s) qs = None" unfolding find_prefix_None by (rule assms)
  then show ?thesis by (subst trim_front.simps) (simp only: option.case)
qed

lemma trim_front_result: "q \<in> set qs \<Longrightarrow> q \<noteq> [] \<Longrightarrow> \<not> prefix q (trim_front qs s)"
proof (induction qs s rule: trim_front.induct)
  case (1 qs s)
  show ?case
  proof (cases "find (\<lambda>q. q \<noteq> [] \<and> prefix q s) qs")
    case None
    then have "\<forall>q \<in> set qs. q \<noteq> [] \<longrightarrow> \<not> prefix q s" unfolding find_prefix_None .
    then show ?thesis using 1(2,3) by (simp add: trim_front_id)
  next
    case (Some p)
    have "trim_front qs s = trim_front qs (drop (length p) s)"
      by (subst trim_front.simps) (simp only: Some option.case)
    with 1(1) [OF Some 1(2,3)] show ?thesis by simp
  qed
qed

lemma trim_front_suffix: "suffix (trim_front qs s) s"
proof (induction qs s rule: trim_front.induct)
  case (1 qs s)
  then show ?case
    by (subst trim_front.simps) (auto split: option.split intro: suffix_order.trans [OF _ suffix_drop])
qed

text \<open>A string without white space at either end.\<close>

definition trimmed :: "string \<Rightarrow> bool" where
  "trimmed s \<longleftrightarrow> (\<forall>q \<in> set space_seqs. \<not> prefix q s \<and> \<not> suffix q s)"

lemma space_seqs_nonempty: "q \<in> set space_seqs \<Longrightarrow> q \<noteq> []"
  by (auto simp: space_seqs_def)

lemma trimmed_TrimSpace [simp]: "trimmed s \<Longrightarrow> TrimSpace s = s"
  unfolding TrimSpace_def trimmed_def
  by (subst trim_front_id, simp)+ (simp_all add: suffix_to_prefix)

lemma TrimSpace_trimmed: "trimmed (TrimSpace s)"
  unfolding trimmed_def
proof (intro ballI conjI)
  fix q assume q: "q \<in> set space_seqs"
  let ?l = "trim_front space_seqs s" and ?r = "trim_front (map rev space_seqs) (rev (trim_front space_seqs s))"
  have "\<not> prefix (rev q) ?r" by (rule trim_front_result) (use q space_seqs_nonempty in auto)
  then show "\<not> suffix q (TrimSpace s)" by (simp add: TrimSpace_def suffix_to_prefix)
  have "prefix (TrimSpace s) ?l" using trim_front_suffix [of "map rev space_seqs" "rev ?l"]
    by (simp add: TrimSpace_def suffix_to_prefix)
  moreover have "\<not> prefix q ?l" using q space_seqs_nonempty by (intro trim_front_result) auto
  ultimately show "\<not> prefix q (TrimSpace s)" using prefix_order.trans by blast
qed

lemma TrimSpace_chars: "set (TrimSpace s) \<subseteq> set s"
  using set_mono_suffix [OF trim_front_suffix [of "map rev space_seqs" "rev (trim_front space_seqs s)"]]
    set_mono_suffix [OF trim_front_suffix [of space_seqs s]]
  by (auto simp: TrimSpace_def)

lemma trimmed_no_space_ends:
  assumes "trimmed s" and "s \<noteq> []"
  shows "hd s \<noteq> space" "last s \<noteq> space"
proof -
  have q: "[space] \<in> set space_seqs" by code_simp
  have "prefix [hd s] s" "suffix [last s] s"
    using assms(2) by (auto simp: neq_Nil_conv suffix_def intro: exI [of _ "butlast s"])
  then show "hd s \<noteq> space" "last s \<noteq> space" using assms(1) q by (auto simp: trimmed_def)
qed

text \<open>The multi-byte sequences have no ASCII character in them, so a text ends as its last part does.\<close>

lemma space_seqs_ascii:
  assumes "q \<in> set space_seqs" and "c \<in> set q" and "of_char c < (0x80 :: nat)"
  shows "q = [c]"
proof -
  have "\<forall>q \<in> set space_seqs. \<forall>c \<in> set q. of_char c < (0x80 :: nat) \<longrightarrow> q = [c]" by code_simp
  then show ?thesis using assms by blast
qed

lemma suffix_last_part:
  assumes "q \<in> set space_seqs" and "suffix q (a @ c # b)" and "of_char c < (0x80 :: nat)" and "b \<noteq> []"
  shows "suffix q b"
proof -
  from assms(2) have "suffix q b \<or> (\<exists>x. q = x @ c # b)"
    by (auto simp: suffix_append Cons_eq_append_conv suffix_def append_eq_append_conv2)
  moreover have False if "q = x @ c # b" for x
    using space_seqs_ascii [OF assms(1) _ assms(3)] that assms(4) by (auto simp: append_eq_Cons_conv)
  ultimately show ?thesis by auto
qed

lemma trimmed_parts:
  assumes "trimmed a \<or> a \<noteq> [] \<and> (\<forall>q \<in> set space_seqs. hd a \<noteq> hd q)" and "a \<noteq> []" and "of_char c < (0x80 :: nat)"
    and "\<forall>q \<in> set space_seqs. \<not> suffix q b" and "b \<noteq> []"
  shows "trimmed (a @ c # b)"
  unfolding trimmed_def
proof (intro ballI conjI)
  fix q assume q: "q \<in> set space_seqs"
  show "\<not> suffix q (a @ c # b)" using suffix_last_part [OF q _ assms(3,5)] assms(4) q by blast
  show "\<not> prefix q (a @ c # b)"
  proof
    assume p: "prefix q (a @ c # b)"
    have "q \<noteq> []" using q by (rule space_seqs_nonempty)
    have "hd q = hd a" using p \<open>q \<noteq> []\<close> assms(2) by (cases q; cases a) auto
    with assms(1) q have a: "trimmed a" by auto
    from p have "prefix q a \<or> (\<exists>x. q = a @ c # x)"
      by (auto simp: prefix_append prefix_Cons)
    with a q have "\<exists>x. q = a @ c # x \<or> q = a" by (auto simp: trimmed_def)
    then have "c \<in> set q \<or> q = a" by auto
    then show False using space_seqs_ascii [OF q _ assms(3)] a q assms(2) \<open>\<exists>x. q = a @ c # x \<or> q = a\<close>
      by (auto simp: trimmed_def append_eq_Cons_conv)
  qed
qed

subsection \<open>Laws of the number formats\<close>

lemma digit16_hex_digit [simp]: "d < 16 \<Longrightarrow> digit16 (hex_digit d) = Some d"
  by (simp add: digit16_def hex_digit_def Let_def of_char_of take_bit_nat_eq_self)

lemma digit10_digit_char [simp]: "d < 10 \<Longrightarrow> digit10 (digit_char d) = Some d"
  by (simp add: digit10_def digit_char_def Let_def of_char_of take_bit_nat_eq_self)

lemma digits_value_append:
  "digits_value b dg acc (s @ t) = (case digits_value b dg acc s of None \<Rightarrow> None | Some v \<Rightarrow> digits_value b dg v t)"
  by (induction s arbitrary: acc) (auto split: option.split)

lemma digits_value_dec: "digits_value 10 digit10 0 (dec n) = Some n"
proof (induction n rule: dec.induct)
  case (1 n)
  show ?case
  proof (cases "n < 10")
    case True
    then show ?thesis by (subst dec.simps) simp
  next
    case False
    then show ?thesis using 1 by (subst dec.simps) (simp add: digits_value_append)
  qed
qed

lemma hex_round_trip [simp]: "DecodeString (EncodeToString b) = Some b"
proof (induction b)
  case (Cons c b)
  have "of_char c div 16 < (16 :: nat)" by (simp add: less_mult_imp_div_less)
  then show ?case using Cons by (simp add: EncodeToString_def)
qed (simp add: EncodeToString_def)

definition hex_digits :: string where
  "hex_digits = ''0123456789abcdef''"

lemma hex_digit_range: "d < 16 \<Longrightarrow> hex_digit d \<in> set hex_digits"
proof -
  have "\<forall>d \<in> set [0..<16]. hex_digit d \<in> set hex_digits" by code_simp
  then show "d < 16 \<Longrightarrow> hex_digit d \<in> set hex_digits" by simp
qed

lemma hex_chars: "set (EncodeToString b) \<subseteq> set hex_digits"
  by (auto simp: EncodeToString_def intro: hex_digit_range simp: less_mult_imp_div_less)

lemma hex_length [simp]: "length (EncodeToString b) = 2 * length b"
  by (induction b) (simp_all add: EncodeToString_def)

lemma utf8_ascii: "(\<forall>c \<in> set s. of_char c < (0x80 :: nat)) \<Longrightarrow> utf8_ok s"
proof (induction s)
  case (Cons c s)
  then have "utf8_tail c = Some []" by (simp add: in_range_def)
  then show ?case using Cons by (simp add: utf8_ok_def del: utf8_tail.simps)
qed (simp add: utf8_ok_def)

lemma hex_ascii: "c \<in> set (EncodeToString b) \<Longrightarrow> of_char c < (0x80 :: nat) \<and> c \<noteq> newline \<and> c \<noteq> space"
proof -
  have "\<forall>c \<in> set hex_digits. of_char c < (0x80 :: nat) \<and> c \<noteq> newline \<and> c \<noteq> space" by code_simp
  then show "c \<in> set (EncodeToString b) \<Longrightarrow> of_char c < (0x80 :: nat) \<and> c \<noteq> newline \<and> c \<noteq> space"
    using subsetD [OF hex_chars] by (rule bspec)
qed

lemma utf8_hex [simp]: "utf8_ok (EncodeToString b)"
  using hex_ascii by (intro utf8_ascii) blast

text \<open>A text with none of the bytes white space begins with is trimmed.\<close>

definition space_heads :: bytes where
  "space_heads = [CHR 0x09, CHR 0x0A, CHR 0x0B, CHR 0x0C, CHR 0x0D, CHR 0x20, CHR 0xC2, CHR 0xE1, CHR 0xE2, CHR 0xE3]"

lemma trimmed_free:
  assumes "\<forall>c \<in> set s. c \<notin> set space_heads"
  shows "trimmed s"
  unfolding trimmed_def
proof (intro ballI conjI)
  fix q assume q: "q \<in> set space_seqs"
  have "\<forall>q \<in> set space_seqs. hd q \<in> set space_heads" by code_simp
  then have "hd q \<in> set space_heads" "hd q \<in> set q" using q space_seqs_nonempty [OF q] by auto
  then have no: "\<not> set q \<subseteq> set s" using assms by blast
  show "\<not> prefix q s" using no set_mono_prefix by blast
  show "\<not> suffix q s" using no set_mono_suffix by blast
qed

lemma trimmed_hex: "trimmed (EncodeToString b)"
proof (rule trimmed_free, rule ballI)
  have "\<forall>c \<in> set hex_digits. c \<notin> set space_heads" by code_simp
  then show "c \<notin> set space_heads" if "c \<in> set (EncodeToString b)" for c
    using subsetD [OF hex_chars that] by (rule bspec)
qed

end
