(* ===== verification/Sync_Calls.thy ===== *)
theory Sync_Calls
  imports Await_Rules Go_Strings
begin

text \<open>
  Calls into the library that return at once: how an entry point reports its outcome (the macros and
  helpers of \<^verbatim>\<open>ffi.rs\<close>), how the wrappers of \<^verbatim>\<open>internal/ffi/calls.go\<close> take it over, and the wrappers
  for key material (\<^verbatim>\<open>keys.rs\<close>, \<^verbatim>\<open>keys.go\<close>). A call that begins with \<^verbatim>\<open>Load\<close> has as its argument \<open>ld\<close>
  the error that \<^verbatim>\<open>Load\<close> returns, if any: it runs once and its outcome is remembered.
\<close>

subsection \<open>Outcomes of Rust code\<close>

text \<open>\<open>None\<close> is a panic, which \<^verbatim>\<open>ffi_guard!\<close> catches at the entry point.\<close>

type_synonym 'a rust = "(rust_error + 'a) option"

abbreviation Ok :: "'a \<Rightarrow> 'a rust" where "Ok x \<equiv> Some (Inr x)"
abbreviation Err :: "rust_error \<Rightarrow> 'a rust" where "Err e \<equiv> Some (Inl e)"

text \<open>The question mark operator, and \<^verbatim>\<open>map_err\<close> on the error text of the code below.\<close>

definition rust_bind :: "'a rust \<Rightarrow> ('a \<Rightarrow> 'b rust) \<Rightarrow> 'b rust" where
  "rust_bind r f = (case r of None \<Rightarrow> None | Some (Inl e) \<Rightarrow> Err e | Some (Inr x) \<Rightarrow> f x)"

definition map_err :: "(string \<Rightarrow> rust_error) \<Rightarrow> string + 'a \<Rightarrow> 'a rust" where
  "map_err f r = (case r of Inl m \<Rightarrow> Err (f m) | Inr x \<Rightarrow> Ok x)"

text \<open>An entry point that yields owned bytes: status, pointer, length and error handle.\<close>

definition ffi_bytes :: "bytes rust \<Rightarrow> ('n, 'z) lib_scheme \<Rightarrow> (i32 \<times> nat \<times> nat \<times> u64) \<times> ('n, 'z) lib_scheme" where
  "ffi_bytes r w = (case r of
     None \<Rightarrow> ((- 1, 0, 0, 0), w)
   | Some (Inl e) \<Rightarrow> (let ((rc, h), w1) = store_err e w in ((rc, 0, 0, h), w1))
   | Some (Inr b) \<Rightarrow> (let ((p, n), w1) = out_bytes b w in ((FFI_OK, p, n, 0), w1)))"

text \<open>One that writes into memory of the caller: status, what was written, and error handle.\<close>

definition ffi_out :: "'a rust \<Rightarrow> ('n, 'z) lib_scheme \<Rightarrow> (i32 \<times> 'a option \<times> u64) \<times> ('n, 'z) lib_scheme" where
  "ffi_out r w = (case r of
     None \<Rightarrow> ((- 1, None, 0), w)
   | Some (Inl e) \<Rightarrow> (let ((rc, h), w1) = store_err e w in ((rc, None, h), w1))
   | Some (Inr x) \<Rightarrow> ((FFI_OK, Some x, 0), w))"

subsection \<open>The shared shapes of the wrappers\<close>

definition takeString :: "nat \<Rightarrow> nat \<Rightarrow> ('n, 'z) lib_scheme \<Rightarrow> string \<times> ('n, 'z) lib_scheme" where
  "takeString = takeBytes"

definition take_text :: "(i32 \<times> nat \<times> nat \<times> u64) \<times> ('n, 'z) lib_scheme \<Rightarrow> (go_error + string) \<times> ('n, 'z) lib_scheme" where
  "take_text r = (let ((rc, p, n, errh), w) = r in
     if rc \<noteq> 0 then (let (e, w1) = takeError errh w in (Inl e, w1))
     else (let (s, w1) = takeString p n w in (Inr s, w1)))"

definition textCall :: "go_error option \<Rightarrow> bytes \<Rightarrow>
    (bytes \<Rightarrow> ('n, 'z) lib_scheme \<Rightarrow> (i32 \<times> nat \<times> nat \<times> u64) \<times> ('n, 'z) lib_scheme) \<Rightarrow>
    ('n, 'z) lib_scheme \<Rightarrow> (go_error + string) \<times> ('n, 'z) lib_scheme" where
  "textCall ld inp call w = (case ld of Some e \<Rightarrow> (Inl e, w) | None \<Rightarrow> take_text (call inp w))"

text \<open>
  A wrapper around a call that writes to the caller's memory: \<open>old\<close> is what is there before. The
  memory afterwards is part of the result, whatever the error.
\<close>

definition take_out :: "'a \<Rightarrow> (i32 \<times> 'a option \<times> u64) \<times> ('n, 'z) lib_scheme \<Rightarrow>
    ('a \<times> go_error option) \<times> ('n, 'z) lib_scheme" where
  "take_out old r = (let ((rc, out, errh), w) = r; v = (case out of Some x \<Rightarrow> x | None \<Rightarrow> old) in
     if rc \<noteq> 0 then (let (e, w1) = takeError errh w in ((v, Some e), w1)) else ((v, None), w))"

subsection \<open>What a call that returns leaves behind\<close>

text \<open>
  The library is as it was, up to the numbers of its next handle and buffer, which no one holds.
\<close>

definition settled :: "('n, 'z) lib_scheme \<Rightarrow> ('n, 'z) lib_scheme \<Rightarrow> bool" where
  "settled w w' \<longleftrightarrow> (\<exists>rg nb. w' = w\<lparr>reg := rg, next_buf := nb\<rparr> \<and> lookup rg = live w \<and>
     (next_id rg = next_id (reg w) \<or> next_id rg = next_id (reg w) + 1))"

text \<open>No buffer is out, and the table can give out \<open>k\<close> more handles, none of them taken or null.\<close>

definition ready :: "nat \<Rightarrow> ('n, 'z) lib_scheme \<Rightarrow> bool" where
  "ready k w \<longleftrightarrow> bufs w = Map.empty \<and> (\<forall>h \<ge> next_id (reg w). live w h = None) \<and> next_id (reg w) > 0 \<and>
     unat (next_id (reg w)) + k < 2 ^ 64"

lemma settled_refl [simp]: "settled w w"
  unfolding settled_def by (rule exI [of _ "reg w"], rule exI [of _ "next_buf w"]) simp

lemma settled_frame:
  assumes "settled w w'"
  shows "live w' = live w" "bufs w' = bufs w" "queue w' = queue w" "tasks w' = tasks w" "fault w' = fault w"
    "net w' = net w" "shut w' = shut w" "lib.more w' = lib.more w"
  using assms by (auto simp: settled_def)

text \<open>The outcome of Rust code as the wrappers report it.\<close>

definition go_outcome :: "'a rust \<Rightarrow> go_error + 'a" where
  "go_outcome r = (case r of
     None \<Rightarrow> Inl (NewError 0 ''iroh: call failed without reporting a reason'')
   | Some (Inl e) \<Rightarrow> Inl (NewError (kind_code (err_kind e)) (err_msg e))
   | Some (Inr x) \<Rightarrow> Inr x)"

lemma take_stored_error:
  assumes "ready (Suc k) w" and "store_err e w = ((rc, h), w1)"
  shows "\<exists>w2. takeError h w1 = (NewError (kind_code (err_kind e)) (err_msg e), w2) \<and> settled w w2" and "rc = FFI_ERR"
proof -
  from assms(2) have h: "h = next_id (reg w)" "rc = FFI_ERR"
    and w1: "w1 = w\<lparr>reg := snd (insert_slot (SErr e) (reg w))\<rparr>"
    by (auto simp: store_err_def case_prod_unfold Let_def)
      (simp_all add: live_simps)
  show "rc = FFI_ERR" by (rule h(2))
  have "live w1 h = Some (SErr e)" "h \<noteq> 0" "bufs w1 = Map.empty"
    using assms(1) by (simp_all add: w1 h live_simps ready_def word_gt_0)
  from takeError_stored [OF this] obtain nb where t: "takeError h w1 = (NewError (kind_code (err_kind e)) (err_msg e),
    w1\<lparr>reg := snd (remove h (reg w1)), next_buf := nb\<rparr>)" by blast
  have "lookup (snd (remove h (reg w1))) = live w"
    using assms(1) \<open>h \<noteq> 0\<close> by (auto simp: w1 h live_simps ready_def fun_eq_iff)
  then have "settled w (w1\<lparr>reg := snd (remove h (reg w1)), next_buf := nb\<rparr>)"
    unfolding settled_def w1
    by (intro exI [of _ "snd (remove h (reg w1))"] exI [of _ nb]) (simp add: w1, simp add: live_simps)
  then show "\<exists>w2. takeError h w1 = (NewError (kind_code (err_kind e)) (err_msg e), w2) \<and> settled w w2" using t by blast
qed

lemma take_out_bytes:
  assumes "bufs w = Map.empty" and "out_bytes b w = ((p, n), w1)"
  shows "\<exists>w2. takeBytes p n w1 = (b, w2) \<and> settled w w2"
proof (cases "b = []")
  case True
  then have "p = 0" "w1 = w" using assms(2) by (auto simp: out_bytes_def)
  then show ?thesis using True by (auto simp: takeBytes_def)
next
  case False
  then have p: "p = Suc (next_buf w)" "n = length b"
    "w1 = w\<lparr>bufs := (bufs w)(Suc (next_buf w) \<mapsto> b), next_buf := Suc (next_buf w)\<rparr>"
    using assms(2) by (auto simp: out_bytes_def)
  have "Map.empty(Suc (next_buf w) := None) = (Map.empty :: nat \<rightharpoonup> bytes)" by auto
  then have t: "takeBytes p n w1 = (b, w\<lparr>next_buf := Suc (next_buf w)\<rparr>)"
    using assms(1) False by (cases w) (simp add: p takeBytes_def unsafe_Slice_def free_bytes_def)
  moreover have "settled w (w\<lparr>next_buf := Suc (next_buf w)\<rparr>)"
    unfolding settled_def by (rule exI [of _ "reg w"], rule exI [of _ "Suc (next_buf w)"]) simp
  ultimately show ?thesis by blast
qed

lemma take_text_rule:
  assumes "ready (Suc k) w"
  shows "\<exists>w'. take_text (ffi_bytes r w) = (go_outcome r, w') \<and> settled w w'"
proof (cases r)
  case None
  then show ?thesis by (simp add: take_text_def ffi_bytes_def go_outcome_def takeError_def)
next
  case (Some x)
  show ?thesis
  proof (cases x)
    case (Inl e)
    obtain rc h w1 where s: "store_err e w = ((rc, h), w1)" by (metis prod.collapse)
    from take_stored_error [OF assms s] show ?thesis
      by (auto simp: Some Inl take_text_def ffi_bytes_def go_outcome_def s FFI_ERR_def)
  next
    case (Inr b)
    obtain p n w1 where o: "out_bytes b w = ((p, n), w1)" by (metis prod.collapse)
    from take_out_bytes [OF _ o] assms show ?thesis
      by (auto simp: Some Inr take_text_def ffi_bytes_def go_outcome_def o FFI_OK_def takeString_def ready_def)
  qed
qed

lemma text_call_rule:
  assumes "ready (Suc k) w" and "call inp = ffi_bytes r"
  shows "\<exists>w'. textCall None inp call w = (go_outcome r, w') \<and> settled w w'"
  using take_text_rule [OF assms(1), of r] by (simp add: textCall_def assms(2))

lemma take_out_rule:
  assumes "ready (Suc k) w"
  shows "\<exists>w'. take_out old (ffi_out r w) =
      ((case r of Some (Inr x) \<Rightarrow> (x, None) | _ \<Rightarrow> (old, Some (case go_outcome r of Inl e \<Rightarrow> e))), w') \<and> settled w w'"
proof (cases r)
  case None
  then show ?thesis by (simp add: take_out_def ffi_out_def go_outcome_def takeError_def)
next
  case (Some x)
  show ?thesis
  proof (cases x)
    case (Inl e)
    obtain rc h w1 where s: "store_err e w = ((rc, h), w1)" by (metis prod.collapse)
    from take_stored_error [OF assms s] show ?thesis
      by (auto simp: Some Inl take_out_def ffi_out_def go_outcome_def s FFI_ERR_def)
  qed (auto simp: Some take_out_def ffi_out_def FFI_OK_def)
qed

lemma ready_settled:
  assumes "ready (Suc k) w" and "settled w w'"
  shows "ready k w'"
proof -
  have n: "unat (next_id (reg w)) + 1 < 2 ^ 64" using assms(1) by (simp add: ready_def)
  note r = assms(1) [unfolded ready_def]
  have u: "unat (next_id (reg w) + 1) = unat (next_id (reg w)) + 1" "next_id (reg w) < next_id (reg w) + 1"
    using unat_Suc_word [OF n] word_less_succ(1) [OF n] by simp_all
  have "next_id (reg w') = next_id (reg w) \<or> next_id (reg w') = next_id (reg w) + 1"
    using assms(2) by (auto simp: settled_def)
  then show ?thesis
  proof
    assume "next_id (reg w') = next_id (reg w)"
    then show ?thesis using r by (simp add: ready_def settled_frame [OF assms(2)])
  next
    assume e: "next_id (reg w') = next_id (reg w) + 1"
    have "live w h = None" if "next_id (reg w) + 1 \<le> h" for h
      using r that u(2) by (meson less_imp_le order_trans)
    moreover have "0 < next_id (reg w) + 1" using r u(2) by (meson order.strict_trans)
    ultimately show ?thesis using r u(1) by (simp add: ready_def settled_frame [OF assms(2)] e)
  qed
qed

subsection \<open>The crate's keys, addresses and tickets: the parameter\<close>

text \<open>
  Parsing, printing and the cryptography of keys, relay urls, socket addresses and tickets belong to
  the crates the library is built on; each is one function here. A text that cannot be parsed gives
  the message of its error. \<open>k_debug\<close> is how Rust renders a string with \<^verbatim>\<open>{:?}\<close>, and \<open>k_utf8_error\<close> the
  message for bytes that are no UTF-8.
\<close>

record codec =
  k_parse_id :: "string \<Rightarrow> string + bytes"
  k_id_error :: "bytes \<Rightarrow> string option"
  k_id_text :: "bytes \<Rightarrow> string"
  k_public :: "bytes \<Rightarrow> bytes"
  k_sign :: "bytes \<Rightarrow> bytes \<Rightarrow> bytes"
  k_verify :: "bytes \<Rightarrow> bytes \<Rightarrow> bytes \<Rightarrow> string option"
  k_relay_url :: "string \<Rightarrow> string + string"
  k_socket_addr :: "string \<Rightarrow> string + string"
  k_from_parts :: "bytes \<Rightarrow> transport list \<Rightarrow> endpoint_addr"
  k_ticket_text :: "endpoint_addr \<Rightarrow> string"
  k_parse_ticket :: "string \<Rightarrow> string + endpoint_addr"
  k_debug :: "string \<Rightarrow> string"
  k_utf8_error :: "bytes \<Rightarrow> string"

subsection \<open>Keys in the library (keys.rs)\<close>

definition str_arg :: "codec \<Rightarrow> bytes \<Rightarrow> string rust" where
  "str_arg K b = (if utf8_ok b then Ok b else Err (rerr InvalidInput (''invalid utf-8: '' @ k_utf8_error K b)))"

definition secret_key :: "bytes \<Rightarrow> bytes rust" where
  "secret_key b = (if length b = 32 then Ok b else Err (rerr KeyParsing ''secret key must be 32 bytes''))"

definition endpoint_id :: "codec \<Rightarrow> bytes \<Rightarrow> bytes rust" where
  "endpoint_id K b = (if length b \<noteq> 32 then Err (rerr KeyParsing ''endpoint id must be 32 bytes'')
     else case k_id_error K b of Some m \<Rightarrow> Err (rerr KeyParsing m) | None \<Rightarrow> Ok b)"

text \<open>The secret key that the random number generator gives is an argument.\<close>

definition iroh_secret_key_generate :: "bytes \<Rightarrow> ('n, 'z) lib_scheme \<Rightarrow> (i32 \<times> bytes option \<times> u64) \<times> ('n, 'z) lib_scheme" where
  "iroh_secret_key_generate random w = ((FFI_OK, Some random, 0), w)"

definition iroh_secret_key_public :: "codec \<Rightarrow> bytes \<Rightarrow> ('n, 'z) lib_scheme \<Rightarrow> (i32 \<times> bytes option \<times> u64) \<times> ('n, 'z) lib_scheme" where
  "iroh_secret_key_public K key = ffi_out (rust_bind (secret_key key) (\<lambda>k. Ok (k_public K k)))"

definition iroh_secret_key_sign :: "codec \<Rightarrow> bytes \<Rightarrow> bytes \<Rightarrow> ('n, 'z) lib_scheme \<Rightarrow>
    (i32 \<times> bytes option \<times> u64) \<times> ('n, 'z) lib_scheme" where
  "iroh_secret_key_sign K key msg = ffi_out (rust_bind (secret_key key) (\<lambda>k. Ok (k_sign K k msg)))"

definition iroh_endpoint_id_verify :: "codec \<Rightarrow> bytes \<Rightarrow> bytes \<Rightarrow> bytes \<Rightarrow> ('n, 'z) lib_scheme \<Rightarrow>
    (i32 \<times> unit option \<times> u64) \<times> ('n, 'z) lib_scheme" where
  "iroh_endpoint_id_verify K i msg sig = ffi_out (rust_bind (endpoint_id K i) (\<lambda>i.
     if length sig \<noteq> 64 then Err (rerr KeyParsing ''signature must be 64 bytes'')
     else case k_verify K i msg sig of Some m \<Rightarrow> Err (rerr KeyParsing m) | None \<Rightarrow> Ok ()))"

definition iroh_endpoint_id_format :: "codec \<Rightarrow> bytes \<Rightarrow> ('n, 'z) lib_scheme \<Rightarrow>
    (i32 \<times> nat \<times> nat \<times> u64) \<times> ('n, 'z) lib_scheme" where
  "iroh_endpoint_id_format K i = ffi_bytes (rust_bind (endpoint_id K i) (\<lambda>i. Ok (k_id_text K i)))"

definition iroh_endpoint_id_parse :: "codec \<Rightarrow> bytes \<Rightarrow> ('n, 'z) lib_scheme \<Rightarrow> (i32 \<times> bytes option \<times> u64) \<times> ('n, 'z) lib_scheme" where
  "iroh_endpoint_id_parse K s = ffi_out (rust_bind (str_arg K s) (\<lambda>s. map_err (rerr KeyParsing) (k_parse_id K s)))"

subsection \<open>Keys in the bindings (calls.go, keys.go)\<close>

text \<open>The array after the call, and the error.\<close>

definition SecretKeyGenerate :: "bytes \<Rightarrow> go_error option \<Rightarrow> bytes \<Rightarrow> ('n, 'z) lib_scheme \<Rightarrow>
    (bytes \<times> go_error option) \<times> ('n, 'z) lib_scheme" where
  "SecretKeyGenerate random ld out w = (case ld of Some e \<Rightarrow> ((out, Some e), w)
     | None \<Rightarrow> (case iroh_secret_key_generate random w of ((_, x, _), w1) \<Rightarrow> ((case x of Some k \<Rightarrow> k | None \<Rightarrow> out, None), w1)))"

definition SecretKeyPublic :: "codec \<Rightarrow> go_error option \<Rightarrow> bytes \<Rightarrow> bytes \<Rightarrow> ('n, 'z) lib_scheme \<Rightarrow>
    (bytes \<times> go_error option) \<times> ('n, 'z) lib_scheme" where
  "SecretKeyPublic K ld key outID w = (case ld of Some e \<Rightarrow> ((outID, Some e), w)
     | None \<Rightarrow> take_out outID (iroh_secret_key_public K key w))"

definition SecretKeySign :: "codec \<Rightarrow> go_error option \<Rightarrow> bytes \<Rightarrow> bytes \<Rightarrow> bytes \<Rightarrow> ('n, 'z) lib_scheme \<Rightarrow>
    (bytes \<times> go_error option) \<times> ('n, 'z) lib_scheme" where
  "SecretKeySign K ld key msg outSig w = (case ld of Some e \<Rightarrow> ((outSig, Some e), w)
     | None \<Rightarrow> take_out outSig (iroh_secret_key_sign K key msg w))"

definition EndpointIDVerify :: "codec \<Rightarrow> go_error option \<Rightarrow> bytes \<Rightarrow> bytes \<Rightarrow> bytes \<Rightarrow> ('n, 'z) lib_scheme \<Rightarrow>
    go_error option \<times> ('n, 'z) lib_scheme" where
  "EndpointIDVerify K ld i msg sig w = (case ld of Some e \<Rightarrow> (Some e, w)
     | None \<Rightarrow> (case take_out () (iroh_endpoint_id_verify K i msg sig w) of ((_, e), w1) \<Rightarrow> (e, w1)))"

definition EndpointIDFormat :: "codec \<Rightarrow> go_error option \<Rightarrow> bytes \<Rightarrow> ('n, 'z) lib_scheme \<Rightarrow>
    (go_error + string) \<times> ('n, 'z) lib_scheme" where
  "EndpointIDFormat K ld i w = textCall ld i (iroh_endpoint_id_format K) w"

definition EndpointIDParse :: "codec \<Rightarrow> go_error option \<Rightarrow> string \<Rightarrow> bytes \<Rightarrow> ('n, 'z) lib_scheme \<Rightarrow>
    (bytes \<times> go_error option) \<times> ('n, 'z) lib_scheme" where
  "EndpointIDParse K ld s outID w = (case ld of Some e \<Rightarrow> ((outID, Some e), w)
     | None \<Rightarrow> take_out outID (iroh_endpoint_id_parse K s w))"

definition GenerateSecretKey :: "bytes \<Rightarrow> go_error option \<Rightarrow> ('n, 'z) lib_scheme \<Rightarrow>
    (bytes \<times> go_error option) \<times> ('n, 'z) lib_scheme" where
  "GenerateSecretKey random ld w = SecretKeyGenerate random ld (replicate 32 (CHR 0x00)) w"

definition Public :: "codec \<Rightarrow> go_error option \<Rightarrow> bytes \<Rightarrow> ('n, 'z) lib_scheme \<Rightarrow> (bytes \<times> go_error option) \<times> ('n, 'z) lib_scheme" where
  "Public K ld k w = SecretKeyPublic K ld k zero_id w"

definition Sign :: "codec \<Rightarrow> go_error option \<Rightarrow> bytes \<Rightarrow> bytes \<Rightarrow> ('n, 'z) lib_scheme \<Rightarrow>
    (bytes \<times> go_error option) \<times> ('n, 'z) lib_scheme" where
  "Sign K ld k msg w = SecretKeySign K ld k msg (replicate 64 (CHR 0x00)) w"

definition ParseEndpointID :: "codec \<Rightarrow> go_error option \<Rightarrow> string \<Rightarrow> ('n, 'z) lib_scheme \<Rightarrow>
    (bytes \<times> go_error option) \<times> ('n, 'z) lib_scheme" where
  "ParseEndpointID K ld s w = EndpointIDParse K ld s zero_id w"

definition EndpointID_String :: "bytes \<Rightarrow> string" where
  "EndpointID_String i = EncodeToString i"

definition Short :: "bytes \<Rightarrow> string" where
  "Short i = EncodeToString (take 5 i)"

definition IsZero :: "bytes \<Rightarrow> bool" where
  "IsZero i \<longleftrightarrow> i = zero_id"

definition Verify :: "codec \<Rightarrow> go_error option \<Rightarrow> bytes \<Rightarrow> bytes \<Rightarrow> bytes \<Rightarrow> ('n, 'z) lib_scheme \<Rightarrow>
    go_error option \<times> ('n, 'z) lib_scheme" where
  "Verify K ld i msg sig w = EndpointIDVerify K ld i msg sig w"

definition Signature_String :: "bytes \<Rightarrow> string" where
  "Signature_String s = EncodeToString s"

text \<open>What parsing the text of an id yields: \<open>out\<close> is the caller's memory before.\<close>

definition parsed_id :: "codec \<Rightarrow> string \<Rightarrow> bytes \<Rightarrow> bytes \<times> go_error option" where
  "parsed_id K t out = (if utf8_ok t then (case k_parse_id K t of Inr i \<Rightarrow> (i, None)
       | Inl m \<Rightarrow> (out, Some (NewError (kind_code KeyParsing) m)))
     else (out, Some (NewError (kind_code InvalidInput) (''invalid utf-8: '' @ k_utf8_error K t))))"

lemma id_parse_rule:
  assumes "ready (Suc k) w"
  shows "\<exists>w'. EndpointIDParse K None t out w = (parsed_id K t out, w') \<and> settled w w'"
  using take_out_rule [OF assms(1), of out "rust_bind (str_arg K t) (\<lambda>s. map_err (rerr KeyParsing) (k_parse_id K s))"]
  by (auto simp: EndpointIDParse_def iroh_endpoint_id_parse_def rust_bind_def str_arg_def map_err_def parsed_id_def
      go_outcome_def split: sum.splits)

lemma parse_id_ok: "utf8_ok s \<Longrightarrow> k_parse_id K s = Inr i \<Longrightarrow> ParseEndpointID K None s w = ((i, None), w)"
  by (simp add: ParseEndpointID_def EndpointIDParse_def iroh_endpoint_id_parse_def rust_bind_def str_arg_def map_err_def
      take_out_def ffi_out_def FFI_OK_def)

subsection \<open>Errors by their sentinel\<close>

text \<open>The sentinel documented for each kind of error of the library.\<close>

primrec sentinel_of :: "ErrKind \<Rightarrow> sentinel" where
  "sentinel_of Internal = ErrInternal"
| "sentinel_of InvalidInput = ErrInvalidInput"
| "sentinel_of KeyParsing = ErrKeyParsing"
| "sentinel_of TicketParsing = ErrTicketParsing"
| "sentinel_of Bind = ErrBind"
| "sentinel_of Connect = ErrConnect"
| "sentinel_of Connection = ErrConnection"
| "sentinel_of Stream = ErrStream"
| "sentinel_of Datagram = ErrDatagram"
| "sentinel_of Alpn = ErrALPN"
| "sentinel_of Relay = ErrRelay"
| "sentinel_of Closed = ErrClosed"
| "sentinel_of Timeout = ErrTimeout"
| "sentinel_of Cancelled = ErrCancelled"

lemma sentinelFor_kind_code: "sentinelFor (sint (kind_code q)) = sentinel_of q"
  by (cases q) (simp_all add: kind_code_def sentinelFor_def sentinels_def kind_defs)

lemma kind_code_range:
  assumes "sint k \<in> {0..13}"
  shows "\<exists>q. k = kind_code q"
proof -
  have "k = word_of_int (sint k)" by simp
  moreover have "sint k \<in> set [0..13]" using assms by simp
  moreover have "\<forall>n \<in> set [0..13]. \<exists>q. word_of_int n = kind_code q"
  proof -
    have "map word_of_int [0..13] = map kind_code [Internal, InvalidInput, KeyParsing, TicketParsing, Bind, Connect, Connection,
        Stream, Datagram, Alpn, Relay, Closed, Timeout, Cancelled]"
      by (simp add: kind_code_def upto.simps)
    then have "word_of_int n \<in> set (map kind_code [Internal, InvalidInput, KeyParsing, TicketParsing, Bind, Connect, Connection,
        Stream, Datagram, Alpn, Relay, Closed, Timeout, Cancelled])" if "n \<in> set [0..13]" for n
      using that by (metis image_eqI list.set_map)
    then show ?thesis by fastforce
  qed
  ultimately show ?thesis by metis
qed

text \<open>
  C20: \<^verbatim>\<open>errors.Is(err, sentinel)\<close> tells the errors of the package apart by their kind, and only by it: an error
  that the library reports with a kind is recognised by the sentinel of the same name and by no other, from the
  number of \<^verbatim>\<open>error.rs\<close> through \<^verbatim>\<open>NewError\<close> and \<^verbatim>\<open>Unwrap\<close>, and any other number is reported as \<^verbatim>\<open>ErrInternal\<close>.
\<close>

theorem error_kind_is_sentinel:
  "(errors_Is (NewError (kind_code q) m) (Sentinel s) \<longleftrightarrow> s = sentinel_of q) \<and>
   (errors_Is (NewError k m) (Sentinel s) \<longleftrightarrow> (if k \<in> range kind_code then \<exists>q. k = kind_code q \<and> s = sentinel_of q else s = ErrInternal))"
proof -
  have is_for: "errors_Is (NewError n m) (Sentinel s) \<longleftrightarrow> s = sentinelFor (sint n)" for n
    by (simp only: NewError_def errors_Is_Error_sentinel)
  have "s = sentinelFor (sint k) \<longleftrightarrow> (if k \<in> range kind_code then \<exists>q. k = kind_code q \<and> s = sentinel_of q else s = ErrInternal)"
  proof (cases "k \<in> range kind_code")
    case True
    then obtain p where p: "k = kind_code p" by blast
    have "(\<exists>q. kind_code p = kind_code q \<and> s = sentinel_of q) \<longleftrightarrow> s = sentinel_of p"
      using sentinelFor_kind_code by metis
    then show ?thesis by (simp add: p sentinelFor_kind_code)
  next
    case False
    then have "sint k \<notin> {0..13}" using kind_code_range [of k] by blast
    then show ?thesis using False by (simp add: sentinelFor_other)
  qed
  then show ?thesis unfolding is_for sentinelFor_kind_code by (intro conjI refl)
qed

subsection \<open>Calls on key material\<close>

text \<open>
  C27: a call that works on key material reports what the crate computed or its error, and gives the
  error object back; the library is as it was before, on every path. The buffer of the caller is
  written only on success. These are all the calls of \<^verbatim>\<open>keys.go\<close> and \<^verbatim>\<open>calls.go\<close> that take or give keys and ids.
\<close>

theorem key_calls_settle:
  assumes "ready (Suc k) w"
  shows "(\<exists>w'. Public K None key w = ((if length key = 32 then (k_public K key, None)
        else (zero_id, Some (NewError (kind_code KeyParsing) ''secret key must be 32 bytes''))), w') \<and> settled w w') \<and>
    (\<exists>w'. Sign K None key msg w = ((if length key = 32 then (k_sign K key msg, None)
        else (replicate 64 (CHR 0x00), Some (NewError (kind_code KeyParsing) ''secret key must be 32 bytes''))), w') \<and> settled w w') \<and>
    (\<exists>e w'. Verify K None i msg sig w = (e, w') \<and> settled w w' \<and>
       (e = None \<longleftrightarrow> length i = 32 \<and> k_id_error K i = None \<and> length sig = 64 \<and> k_verify K i msg sig = None)) \<and>
    (\<exists>r w'. EndpointIDFormat K None i w = (r, w') \<and> settled w w' \<and>
       (\<forall>s. r = Inr s \<longleftrightarrow> length i = 32 \<and> k_id_error K i = None \<and> s = k_id_text K i)) \<and>
    (\<exists>w'. EndpointIDParse K None t out w = (parsed_id K t out, w') \<and> settled w w') \<and>
    (\<exists>w'. ParseEndpointID K None t w = (parsed_id K t zero_id, w') \<and> settled w w') \<and>
    GenerateSecretKey random None w = ((random, None), w)"
proof (intro conjI)
  note rule = take_out_rule [OF assms]
  show "\<exists>w'. Public K None key w = ((if length key = 32 then (k_public K key, None)
        else (zero_id, Some (NewError (kind_code KeyParsing) ''secret key must be 32 bytes''))), w') \<and> settled w w'"
    using rule [of zero_id "rust_bind (secret_key key) (\<lambda>k. Ok (k_public K k))"]
    by (auto simp: Public_def SecretKeyPublic_def iroh_secret_key_public_def rust_bind_def secret_key_def go_outcome_def split: if_splits)
  show "\<exists>w'. Sign K None key msg w = ((if length key = 32 then (k_sign K key msg, None)
        else (replicate 64 (CHR 0x00), Some (NewError (kind_code KeyParsing) ''secret key must be 32 bytes''))), w') \<and> settled w w'"
    using rule [of "replicate 64 (CHR 0x00)" "rust_bind (secret_key key) (\<lambda>k. Ok (k_sign K k msg))"]
    by (auto simp: Sign_def SecretKeySign_def iroh_secret_key_sign_def rust_bind_def secret_key_def go_outcome_def split: if_splits)
  show "\<exists>e w'. Verify K None i msg sig w = (e, w') \<and> settled w w' \<and>
       (e = None \<longleftrightarrow> length i = 32 \<and> k_id_error K i = None \<and> length sig = 64 \<and> k_verify K i msg sig = None)"
    using rule [of "()" "rust_bind (endpoint_id K i) (\<lambda>i. if length sig \<noteq> 64 then Err (rerr KeyParsing ''signature must be 64 bytes'')
     else case k_verify K i msg sig of Some m \<Rightarrow> Err (rerr KeyParsing m) | None \<Rightarrow> Ok ())"]
    by (auto simp: Verify_def EndpointIDVerify_def iroh_endpoint_id_verify_def rust_bind_def endpoint_id_def go_outcome_def
        split: if_splits option.splits)
  show "\<exists>r w'. EndpointIDFormat K None i w = (r, w') \<and> settled w w' \<and>
       (\<forall>s. r = Inr s \<longleftrightarrow> length i = 32 \<and> k_id_error K i = None \<and> s = k_id_text K i)"
    using take_text_rule [OF assms, of "rust_bind (endpoint_id K i) (\<lambda>i. Ok (k_id_text K i))"]
    by (auto simp: EndpointIDFormat_def textCall_def iroh_endpoint_id_format_def rust_bind_def endpoint_id_def go_outcome_def
        split: if_splits option.splits)
  show "\<exists>w'. EndpointIDParse K None t out w = (parsed_id K t out, w') \<and> settled w w'" by (rule id_parse_rule [OF assms])
  show "\<exists>w'. ParseEndpointID K None t w = (parsed_id K t zero_id, w') \<and> settled w w'"
    unfolding ParseEndpointID_def by (rule id_parse_rule [OF assms])
  show "GenerateSecretKey random None w = ((random, None), w)"
    by (simp add: GenerateSecretKey_def SecretKeyGenerate_def iroh_secret_key_generate_def)
qed

text \<open>
  A codec for the examples: an id is its hexadecimal form, urls and socket addresses are what they are
  written as, and the ticket of an address is its id and its first transport in plain text.
\<close>

definition plain :: codec where
  "plain = \<lparr>k_parse_id = \<lambda>s. (case DecodeString s of Some b \<Rightarrow> if length b = 32 then Inr b else Inl ''bad length'' | None \<Rightarrow> Inl ''bad key''),
     k_id_error = \<lambda>_. None, k_id_text = EncodeToString, k_public = rev, k_sign = \<lambda>k m. take 64 (k @ m @ replicate 64 (CHR 0x00)),
     k_verify = \<lambda>_ _ _. None, k_relay_url = Inr, k_socket_addr = Inr,
     k_from_parts = \<lambda>i ts. \<lparr>ra_id = i, ra_addrs = ts\<rparr>, k_ticket_text = EncodeToString \<circ> ra_id,
     k_parse_ticket = \<lambda>s. (case DecodeString s of Some b \<Rightarrow> Inr \<lparr>ra_id = b, ra_addrs = []\<rparr> | None \<Rightarrow> Inl ''bad ticket''),
     k_debug = \<lambda>s. ''\"'' @ s @ ''\"'', k_utf8_error = \<lambda>_. ''incomplete utf-8 byte sequence''\<rparr>"

lemma ready_init: "ready 100 (pump_init n)"
  by (simp add: ready_def pump_init_def live_simps)

theorem key_calls_settle_witness:
  "\<exists>w'. Public plain None (replicate 32 (CHR ''k'')) (pump_init echo_start) = ((replicate 32 (CHR ''k''), None), w')
     \<and> settled (pump_init echo_start) w'"
  using key_calls_settle [OF ready_init [unfolded eval_nat_numeral], of plain "replicate 32 (CHR ''k'')" echo_start]
  by (simp add: plain_def)

end
