(* ===== verification/Connections.thy ===== *)
theory Connections
  imports Streams Sync_Calls
begin

text \<open>
  Connections (\<^verbatim>\<open>conn.go\<close>) with the calls on them that return at once (\<^verbatim>\<open>conn.rs\<close>, \<^verbatim>\<open>calls.go\<close>). A method of
  the connection at the address \<open>a\<close> is a function of \<open>a\<close>. The mutex of \<^verbatim>\<open>RemoteID\<close> is held across one
  such call only and is taken nowhere else, so it needs no steps of its own.
\<close>

subsection \<open>What the crate answers at once: the parameter\<close>

text \<open>
  The queries of the crate's \<^verbatim>\<open>Connection\<close> and \<^verbatim>\<open>Endpoint\<close> types, on the object behind a handle. A path has
  its kind, whether it is selected, its round-trip time in microseconds and the text of its remote
  address.
\<close>

record 'n queries =
  q_send_datagram :: "u64 \<Rightarrow> bytes \<Rightarrow> 'n \<Rightarrow> (string + unit) \<times> 'n"
  q_max_datagram_size :: "u64 \<Rightarrow> 'n \<Rightarrow> u64 option"
  q_remote_id :: "u64 \<Rightarrow> 'n \<Rightarrow> bytes"
  q_alpn :: "u64 \<Rightarrow> 'n \<Rightarrow> bytes"
  q_stats :: "u64 \<Rightarrow> 'n \<Rightarrow> u64 \<times> u64 \<times> u64 \<times> u64 \<times> u64 \<times> u64"
  q_paths :: "u64 \<Rightarrow> 'n \<Rightarrow> (addr_kind \<times> bool \<times> nat \<times> string) list"
  q_close :: "u64 \<Rightarrow> u64 \<Rightarrow> bytes \<Rightarrow> 'n \<Rightarrow> 'n"
  q_varint :: "u64 \<Rightarrow> string + u64"
  q_endpoint_id :: "u64 \<Rightarrow> 'n \<Rightarrow> bytes"
  q_endpoint_addr :: "u64 \<Rightarrow> 'n \<Rightarrow> endpoint_addr"
  q_bound_sockets :: "u64 \<Rightarrow> 'n \<Rightarrow> string list"

subsection \<open>Entry points (conn.rs)\<close>

definition get_conn :: "u64 \<Rightarrow> ('n, 'z) lib_scheme \<Rightarrow> unit rust" where
  "get_conn h w = Some (get_slot as_conn h (reg w))"

definition iroh_conn_send_datagram :: "'n queries \<Rightarrow> u64 \<Rightarrow> bytes \<Rightarrow> ('n, 'z) lib_scheme \<Rightarrow>
    (i32 \<times> unit option \<times> u64) \<times> ('n, 'z) lib_scheme" where
  "iroh_conn_send_datagram Q h data w = (case get_conn h w of
     Some (Inr _) \<Rightarrow> (case q_send_datagram Q h data (net w) of
         (Inl m, n) \<Rightarrow> ffi_out (Err (rerr Datagram m)) (w\<lparr>net := n\<rparr>)
       | (Inr _, n) \<Rightarrow> ffi_out (Ok ()) (w\<lparr>net := n\<rparr>))
   | r \<Rightarrow> ffi_out r w)"

definition iroh_conn_max_datagram_size :: "'n queries \<Rightarrow> u64 \<Rightarrow> ('n, 'z) lib_scheme \<Rightarrow>
    (i32 \<times> u64 option \<times> u64) \<times> ('n, 'z) lib_scheme" where
  "iroh_conn_max_datagram_size Q h w = ffi_out (rust_bind (get_conn h w) (\<lambda>_.
     Ok (case q_max_datagram_size Q h (net w) of Some n \<Rightarrow> n | None \<Rightarrow> 0))) w"

definition iroh_conn_remote_id :: "'n queries \<Rightarrow> u64 \<Rightarrow> ('n, 'z) lib_scheme \<Rightarrow>
    (i32 \<times> bytes option \<times> u64) \<times> ('n, 'z) lib_scheme" where
  "iroh_conn_remote_id Q h w = ffi_out (rust_bind (get_conn h w) (\<lambda>_. Ok (q_remote_id Q h (net w)))) w"

definition iroh_conn_alpn :: "'n queries \<Rightarrow> u64 \<Rightarrow> ('n, 'z) lib_scheme \<Rightarrow>
    (i32 \<times> nat \<times> nat \<times> u64) \<times> ('n, 'z) lib_scheme" where
  "iroh_conn_alpn Q h w = ffi_bytes (rust_bind (get_conn h w) (\<lambda>_. Ok (q_alpn Q h (net w)))) w"

text \<open>The capacity of the caller's array is an argument.\<close>

definition iroh_conn_stats :: "'n queries \<Rightarrow> u64 \<Rightarrow> nat \<Rightarrow> ('n, 'z) lib_scheme \<Rightarrow>
    (i32 \<times> u64 list option \<times> u64) \<times> ('n, 'z) lib_scheme" where
  "iroh_conn_stats Q h out_cap w = ffi_out (rust_bind (get_conn h w) (\<lambda>_.
     if out_cap < 6 then Err (rerr InvalidInput ''stats buffer must hold 6 u64 values'')
     else case q_stats Q h (net w) of (a, b, c, d, e, f) \<Rightarrow> Ok [a, b, c, d, e, f])) w"

definition path_line :: "addr_kind \<times> bool \<times> nat \<times> string \<Rightarrow> string" where
  "path_line p = (case p of (k, sel, micros, remote) \<Rightarrow>
     kind_text k @ tab # (if sel then ''1'' else ''0'') @ tab # dec micros @ tab # remote)"

definition iroh_conn_paths :: "'n queries \<Rightarrow> u64 \<Rightarrow> ('n, 'z) lib_scheme \<Rightarrow>
    (i32 \<times> nat \<times> nat \<times> u64) \<times> ('n, 'z) lib_scheme" where
  "iroh_conn_paths Q h w = ffi_bytes (rust_bind (get_conn h w) (\<lambda>_.
     Ok (join newline (map path_line (q_paths Q h (net w)))))) w"

definition iroh_conn_close :: "'n queries \<Rightarrow> u64 \<Rightarrow> u64 \<Rightarrow> bytes \<Rightarrow> ('n, 'z) lib_scheme \<Rightarrow>
    (i32 \<times> unit option \<times> u64) \<times> ('n, 'z) lib_scheme" where
  "iroh_conn_close Q h code reason w =
     (case rust_bind (get_conn h w) (\<lambda>_. map_err (\<lambda>m. rerr InvalidInput (''bad close code: '' @ m)) (q_varint Q code)) of
        Some (Inr c) \<Rightarrow> ffi_out (Ok ()) (w\<lparr>net := q_close Q h c reason (net w)\<rparr>)
      | None \<Rightarrow> ffi_out None w
      | Some (Inl e) \<Rightarrow> ffi_out (Err e) w)"

subsection \<open>The wrappers (calls.go)\<close>

definition ConnSendDatagram :: "'n queries \<Rightarrow> u64 \<Rightarrow> bytes \<Rightarrow> ('n, 'z) lib_scheme \<Rightarrow> go_error option \<times> ('n, 'z) lib_scheme" where
  "ConnSendDatagram Q h data w = (case take_out () (iroh_conn_send_datagram Q h data w) of ((_, e), w1) \<Rightarrow> (e, w1))"

definition ConnMaxDatagramSize :: "'n queries \<Rightarrow> u64 \<Rightarrow> ('n, 'z) lib_scheme \<Rightarrow> (u64 \<times> go_error option) \<times> ('n, 'z) lib_scheme" where
  "ConnMaxDatagramSize Q h w = (case take_out 0 (iroh_conn_max_datagram_size Q h w) of
     ((_, Some e), w1) \<Rightarrow> ((0, Some e), w1) | r \<Rightarrow> r)"

definition ConnRemoteID :: "'n queries \<Rightarrow> u64 \<Rightarrow> bytes \<Rightarrow> ('n, 'z) lib_scheme \<Rightarrow> (bytes \<times> go_error option) \<times> ('n, 'z) lib_scheme" where
  "ConnRemoteID Q h outID w = take_out outID (iroh_conn_remote_id Q h w)"

definition ConnALPN :: "'n queries \<Rightarrow> u64 \<Rightarrow> ('n, 'z) lib_scheme \<Rightarrow> (go_error + bytes) \<times> ('n, 'z) lib_scheme" where
  "ConnALPN Q h w = take_text (iroh_conn_alpn Q h w)"

definition StatsLen :: nat where "StatsLen = 6"

definition FfiConnStats :: "'n queries \<Rightarrow> u64 \<Rightarrow> ('n, 'z) lib_scheme \<Rightarrow> (u64 list \<times> go_error option) \<times> ('n, 'z) lib_scheme" where
  "FfiConnStats Q h w = take_out (replicate StatsLen 0) (iroh_conn_stats Q h StatsLen w)"

definition ConnPaths :: "'n queries \<Rightarrow> u64 \<Rightarrow> ('n, 'z) lib_scheme \<Rightarrow> (go_error + string) \<times> ('n, 'z) lib_scheme" where
  "ConnPaths Q h w = take_text (iroh_conn_paths Q h w)"

definition ConnClose :: "'n queries \<Rightarrow> u64 \<Rightarrow> u64 \<Rightarrow> bytes \<Rightarrow> ('n, 'z) lib_scheme \<Rightarrow> go_error option \<times> ('n, 'z) lib_scheme" where
  "ConnClose Q h code reason w = (case take_out () (iroh_conn_close Q h code reason w) of ((_, e), w1) \<Rightarrow> (e, w1))"

subsection \<open>Conn (conn.go)\<close>

text \<open>As for streams, the cleanup of a forgotten connection is one of the steps \<open>FreesHandle\<close>.\<close>

definition newConn :: "u64 \<Rightarrow> nat \<Rightarrow> ('n, 'z) world_scheme \<Rightarrow> nat \<times> ('n, 'z) world_scheme" where
  "newConn h endpoint w = (next_conn w, w\<lparr>next_conn := Suc (next_conn w),
     conns := (conns w)(next_conn w := \<lparr>ch = h, cendpoint = endpoint, cmu = Unlocked, cremote = zero_id\<rparr>)\<rparr>)"

definition Endpoint_ID :: "nat \<Rightarrow> ('n, 'z) world_scheme \<Rightarrow> bytes" where
  "Endpoint_ID e w = eid (endpoints w e)"

definition LocalID :: "nat \<Rightarrow> ('n, 'z) world_scheme \<Rightarrow> bytes" where
  "LocalID a w = Endpoint_ID (cendpoint (conns w a)) w"

definition RemoteID :: "'n queries \<Rightarrow> nat \<Rightarrow> ('n, 'z) world_scheme \<Rightarrow> (go_error + bytes) \<times> ('n, 'z) world_scheme" where
  "RemoteID Q a w =
     (if \<not> IsZero (cremote (conns w a)) then (Inr (cremote (conns w a)), w)
      else case handle_get (ch (conns w a)) of
        Inl err \<Rightarrow> (Inl err, w)
      | Inr h \<Rightarrow> (case ConnRemoteID Q h zero_id w of
            ((_, Some err), w1) \<Rightarrow> (Inl err, w1)
          | ((i, None), w1) \<Rightarrow> (Inr i, w1\<lparr>conns := (conns w1)(a := (conns w1 a)\<lparr>cremote := i\<rparr>)\<rparr>)))"

definition ALPN :: "'n queries \<Rightarrow> nat \<Rightarrow> ('n, 'z) world_scheme \<Rightarrow> (go_error + bytes) \<times> ('n, 'z) world_scheme" where
  "ALPN Q a w = (case handle_get (ch (conns w a)) of Inl err \<Rightarrow> (Inl err, w) | Inr h \<Rightarrow> ConnALPN Q h w)"

definition new_stream_pair :: "nat \<Rightarrow> (go_error + u64 \<times> u64) \<times> ('n, 'z) world_scheme \<Rightarrow>
    (go_error + nat \<times> nat) \<times> ('n, 'z) world_scheme" where
  "new_stream_pair a r = (case r of
     (Inl err, w) \<Rightarrow> (Inl err, w)
   | (Inr (send, recv), w) \<Rightarrow> (let (s, w1) = newSendStream send a w; (t, w2) = newRecvStream recv a w1 in (Inr (s, t), w2)))"

definition OpenBi :: "'n iroh \<Rightarrow> nat \<Rightarrow> ctx \<Rightarrow> ('n, 'z) world_scheme \<Rightarrow>
    ((go_error + nat \<times> nat) \<times> ('n, 'z) world_scheme) option" where
  "OpenBi I a c w = (case handle_get (ch (conns w a)) of
     Inl err \<Rightarrow> Some (Inl err, w) | Inr h \<Rightarrow> map_option (new_stream_pair a) (ConnOpenBi I c h w))"

definition AcceptBi :: "'n iroh \<Rightarrow> nat \<Rightarrow> ctx \<Rightarrow> ('n, 'z) world_scheme \<Rightarrow>
    ((go_error + nat \<times> nat) \<times> ('n, 'z) world_scheme) option" where
  "AcceptBi I a c w = (case handle_get (ch (conns w a)) of
     Inl err \<Rightarrow> Some (Inl err, w) | Inr h \<Rightarrow> map_option (new_stream_pair a) (ConnAcceptBi I c h w))"

definition OpenUni :: "'n iroh \<Rightarrow> nat \<Rightarrow> ctx \<Rightarrow> ('n, 'z) world_scheme \<Rightarrow>
    ((go_error + nat) \<times> ('n, 'z) world_scheme) option" where
  "OpenUni I a c w = (case handle_get (ch (conns w a)) of
     Inl err \<Rightarrow> Some (Inl err, w)
   | Inr h \<Rightarrow> map_option (\<lambda>(r, w1). case r of Inl err \<Rightarrow> (Inl err, w1)
       | Inr send \<Rightarrow> (let (s, w2) = newSendStream send a w1 in (Inr s, w2))) (ConnOpenUni I c h w))"

definition AcceptUni :: "'n iroh \<Rightarrow> nat \<Rightarrow> ctx \<Rightarrow> ('n, 'z) world_scheme \<Rightarrow>
    ((go_error + nat) \<times> ('n, 'z) world_scheme) option" where
  "AcceptUni I a c w = (case handle_get (ch (conns w a)) of
     Inl err \<Rightarrow> Some (Inl err, w)
   | Inr h \<Rightarrow> map_option (\<lambda>(r, w1). case r of Inl err \<Rightarrow> (Inl err, w1)
       | Inr recv \<Rightarrow> (let (s, w2) = newRecvStream recv a w1 in (Inr s, w2))) (ConnAcceptUni I c h w))"

definition SendDatagram :: "'n queries \<Rightarrow> nat \<Rightarrow> bytes \<Rightarrow> ('n, 'z) world_scheme \<Rightarrow> go_error option \<times> ('n, 'z) world_scheme" where
  "SendDatagram Q a data w = (case handle_get (ch (conns w a)) of
     Inl err \<Rightarrow> (Some err, w) | Inr h \<Rightarrow> ConnSendDatagram Q h data w)"

definition ReadDatagram :: "'n iroh \<Rightarrow> nat \<Rightarrow> ctx \<Rightarrow> ('n, 'z) world_scheme \<Rightarrow>
    ((go_error + bytes) \<times> ('n, 'z) world_scheme) option" where
  "ReadDatagram I a c w = (case handle_get (ch (conns w a)) of
     Inl err \<Rightarrow> Some (Inl err, w) | Inr h \<Rightarrow> ConnReadDatagram I c h w)"

text \<open>\<^verbatim>\<open>int(n)\<close> reads the 64 bits as a signed number.\<close>

definition MaxDatagramSize :: "'n queries \<Rightarrow> nat \<Rightarrow> ('n, 'z) world_scheme \<Rightarrow> (int \<times> go_error option) \<times> ('n, 'z) world_scheme" where
  "MaxDatagramSize Q a w = (case handle_get (ch (conns w a)) of
     Inl err \<Rightarrow> ((0, Some err), w)
   | Inr h \<Rightarrow> (case ConnMaxDatagramSize Q h w of ((n, err), w1) \<Rightarrow> ((sint n, err), w1)))"

record ConnStats =
  SentDatagrams :: u64
  SentBytes :: u64
  ReceivedDatagrams :: u64
  ReceivedBytes :: u64
  LostPackets :: u64
  LostBytes :: u64

definition Stats :: "'n queries \<Rightarrow> nat \<Rightarrow> ('n, 'z) world_scheme \<Rightarrow> (go_error + ConnStats) \<times> ('n, 'z) world_scheme" where
  "Stats Q a w = (case handle_get (ch (conns w a)) of
     Inl err \<Rightarrow> (Inl err, w)
   | Inr h \<Rightarrow> (case FfiConnStats Q h w of
       ((_, Some err), w1) \<Rightarrow> (Inl err, w1)
     | ((v, None), w1) \<Rightarrow> (Inr \<lparr>SentDatagrams = v ! 0, SentBytes = v ! 1, ReceivedDatagrams = v ! 2, ReceivedBytes = v ! 3,
          LostPackets = v ! 4, LostBytes = v ! 5\<rparr>, w1)))"

subsubsection \<open>Paths\<close>

text \<open>
  \<^verbatim>\<open>strconv.ParseInt(s, 10, 64)\<close>: an optional sign and at least one digit, within the range of the type.
\<close>

definition ParseInt :: "string \<Rightarrow> go_error + int" where
  "ParseInt s =
     (let (neg, ds) = (case s of c # cs \<Rightarrow> if c = CHR ''-'' then (True, cs) else if c = CHR ''+'' then (False, cs) else (False, s)
                       | [] \<Rightarrow> (False, []));
          err = (\<lambda>m. Inl (Errorf ''strconv.ParseInt: parsing %q: '' [ArgStr s] (Some (External m))))
      in case digits_value 10 digit10 0 ds of
           None \<Rightarrow> err ''invalid syntax''
         | Some n \<Rightarrow>
             if ds = [] then err ''invalid syntax''
             else if neg then (if n > 9223372036854775808 then err ''value out of range'' else Inr (- int n))
             else if n \<ge> 9223372036854775808 then err ''value out of range'' else Inr (int n))"

record path =
  pa_kind :: string
  pa_selected :: bool
  pa_remote :: string
  pa_rtt :: int

definition pathFields :: nat where "pathFields = 4"

text \<open>A \<^verbatim>\<open>time.Duration\<close> counts nanoseconds in 64 bits.\<close>

fun parse_paths :: "string list \<Rightarrow> go_error + path list" where
  "parse_paths [] = Inr []"
| "parse_paths (line # ls) =
     (let fields = SplitN tab pathFields line in
      if length fields \<noteq> pathFields then Inl (errKind KindInternal ''unparsable path %q'' [ArgStr line])
      else case ParseInt (fields ! 2) of
        Inl err \<Rightarrow> Inl (errKind KindInternal ''unparsable path rtt %q: %v'' [ArgStr (fields ! 2), ArgErr err])
      | Inr micros \<Rightarrow> (case parse_paths ls of
          Inl e \<Rightarrow> Inl e
        | Inr ps \<Rightarrow> Inr (\<lparr>pa_kind = fields ! 0, pa_selected = (fields ! 1 = ''1''), pa_remote = fields ! 3,
            pa_rtt = go_int (micros * 1000)\<rparr> # ps)))"

definition Paths :: "'n queries \<Rightarrow> nat \<Rightarrow> ('n, 'z) world_scheme \<Rightarrow> (go_error + path list) \<times> ('n, 'z) world_scheme" where
  "Paths Q a w = (case handle_get (ch (conns w a)) of
     Inl err \<Rightarrow> (Inl err, w)
   | Inr h \<Rightarrow> (case ConnPaths Q h w of
       (Inl err, w1) \<Rightarrow> (Inl err, w1)
     | (Inr txt, w1) \<Rightarrow> (if txt = [] then Inr [] else parse_paths (Split newline txt), w1)))"

subsubsection \<open>The end of a connection\<close>

definition Wait :: "'n iroh \<Rightarrow> nat \<Rightarrow> ctx \<Rightarrow> ('n, 'z) world_scheme \<Rightarrow> (go_error \<times> ('n, 'z) world_scheme) option" where
  "Wait I a c w = (case handle_get (ch (conns w a)) of
     Inl err \<Rightarrow> Some (err, w)
   | Inr h \<Rightarrow> map_option (\<lambda>(r, w1). (case r of Inl err \<Rightarrow> err | Inr reason \<Rightarrow> Error KindConnection (Text reason), w1))
       (ConnClosed I c h w))"

definition take_conn :: "nat \<Rightarrow> ('n, 'z) world_scheme \<Rightarrow> u64 \<times> ('n, 'z) world_scheme" where
  "take_conn a w = (let (h, v) = handle_take (ch (conns w a)) in (h, w\<lparr>conns := (conns w)(a := (conns w a)\<lparr>ch := v\<rparr>)\<rparr>))"

definition CloseWithError :: "'n queries \<Rightarrow> nat \<Rightarrow> u64 \<Rightarrow> string \<Rightarrow> ('n, 'z) world_scheme \<Rightarrow>
    go_error option \<times> ('n, 'z) world_scheme" where
  "CloseWithError Q a code reason w = (let (h, w1) = take_conn a w in
     if h = 0 then (None, w1)
     else case ConnClose Q h code reason w1 of (err, w2) \<Rightarrow> (err, ConnFree h w2))"

definition Conn_Close :: "'n queries \<Rightarrow> nat \<Rightarrow> ('n, 'z) world_scheme \<Rightarrow> go_error option \<times> ('n, 'z) world_scheme" where
  "Conn_Close Q a w = CloseWithError Q a 0 [] w"

end
