(* ===== verification/Addresses.thy ===== *)
theory Addresses
  imports Sync_Calls "HOL-Library.Multiset"
begin

text \<open>
  Addresses and tickets: \<^verbatim>\<open>EndpointAddr\<close> of the bindings with its text form (\<^verbatim>\<open>addr.go\<close>), and the
  library's side of the same form (\<^verbatim>\<open>addr.rs\<close>).
\<close>

subsection \<open>The library's codec (addr.rs)\<close>

text \<open>\<^verbatim>\<open>hex\<close> is the lowercase hexadecimal of Go's package of that name.\<close>

fun transport_line :: "transport \<Rightarrow> string" where
  "transport_line (TRelay url) = ''relay '' @ url"
| "transport_line (TIp s) = ''ip '' @ s"
| "transport_line (TCustom i d) = ''custom '' @ dec (unat i) @ space # EncodeToString d"

definition encode_addr :: "codec \<Rightarrow> endpoint_addr \<Rightarrow> string" where
  "encode_addr K a = k_id_text K (ra_id a) @ concat (map (\<lambda>t. newline # transport_line t) (ra_addrs a))"

text \<open>Slicing a string inside a character panics.\<close>

function unhex_from :: "string \<Rightarrow> nat \<Rightarrow> bytes rust" where
  "unhex_from s i = (if length s \<le> i then Ok []
     else if \<not> (char_boundary s i \<and> char_boundary s (i + 2)) then None
     else rust_bind (map_err (\<lambda>m. rerr InvalidInput (''bad hex payload: '' @ m))
            (parse_unsigned 16 digit16 256 (take 2 (drop i s))))
       (\<lambda>n. rust_bind (unhex_from s (i + 2)) (\<lambda>r. Ok (char_of n # r))))"
  by pat_completeness auto

termination
  by (relation "measure (\<lambda>(s, i). length s - i)") auto

declare unhex_from.simps [simp del]

definition unhex :: "string \<Rightarrow> bytes rust" where
  "unhex s = (if odd (length s) then Err (rerr InvalidInput ''hex payload has odd length'') else unhex_from s 0)"

definition decode_transport :: "codec \<Rightarrow> string \<Rightarrow> transport rust" where
  "decode_transport K line =
     (case split_once space line of
        None \<Rightarrow> Err (rerr InvalidInput (''malformed address line: '' @ k_debug K line))
      | Some (kind, rest) \<Rightarrow>
          if kind = ''relay'' then rust_bind (map_err (rerr Relay) (k_relay_url K rest)) (\<lambda>u. Ok (TRelay u))
          else if kind = ''ip'' then
            rust_bind (map_err (\<lambda>m. rerr InvalidInput (''bad socket address '' @ k_debug K rest @ '': '' @ m)) (k_socket_addr K rest))
              (\<lambda>a. Ok (TIp a))
          else if kind = ''custom'' then
            (case split_once space rest of
               None \<Rightarrow> Err (rerr InvalidInput ''custom address needs an id and payload'')
             | Some (i, payload) \<Rightarrow>
                 rust_bind (map_err (\<lambda>m. rerr InvalidInput (''bad custom address id: '' @ m)) (parse_unsigned 10 digit10 (2 ^ 64) i))
                   (\<lambda>i. rust_bind (unhex payload) (\<lambda>d. Ok (TCustom (of_nat i) d))))
          else Err (rerr InvalidInput (''unknown address kind '' @ k_debug K kind)))"

fun decode_transports :: "codec \<Rightarrow> string list \<Rightarrow> transport list rust" where
  "decode_transports K [] = Ok []"
| "decode_transports K (l # ls) = (let line = TrimSpace l in
     if line = [] then decode_transports K ls
     else rust_bind (decode_transport K line) (\<lambda>t. rust_bind (decode_transports K ls) (\<lambda>ts. Ok (t # ts))))"

definition decode_addr :: "codec \<Rightarrow> string \<Rightarrow> endpoint_addr rust" where
  "decode_addr K text = (case rust_lines text of
     [] \<Rightarrow> Err (rerr InvalidInput ''endpoint address is empty'')
   | id_line # ls \<Rightarrow>
       rust_bind (map_err (rerr KeyParsing) (k_parse_id K (TrimSpace id_line)))
         (\<lambda>i. rust_bind (decode_transports K ls) (\<lambda>ts. Ok (k_from_parts K i ts))))"

definition iroh_addr_normalize :: "codec \<Rightarrow> bytes \<Rightarrow> ('n, 'z) lib_scheme \<Rightarrow> (i32 \<times> nat \<times> nat \<times> u64) \<times> ('n, 'z) lib_scheme" where
  "iroh_addr_normalize K text = ffi_bytes (rust_bind (str_arg K text) (\<lambda>s. rust_bind (decode_addr K s) (\<lambda>a. Ok (encode_addr K a))))"

definition iroh_ticket_encode :: "codec \<Rightarrow> bytes \<Rightarrow> ('n, 'z) lib_scheme \<Rightarrow> (i32 \<times> nat \<times> nat \<times> u64) \<times> ('n, 'z) lib_scheme" where
  "iroh_ticket_encode K text = ffi_bytes (rust_bind (str_arg K text) (\<lambda>s. rust_bind (decode_addr K s) (\<lambda>a. Ok (k_ticket_text K a))))"

definition iroh_ticket_decode :: "codec \<Rightarrow> bytes \<Rightarrow> ('n, 'z) lib_scheme \<Rightarrow> (i32 \<times> nat \<times> nat \<times> u64) \<times> ('n, 'z) lib_scheme" where
  "iroh_ticket_decode K s = ffi_bytes (rust_bind (str_arg K s) (\<lambda>s.
     rust_bind (map_err (rerr TicketParsing) (k_parse_ticket K (TrimSpace s))) (\<lambda>a. Ok (encode_addr K a))))"

definition AddrNormalize :: "codec \<Rightarrow> go_error option \<Rightarrow> string \<Rightarrow> ('n, 'z) lib_scheme \<Rightarrow> (go_error + string) \<times> ('n, 'z) lib_scheme" where
  "AddrNormalize K ld text w = textCall ld text (iroh_addr_normalize K) w"

definition TicketEncode :: "codec \<Rightarrow> go_error option \<Rightarrow> string \<Rightarrow> ('n, 'z) lib_scheme \<Rightarrow> (go_error + string) \<times> ('n, 'z) lib_scheme" where
  "TicketEncode K ld text w = textCall ld text (iroh_ticket_encode K) w"

definition TicketDecode :: "codec \<Rightarrow> go_error option \<Rightarrow> string \<Rightarrow> ('n, 'z) lib_scheme \<Rightarrow> (go_error + string) \<times> ('n, 'z) lib_scheme" where
  "TicketDecode K ld ticket w = textCall ld ticket (iroh_ticket_decode K) w"

subsection \<open>EndpointAddr (addr.go)\<close>

text \<open>
  The values of type \<^verbatim>\<open>netip.AddrPort\<close> are the type \<open>'a\<close>; of package \<^verbatim>\<open>net/netip\<close> the code uses parsing
  and printing.
\<close>

record 'a netip =
  ParseAddrPort :: "string \<Rightarrow> go_error + 'a"
  AddrPort_String :: "'a \<Rightarrow> string"

record 'a EndpointAddr =
  ID :: bytes
  RelayURL :: string
  DirectAddrs :: "'a list"
  extra :: "string list"

definition AddrOf :: "bytes \<Rightarrow> 'a EndpointAddr" where
  "AddrOf i = \<lparr>ID = i, RelayURL = [], DirectAddrs = [], extra = []\<rparr>"

definition WithDirectAddrs :: "'a EndpointAddr \<Rightarrow> 'a list \<Rightarrow> 'a EndpointAddr" where
  "WithDirectAddrs a addrs = a\<lparr>DirectAddrs := DirectAddrs a @ addrs\<rparr>"

definition WithRelayURL :: "'a EndpointAddr \<Rightarrow> string \<Rightarrow> 'a EndpointAddr" where
  "WithRelayURL a url = a\<lparr>RelayURL := url\<rparr>"

definition IsEmpty :: "'a EndpointAddr \<Rightarrow> bool" where
  "IsEmpty a \<longleftrightarrow> RelayURL a = [] \<and> DirectAddrs a = [] \<and> extra a = []"

definition encode :: "'a netip \<Rightarrow> 'a EndpointAddr \<Rightarrow> string" where
  "encode N a =
     (let b = EndpointID_String (ID a);
          b1 = (if RelayURL a \<noteq> [] then b @ newline # ''relay '' @ RelayURL a else b);
          b2 = foldl (\<lambda>b addr. b @ newline # ''ip '' @ AddrPort_String N addr) b1 (DirectAddrs a)
      in foldl (\<lambda>b line. b @ newline # line) b2 (extra a))"

fun decode_lines :: "'a netip \<Rightarrow> 'a EndpointAddr \<Rightarrow> string list \<Rightarrow> go_error + 'a EndpointAddr" where
  "decode_lines N addr [] = Inr addr"
| "decode_lines N addr (l # ls) =
     (let line = TrimSpace l in
      if line = [] then decode_lines N addr ls
      else case Cut space line of (kind, rest, ok) \<Rightarrow>
        if \<not> ok then Inl (errKind KindInvalidInput ''malformed address line %q'' [ArgStr line])
        else if kind = ''relay'' \<and> RelayURL addr = [] then decode_lines N (addr\<lparr>RelayURL := rest\<rparr>) ls
        else if kind = ''ip'' then
          (case ParseAddrPort N rest of
             Inl err \<Rightarrow> Inl (errKind KindInvalidInput ''bad direct address %q: %v'' [ArgStr rest, ArgErr err])
           | Inr ap \<Rightarrow> decode_lines N (addr\<lparr>DirectAddrs := DirectAddrs addr @ [ap]\<rparr>) ls)
        else decode_lines N (addr\<lparr>extra := extra addr @ [line]\<rparr>) ls)"

definition decodeAddr :: "codec \<Rightarrow> 'a netip \<Rightarrow> go_error option \<Rightarrow> string \<Rightarrow> ('n, 'z) lib_scheme \<Rightarrow>
    (go_error + 'a EndpointAddr) \<times> ('n, 'z) lib_scheme" where
  "decodeAddr K N ld text w =
     (let lines = Split newline (TrimSpace text) in
      if length lines = 0 \<or> hd lines = [] then (Inl (errKind KindInvalidInput ''endpoint address is empty'' []), w)
      else case ParseEndpointID K ld (TrimSpace (hd lines)) w of
        ((i, Some err), w1) \<Rightarrow> (Inl err, w1)
      | ((i, None), w1) \<Rightarrow> (decode_lines N (AddrOf i) (tl lines), w1))"

definition Validate :: "codec \<Rightarrow> 'a netip \<Rightarrow> go_error option \<Rightarrow> 'a EndpointAddr \<Rightarrow> ('n, 'z) lib_scheme \<Rightarrow>
    (go_error + 'a EndpointAddr) \<times> ('n, 'z) lib_scheme" where
  "Validate K N ld a w = (case AddrNormalize K ld (encode N a) w of
     (Inl err, w1) \<Rightarrow> (Inl err, w1) | (Inr text, w1) \<Rightarrow> decodeAddr K N ld text w1)"

definition EndpointAddr_String :: "'a netip \<Rightarrow> 'a EndpointAddr \<Rightarrow> string" where
  "EndpointAddr_String N a = encode N a"

definition EndpointAddr_Ticket :: "codec \<Rightarrow> 'a netip \<Rightarrow> go_error option \<Rightarrow> 'a EndpointAddr \<Rightarrow> ('n, 'z) lib_scheme \<Rightarrow>
    (go_error + string) \<times> ('n, 'z) lib_scheme" where
  "EndpointAddr_Ticket K N ld a w = TicketEncode K ld (encode N a) w"

definition Ticket_Addr :: "codec \<Rightarrow> 'a netip \<Rightarrow> go_error option \<Rightarrow> string \<Rightarrow> ('n, 'z) lib_scheme \<Rightarrow>
    (go_error + 'a EndpointAddr) \<times> ('n, 'z) lib_scheme" where
  "Ticket_Addr K N ld t w = (case TicketDecode K ld t w of
     (Inl err, w1) \<Rightarrow> (Inl err, w1) | (Inr text, w1) \<Rightarrow> decodeAddr K N ld text w1)"

definition ParseTicket :: "codec \<Rightarrow> 'a netip \<Rightarrow> go_error option \<Rightarrow> string \<Rightarrow> ('n, 'z) lib_scheme \<Rightarrow>
    (go_error + string) \<times> ('n, 'z) lib_scheme" where
  "ParseTicket K N ld s w = (let t = TrimSpace s in case Ticket_Addr K N ld t w of
     (Inl err, w1) \<Rightarrow> (Inl err, w1) | (Inr _, w1) \<Rightarrow> (Inr t, w1))"

end
