(* ===== verification/Endpoints.thy ===== *)
theory Endpoints
  imports Connections Addresses
begin

text \<open>
  Endpoints: the options object of the library and the binding of an endpoint (\<^verbatim>\<open>endpoint.rs\<close>), the wrappers
  (\<^verbatim>\<open>calls.go\<close>), and \<^verbatim>\<open>Bind\<close> and the methods of \<^verbatim>\<open>Endpoint\<close> (\<^verbatim>\<open>endpoint.go\<close>).
\<close>

subsection \<open>The options object (endpoint.rs)\<close>

definition get_options :: "u64 \<Rightarrow> ('n, 'z) lib_scheme \<Rightarrow> opts rust" where
  "get_options h w = Some (get_slot as_options h (reg w))"

text \<open>The object is changed in place, under its own lock.\<close>

definition set_options :: "u64 \<Rightarrow> opts \<Rightarrow> ('n, 'z) lib_scheme \<Rightarrow> ('n, 'z) lib_scheme" where
  "set_options h q w = w\<lparr>reg := publish h (SOptions q) (reg w)\<rparr>"

definition iroh_options_new :: "i32 \<Rightarrow> ('n, 'z) lib_scheme \<Rightarrow> u64 \<times> ('n, 'z) lib_scheme" where
  "iroh_options_new p w = (let (h, r) = insert_slot (SOptions \<lparr>o_preset = p, o_secret_key = None, o_alpns = [],
     o_relay_mode = None, o_relay_urls = [], o_bind_addrs = []\<rparr>) (reg w) in (h, w\<lparr>reg := r\<rparr>))"

text \<open>Every setter looks the object up last, once its argument has been accepted.\<close>

definition options_call :: "u64 \<Rightarrow> 'a rust \<Rightarrow> ('a \<Rightarrow> opts \<Rightarrow> opts) \<Rightarrow> ('n, 'z) lib_scheme \<Rightarrow>
    (i32 \<times> unit option \<times> u64) \<times> ('n, 'z) lib_scheme" where
  "options_call h arg f w = (case rust_bind arg (\<lambda>x. rust_bind (get_options h w) (\<lambda>q. Ok (f x q))) of
     Some (Inr q) \<Rightarrow> ffi_out (Ok ()) (set_options h q w)
   | None \<Rightarrow> ffi_out None w
   | Some (Inl e) \<Rightarrow> ffi_out (Err e) w)"

definition iroh_options_set_secret_key :: "u64 \<Rightarrow> bytes \<Rightarrow> ('n, 'z) lib_scheme \<Rightarrow> (i32 \<times> unit option \<times> u64) \<times> ('n, 'z) lib_scheme" where
  "iroh_options_set_secret_key h key = options_call h (secret_key key) (\<lambda>k q. q\<lparr>o_secret_key := Some k\<rparr>)"

definition iroh_options_add_alpn :: "u64 \<Rightarrow> bytes \<Rightarrow> ('n, 'z) lib_scheme \<Rightarrow> (i32 \<times> unit option \<times> u64) \<times> ('n, 'z) lib_scheme" where
  "iroh_options_add_alpn h alpn = options_call h (if alpn = [] then Err (rerr InvalidInput ''alpn must not be empty'') else Ok alpn)
     (\<lambda>p q. q\<lparr>o_alpns := o_alpns q @ [p]\<rparr>)"

definition iroh_options_set_relay_mode :: "u64 \<Rightarrow> i32 \<Rightarrow> ('n, 'z) lib_scheme \<Rightarrow> (i32 \<times> unit option \<times> u64) \<times> ('n, 'z) lib_scheme" where
  "iroh_options_set_relay_mode h mode = options_call h (Ok mode) (\<lambda>m q. q\<lparr>o_relay_mode := Some m\<rparr>)"

definition iroh_options_add_relay_url :: "codec \<Rightarrow> u64 \<Rightarrow> bytes \<Rightarrow> ('n, 'z) lib_scheme \<Rightarrow>
    (i32 \<times> unit option \<times> u64) \<times> ('n, 'z) lib_scheme" where
  "iroh_options_add_relay_url K h url =
     options_call h (rust_bind (str_arg K url) (\<lambda>s. map_err (rerr Relay) (k_relay_url K s))) (\<lambda>u q. q\<lparr>o_relay_urls := o_relay_urls q @ [u]\<rparr>)"

definition iroh_options_add_bind_addr :: "codec \<Rightarrow> u64 \<Rightarrow> bytes \<Rightarrow> ('n, 'z) lib_scheme \<Rightarrow>
    (i32 \<times> unit option \<times> u64) \<times> ('n, 'z) lib_scheme" where
  "iroh_options_add_bind_addr K h addr =
     options_call h (rust_bind (str_arg K addr) (\<lambda>s.
         map_err (\<lambda>m. rerr InvalidInput (''bad bind address '' @ k_debug K s @ '': '' @ m)) (k_socket_addr K s)))
       (\<lambda>a q. q\<lparr>o_bind_addrs := o_bind_addrs q @ [a]\<rparr>)"

definition iroh_endpoint_bind :: "u64 \<Rightarrow> ('n, 'z) lib_scheme \<Rightarrow> u64 \<times> ('n, 'z) lib_scheme" where
  "iroh_endpoint_bind options w = (case get_slot as_options options (reg w) of
     Inl e \<Rightarrow> spawn_ready (Inl e) w
   | Inr q \<Rightarrow> spawn (FBind q) (w\<lparr>reg := snd (remove options (reg w))\<rparr>))"

subsection \<open>Entry points on endpoints (endpoint.rs)\<close>

definition get_endpoint :: "u64 \<Rightarrow> ('n, 'z) lib_scheme \<Rightarrow> unit rust" where
  "get_endpoint h w = Some (get_slot as_endpoint h (reg w))"

definition iroh_endpoint_id :: "'n queries \<Rightarrow> u64 \<Rightarrow> ('n, 'z) lib_scheme \<Rightarrow> (i32 \<times> bytes option \<times> u64) \<times> ('n, 'z) lib_scheme" where
  "iroh_endpoint_id Q h w = ffi_out (rust_bind (get_endpoint h w) (\<lambda>_. Ok (q_endpoint_id Q h (net w)))) w"

definition iroh_endpoint_addr :: "'n queries \<Rightarrow> codec \<Rightarrow> u64 \<Rightarrow> ('n, 'z) lib_scheme \<Rightarrow>
    (i32 \<times> nat \<times> nat \<times> u64) \<times> ('n, 'z) lib_scheme" where
  "iroh_endpoint_addr Q K h w = ffi_bytes (rust_bind (get_endpoint h w) (\<lambda>_. Ok (encode_addr K (q_endpoint_addr Q h (net w))))) w"

definition iroh_endpoint_bound_sockets :: "'n queries \<Rightarrow> u64 \<Rightarrow> ('n, 'z) lib_scheme \<Rightarrow>
    (i32 \<times> nat \<times> nat \<times> u64) \<times> ('n, 'z) lib_scheme" where
  "iroh_endpoint_bound_sockets Q h w =
     ffi_bytes (rust_bind (get_endpoint h w) (\<lambda>_. Ok (join newline (q_bound_sockets Q h (net w))))) w"

fun relay_urls :: "transport list \<Rightarrow> string list" where
  "relay_urls [] = []"
| "relay_urls (TRelay u # ts) = u # relay_urls ts"
| "relay_urls (_ # ts) = relay_urls ts"

definition iroh_endpoint_home_relay :: "'n queries \<Rightarrow> u64 \<Rightarrow> ('n, 'z) lib_scheme \<Rightarrow>
    (i32 \<times> nat \<times> nat \<times> u64) \<times> ('n, 'z) lib_scheme" where
  "iroh_endpoint_home_relay Q h w = ffi_bytes (rust_bind (get_endpoint h w) (\<lambda>_.
     Ok (case relay_urls (ra_addrs (q_endpoint_addr Q h (net w))) of [] \<Rightarrow> [] | u # _ \<Rightarrow> u))) w"

definition iroh_endpoint_remote_info :: "codec \<Rightarrow> u64 \<Rightarrow> bytes \<Rightarrow> ('n, 'z) lib_scheme \<Rightarrow> u64 \<times> ('n, 'z) lib_scheme" where
  "iroh_endpoint_remote_info K h i w = (case get_slot as_endpoint h (reg w) of
     Inl e \<Rightarrow> spawn_ready (Inl e) w
   | Inr _ \<Rightarrow> (case k_id_error K i of Some m \<Rightarrow> spawn_ready (Inl (rerr KeyParsing m)) w | None \<Rightarrow> spawn (FRemoteInfo h i) w))"

text \<open>A panic while decoding the address leaves no operation: the entry point returns the null handle.\<close>

definition iroh_endpoint_connect :: "codec \<Rightarrow> u64 \<Rightarrow> bytes \<Rightarrow> bytes \<Rightarrow> ('n, 'z) lib_scheme \<Rightarrow> u64 \<times> ('n, 'z) lib_scheme" where
  "iroh_endpoint_connect K h addr alpn w = (case rust_bind (str_arg K addr) (decode_addr K) of
     None \<Rightarrow> (0, w)
   | Some (Inl e) \<Rightarrow> spawn_ready (Inl e) w
   | Some (Inr a) \<Rightarrow> spawn_on as_endpoint h (FConnect h a alpn) w)"

subsection \<open>The wrappers (calls.go)\<close>

definition OptionsNew :: "go_error option \<Rightarrow> i32 \<Rightarrow> ('n, 'z) lib_scheme \<Rightarrow> (go_error + u64) \<times> ('n, 'z) lib_scheme" where
  "OptionsNew ld p w = (case ld of Some e \<Rightarrow> (Inl e, w) | None \<Rightarrow> (let (h, w1) = iroh_options_new p w in (Inr h, w1)))"

definition OptionsFree :: "u64 \<Rightarrow> ('n, 'z) lib_scheme \<Rightarrow> ('n, 'z) lib_scheme" where
  "OptionsFree = free_handle"

definition take_unit :: "(i32 \<times> unit option \<times> u64) \<times> ('n, 'z) lib_scheme \<Rightarrow> go_error option \<times> ('n, 'z) lib_scheme" where
  "take_unit r = (case take_out () r of ((_, e), w) \<Rightarrow> (e, w))"

definition OptionsSetSecretKey :: "u64 \<Rightarrow> bytes \<Rightarrow> ('n, 'z) lib_scheme \<Rightarrow> go_error option \<times> ('n, 'z) lib_scheme" where
  "OptionsSetSecretKey h key w = take_unit (iroh_options_set_secret_key h key w)"

definition OptionsAddALPN :: "u64 \<Rightarrow> bytes \<Rightarrow> ('n, 'z) lib_scheme \<Rightarrow> go_error option \<times> ('n, 'z) lib_scheme" where
  "OptionsAddALPN h alpn w = take_unit (iroh_options_add_alpn h alpn w)"

definition OptionsSetRelayMode :: "u64 \<Rightarrow> i32 \<Rightarrow> ('n, 'z) lib_scheme \<Rightarrow> go_error option \<times> ('n, 'z) lib_scheme" where
  "OptionsSetRelayMode h mode w = take_unit (iroh_options_set_relay_mode h mode w)"

definition OptionsAddRelayURL :: "codec \<Rightarrow> u64 \<Rightarrow> string \<Rightarrow> ('n, 'z) lib_scheme \<Rightarrow> go_error option \<times> ('n, 'z) lib_scheme" where
  "OptionsAddRelayURL K h url w = take_unit (iroh_options_add_relay_url K h url w)"

definition OptionsAddBindAddr :: "codec \<Rightarrow> u64 \<Rightarrow> string \<Rightarrow> ('n, 'z) lib_scheme \<Rightarrow> go_error option \<times> ('n, 'z) lib_scheme" where
  "OptionsAddBindAddr K h addr w = take_unit (iroh_options_add_bind_addr K h addr w)"

definition EndpointBind :: "'n iroh \<Rightarrow> ctx \<Rightarrow> u64 \<Rightarrow> ('n, 'z) world_scheme \<Rightarrow>
    ((go_error + u64) \<times> ('n, 'z) world_scheme) option" where
  "EndpointBind I c options w = (let (op, w1) = begin_op (iroh_endpoint_bind options w) in AwaitHandle I c op w1)"

definition FfiEndpointID :: "'n queries \<Rightarrow> u64 \<Rightarrow> bytes \<Rightarrow> ('n, 'z) lib_scheme \<Rightarrow> (bytes \<times> go_error option) \<times> ('n, 'z) lib_scheme" where
  "FfiEndpointID Q h outID w = take_out outID (iroh_endpoint_id Q h w)"

definition FfiEndpointAddr :: "'n queries \<Rightarrow> codec \<Rightarrow> u64 \<Rightarrow> ('n, 'z) lib_scheme \<Rightarrow> (go_error + string) \<times> ('n, 'z) lib_scheme" where
  "FfiEndpointAddr Q K h w = take_text (iroh_endpoint_addr Q K h w)"

definition EndpointBoundSockets :: "'n queries \<Rightarrow> u64 \<Rightarrow> ('n, 'z) lib_scheme \<Rightarrow> (go_error + string) \<times> ('n, 'z) lib_scheme" where
  "EndpointBoundSockets Q h w = take_text (iroh_endpoint_bound_sockets Q h w)"

definition EndpointHomeRelay :: "'n queries \<Rightarrow> u64 \<Rightarrow> ('n, 'z) lib_scheme \<Rightarrow> (go_error + string) \<times> ('n, 'z) lib_scheme" where
  "EndpointHomeRelay Q h w = take_text (iroh_endpoint_home_relay Q h w)"

definition EndpointRemoteInfo :: "'n iroh \<Rightarrow> codec \<Rightarrow> ctx \<Rightarrow> u64 \<Rightarrow> bytes \<Rightarrow> ('n, 'z) world_scheme \<Rightarrow>
    ((go_error + string) \<times> ('n, 'z) world_scheme) option" where
  "EndpointRemoteInfo I K c h i w = (let (op, w1) = begin_op (iroh_endpoint_remote_info K h i w) in
     map_option (\<lambda>(r, w2). (map_sum id fst r, w2)) (AwaitBytes I c op w1))"

text \<open>\<^verbatim>\<open>await\<close> reports a null operation at once, so nothing waits for it.\<close>

definition EndpointConnect :: "'n iroh \<Rightarrow> codec \<Rightarrow> ctx \<Rightarrow> u64 \<Rightarrow> string \<Rightarrow> bytes \<Rightarrow> ('n, 'z) world_scheme \<Rightarrow>
    ((go_error + u64) \<times> ('n, 'z) world_scheme) option" where
  "EndpointConnect I K c h addr alpn w = (let r = iroh_endpoint_connect K h addr alpn w in
     if fst r = 0 then AwaitHandle I c 0 (snd r)
     else let (op, w1) = begin_op r in AwaitHandle I c op w1)"

subsection \<open>Options (endpoint.go)\<close>

text \<open>\<^verbatim>\<open>Preset\<close> and \<^verbatim>\<open>RelayMode\<close> are integers, of which the code knows some.\<close>

definition PresetN0 :: int where "PresetN0 = 0"
definition PresetN0NoRelay :: int where "PresetN0NoRelay = 1"
definition PresetMinimal :: int where "PresetMinimal = 2"
definition PresetEmpty :: int where "PresetEmpty = 3"

definition Preset_ffi :: "int \<Rightarrow> go_error + i32" where
  "Preset_ffi p = (if p = PresetN0 then Inr 2 else if p = PresetN0NoRelay then Inr 3
     else if p = PresetMinimal then Inr 1 else if p = PresetEmpty then Inr 0
     else Inl (errKind KindInvalidInput ''unknown preset %d'' [ArgInt p]))"

definition RelayFromPreset :: int where "RelayFromPreset = 0"
definition RelayDefault :: int where "RelayDefault = 1"
definition RelayDisabled :: int where "RelayDisabled = 2"
definition RelayStaging :: int where "RelayStaging = 3"
definition RelayCustom :: int where "RelayCustom = 4"

definition relay_mode_ffi :: "int \<Rightarrow> go_error + i32" where
  "relay_mode_ffi m = (if m = RelayDefault then Inr 0 else if m = RelayDisabled then Inr 1
     else if m = RelayStaging then Inr 2 else if m = RelayCustom then Inr 3
     else Inl (errKind KindInvalidInput ''unknown relay mode %d'' [ArgInt m]))"

record 'a Options =
  Preset :: int
  SecretKey :: "bytes option"
  ALPNs :: "bytes list"
  RelayMode :: int
  RelayURLs :: "string list"
  BindAddrs :: "'a list"

text \<open>A loop over calls that ends at the first error.\<close>

fun each :: "('b \<Rightarrow> 'w \<Rightarrow> go_error option \<times> 'w) \<Rightarrow> 'b list \<Rightarrow> 'w \<Rightarrow> go_error option \<times> 'w" where
  "each f [] w = (None, w)"
| "each f (x # xs) w = (case f x w of (Some e, w1) \<Rightarrow> (Some e, w1) | (None, w1) \<Rightarrow> each f xs w1)"

text \<open>One statement after the other, up to the first early return.\<close>

definition and_then :: "go_error option \<times> 'w \<Rightarrow> ('w \<Rightarrow> go_error option \<times> 'w) \<Rightarrow> go_error option \<times> 'w" where
  "and_then r f = (case r of (Some e, w) \<Rightarrow> (Some e, w) | (None, w) \<Rightarrow> f w)"

definition applyOptions :: "codec \<Rightarrow> 'a netip \<Rightarrow> u64 \<Rightarrow> 'a Options \<Rightarrow> ('n, 'z) lib_scheme \<Rightarrow> go_error option \<times> ('n, 'z) lib_scheme" where
  "applyOptions K N options opts w =
     and_then (case SecretKey opts of None \<Rightarrow> (None, w) | Some key \<Rightarrow> OptionsSetSecretKey options key w) (\<lambda>w1.
     and_then (each (OptionsAddALPN options) (ALPNs opts) w1) (\<lambda>w2.
     and_then
       (if RelayMode opts \<noteq> RelayFromPreset then
          case relay_mode_ffi (RelayMode opts) of
            Inl e \<Rightarrow> (Some e, w2)
          | Inr mode \<Rightarrow> and_then (each (OptionsAddRelayURL K options) (RelayURLs opts) w2) (OptionsSetRelayMode options mode)
        else (None, w2)) (\<lambda>w3.
     each (\<lambda>addr. OptionsAddBindAddr K options (AddrPort_String N addr)) (BindAddrs opts) w3)))"

subsection \<open>Endpoint (endpoint.go)\<close>

definition new_endpoint :: "u64 \<Rightarrow> bytes \<Rightarrow> ('n, 'z) world_scheme \<Rightarrow> nat \<times> ('n, 'z) world_scheme" where
  "new_endpoint h i w = (next_endpoint w, w\<lparr>next_endpoint := Suc (next_endpoint w),
     endpoints := (endpoints w)(next_endpoint w := \<lparr>eh = h, eid = i\<rparr>)\<rparr>)"

definition Bind :: "'n iroh \<Rightarrow> 'n queries \<Rightarrow> codec \<Rightarrow> 'a netip \<Rightarrow> go_error option \<Rightarrow> ctx \<Rightarrow> 'a Options \<Rightarrow> ('n, 'z) world_scheme \<Rightarrow>
    ((go_error + nat) \<times> ('n, 'z) world_scheme) option" where
  "Bind I Q K N ld c opts w = (case Preset_ffi (Preset opts) of
     Inl err \<Rightarrow> Some (Inl err, w)
   | Inr preset \<Rightarrow> (case OptionsNew ld preset w of
       (Inl err, w1) \<Rightarrow> Some (Inl err, w1)
     | (Inr options, w1) \<Rightarrow> (case applyOptions K N options opts w1 of
         (Some err, w2) \<Rightarrow> Some (Inl err, OptionsFree options w2)
       | (None, w2) \<Rightarrow> map_option (\<lambda>(r, w3). case r of
             Inl err \<Rightarrow> (Inl err, w3)
           | Inr h \<Rightarrow> (case FfiEndpointID Q h zero_id w3 of
               ((_, Some err), w4) \<Rightarrow> (Inl err, EndpointFree h w4)
             | ((i, None), w4) \<Rightarrow> (case new_endpoint h i w4 of (ep, w5) \<Rightarrow> (Inr ep, w5))))
           (EndpointBind I c options w2))))"

definition Endpoint_Addr :: "'n queries \<Rightarrow> codec \<Rightarrow> 'a netip \<Rightarrow> go_error option \<Rightarrow> nat \<Rightarrow> ('n, 'z) world_scheme \<Rightarrow>
    (go_error + 'a EndpointAddr) \<times> ('n, 'z) world_scheme" where
  "Endpoint_Addr Q K N ld a w = (case handle_get (eh (endpoints w a)) of
     Inl err \<Rightarrow> (Inl err, w)
   | Inr h \<Rightarrow> (case FfiEndpointAddr Q K h w of (Inl err, w1) \<Rightarrow> (Inl err, w1) | (Inr txt, w1) \<Rightarrow> decodeAddr K N ld txt w1))"

fun parse_sockets :: "'a netip \<Rightarrow> string list \<Rightarrow> go_error + 'a list" where
  "parse_sockets N [] = Inr []"
| "parse_sockets N (line # ls) = (case ParseAddrPort N line of
     Inl err \<Rightarrow> Inl (errKind KindInternal ''unparsable bound socket %q: %v'' [ArgStr line, ArgErr err])
   | Inr addr \<Rightarrow> (case parse_sockets N ls of Inl e \<Rightarrow> Inl e | Inr as \<Rightarrow> Inr (addr # as)))"

definition BoundSockets :: "'n queries \<Rightarrow> 'a netip \<Rightarrow> nat \<Rightarrow> ('n, 'z) world_scheme \<Rightarrow> (go_error + 'a list) \<times> ('n, 'z) world_scheme" where
  "BoundSockets Q N a w = (case handle_get (eh (endpoints w a)) of
     Inl err \<Rightarrow> (Inl err, w)
   | Inr h \<Rightarrow> (case EndpointBoundSockets Q h w of
       (Inl err, w1) \<Rightarrow> (Inl err, w1)
     | (Inr txt, w1) \<Rightarrow> (if txt = [] then Inr [] else parse_sockets N (Split newline txt), w1)))"

record RemoteAddr =
  rm_kind :: string
  rm_usage :: string
  rm_addr :: string

definition remoteAddrFields :: nat where "remoteAddrFields = 3"

fun parse_remote_addrs :: "string list \<Rightarrow> go_error + RemoteAddr list" where
  "parse_remote_addrs [] = Inr []"
| "parse_remote_addrs (line # ls) =
     (let fields = SplitN tab remoteAddrFields line in
      if length fields \<noteq> remoteAddrFields then Inl (errKind KindInternal ''unparsable remote address %q'' [ArgStr line])
      else case parse_remote_addrs ls of
        Inl e \<Rightarrow> Inl e
      | Inr as \<Rightarrow> Inr (\<lparr>rm_kind = fields ! 0, rm_usage = fields ! 1, rm_addr = fields ! 2\<rparr> # as))"

definition RemoteAddrs :: "'n iroh \<Rightarrow> codec \<Rightarrow> nat \<Rightarrow> ctx \<Rightarrow> bytes \<Rightarrow> ('n, 'z) world_scheme \<Rightarrow>
    ((go_error + RemoteAddr list) \<times> ('n, 'z) world_scheme) option" where
  "RemoteAddrs I K a c i w = (case handle_get (eh (endpoints w a)) of
     Inl err \<Rightarrow> Some (Inl err, w)
   | Inr h \<Rightarrow> map_option (\<lambda>(r, w1). (case r of Inl err \<Rightarrow> Inl err
         | Inr txt \<Rightarrow> if txt = [] then Inr [] else parse_remote_addrs (Split newline txt), w1))
       (EndpointRemoteInfo I K c h i w))"

definition Online :: "'n iroh \<Rightarrow> nat \<Rightarrow> ctx \<Rightarrow> ('n, 'z) world_scheme \<Rightarrow> (go_error option \<times> ('n, 'z) world_scheme) option" where
  "Online I a c w = (case handle_get (eh (endpoints w a)) of Inl err \<Rightarrow> Some (Some err, w) | Inr h \<Rightarrow> EndpointOnline I c h w)"

definition HomeRelay :: "'n queries \<Rightarrow> nat \<Rightarrow> ('n, 'z) world_scheme \<Rightarrow> (go_error + string) \<times> ('n, 'z) world_scheme" where
  "HomeRelay Q a w = (case handle_get (eh (endpoints w a)) of Inl err \<Rightarrow> (Inl err, w) | Inr h \<Rightarrow> EndpointHomeRelay Q h w)"

definition Endpoint_Ticket :: "'n queries \<Rightarrow> codec \<Rightarrow> 'a netip \<Rightarrow> go_error option \<Rightarrow> nat \<Rightarrow> ('n, 'z) world_scheme \<Rightarrow>
    (go_error + string) \<times> ('n, 'z) world_scheme" where
  "Endpoint_Ticket Q K N ld a w = (case Endpoint_Addr Q K N ld a w of
     (Inl err, w1) \<Rightarrow> (Inl err, w1) | (Inr addr, w1) \<Rightarrow> EndpointAddr_Ticket K N ld addr w1)"

definition adopt_conn :: "nat \<Rightarrow> (go_error + u64) \<times> ('n, 'z) world_scheme \<Rightarrow> (go_error + nat) \<times> ('n, 'z) world_scheme" where
  "adopt_conn a r = (case r of (Inl err, w) \<Rightarrow> (Inl err, w) | (Inr h, w) \<Rightarrow> (let (c, w1) = newConn h a w in (Inr c, w1)))"

definition Connect :: "'n iroh \<Rightarrow> codec \<Rightarrow> 'a netip \<Rightarrow> nat \<Rightarrow> ctx \<Rightarrow> 'a EndpointAddr \<Rightarrow> bytes \<Rightarrow> ('n, 'z) world_scheme \<Rightarrow>
    ((go_error + nat) \<times> ('n, 'z) world_scheme) option" where
  "Connect I K N a c addr alpn w = (case handle_get (eh (endpoints w a)) of
     Inl err \<Rightarrow> Some (Inl err, w)
   | Inr h \<Rightarrow> if length alpn = 0 then Some (Inl (errKind KindALPN ''connect requires an alpn'' []), w)
       else map_option (adopt_conn a) (EndpointConnect I K c h (encode N addr) alpn w))"

definition ConnectTicket :: "'n iroh \<Rightarrow> codec \<Rightarrow> 'a netip \<Rightarrow> go_error option \<Rightarrow> nat \<Rightarrow> ctx \<Rightarrow> string \<Rightarrow> bytes \<Rightarrow>
    ('n, 'z) world_scheme \<Rightarrow> ((go_error + nat) \<times> ('n, 'z) world_scheme) option" where
  "ConnectTicket I K N ld a c ticket alpn w = (case Ticket_Addr K N ld ticket w of
     (Inl err, w1) \<Rightarrow> Some (Inl err, w1) | (Inr addr, w1) \<Rightarrow> Connect I K N a c addr alpn w1)"

definition Endpoint_Accept :: "'n iroh \<Rightarrow> nat \<Rightarrow> ctx \<Rightarrow> ('n, 'z) world_scheme \<Rightarrow>
    ((go_error + nat) \<times> ('n, 'z) world_scheme) option" where
  "Endpoint_Accept I a c w = (case handle_get (eh (endpoints w a)) of
     Inl err \<Rightarrow> Some (Inl err, w) | Inr h \<Rightarrow> map_option (adopt_conn a) (EndpointAccept I c h w))"

definition take_endpoint :: "nat \<Rightarrow> ('n, 'z) world_scheme \<Rightarrow> u64 \<times> ('n, 'z) world_scheme" where
  "take_endpoint a w = (let (h, v) = handle_take (eh (endpoints w a)) in
     (h, w\<lparr>endpoints := (endpoints w)(a := (endpoints w a)\<lparr>eh := v\<rparr>)\<rparr>))"

definition Endpoint_Close :: "'n iroh \<Rightarrow> nat \<Rightarrow> ctx \<Rightarrow> ('n, 'z) world_scheme \<Rightarrow>
    (go_error option \<times> ('n, 'z) world_scheme) option" where
  "Endpoint_Close I a c w = (let (h, w1) = take_endpoint a w in
     if h = 0 then Some (None, w1)
     else map_option (\<lambda>(err, w2). (err, EndpointFree h w2)) (EndpointClose I c h w1))"

end
