(* ===== verification/Async_Calls.thy ===== *)
theory Async_Calls
  imports Endpoints
begin

text \<open>
  What holds of every asynchronous call of \<^verbatim>\<open>internal/ffi/calls.go\<close>, all nineteen of them: each gives back everything
  it took, and each refuses a handle that is not live before anything is started.
\<close>

subsection \<open>The calls\<close>

datatype async_call =
    Call_EndpointBind | Call_EndpointRemoteInfo bytes | Call_EndpointOnline | Call_EndpointConnect string bytes
  | Call_EndpointAccept | Call_EndpointClose
  | Call_ConnOpenBi | Call_ConnAcceptBi | Call_ConnOpenUni | Call_ConnAcceptUni | Call_ConnReadDatagram | Call_ConnClosed
  | Call_SendWrite bytes | Call_SendFinish | Call_SendReset u64 | Call_SendSetPriority i32 | Call_SendStopped
  | Call_RecvRead bytes | Call_RecvStop u64

text \<open>A call on the handle \<open>h\<close>, and of its results the error.\<close>

definition outcome :: "(go_error + 'a) \<times> 'w \<Rightarrow> go_error option \<times> 'w" where
  "outcome r = (case fst r of Inl e \<Rightarrow> Some e | Inr _ \<Rightarrow> None, snd r)"

fun perform :: "'n iroh \<Rightarrow> codec \<Rightarrow> ctx \<Rightarrow> u64 \<Rightarrow> async_call \<Rightarrow> ('n, 'z) world_scheme \<Rightarrow>
    (go_error option \<times> ('n, 'z) world_scheme) option" where
  "perform I K c h Call_EndpointBind w = map_option outcome (EndpointBind I c h w)"
| "perform I K c h (Call_EndpointRemoteInfo i) w = map_option outcome (EndpointRemoteInfo I K c h i w)"
| "perform I K c h Call_EndpointOnline w = EndpointOnline I c h w"
| "perform I K c h (Call_EndpointConnect addr alpn) w = map_option outcome (EndpointConnect I K c h addr alpn w)"
| "perform I K c h Call_EndpointAccept w = map_option outcome (EndpointAccept I c h w)"
| "perform I K c h Call_EndpointClose w = EndpointClose I c h w"
| "perform I K c h Call_ConnOpenBi w = map_option outcome (ConnOpenBi I c h w)"
| "perform I K c h Call_ConnAcceptBi w = map_option outcome (ConnAcceptBi I c h w)"
| "perform I K c h Call_ConnOpenUni w = map_option outcome (ConnOpenUni I c h w)"
| "perform I K c h Call_ConnAcceptUni w = map_option outcome (ConnAcceptUni I c h w)"
| "perform I K c h Call_ConnReadDatagram w = map_option outcome (ConnReadDatagram I c h w)"
| "perform I K c h Call_ConnClosed w = map_option outcome (ConnClosed I c h w)"
| "perform I K c h (Call_SendWrite data) w = map_option outcome (SendWrite I c h data w)"
| "perform I K c h Call_SendFinish w = SendFinish I c h w"
| "perform I K c h (Call_SendReset code) w = SendReset I c h code w"
| "perform I K c h (Call_SendSetPriority q) w = SendSetPriority I c h q w"
| "perform I K c h Call_SendStopped w = map_option outcome (SendStopped I c h w)"
| "perform I K c h (Call_RecvRead dst) w = map_option outcome (RecvRead I c h dst w)"
| "perform I K c h (Call_RecvStop code) w = RecvStop I c h code w"

lemma outcome_pair [simp]: "outcome (r, w) = (case r of Inl e \<Rightarrow> Some e | Inr _ \<Rightarrow> None, w)"
  by (simp add: outcome_def)

text \<open>The calls that do nothing but look their object up before they start.\<close>

lemmas on_object_defs = EndpointOnline_def iroh_endpoint_online_def EndpointAccept_def iroh_endpoint_accept_def EndpointClose_def
  iroh_endpoint_close_def ConnOpenBi_def iroh_conn_open_bi_def ConnAcceptBi_def iroh_conn_accept_bi_def
  ConnOpenUni_def iroh_conn_open_uni_def ConnAcceptUni_def iroh_conn_accept_uni_def ConnReadDatagram_def
  iroh_conn_read_datagram_def ConnClosed_def iroh_conn_closed_def SendWrite_def iroh_send_write_def
  SendFinish_def iroh_send_finish_def SendSetPriority_def iroh_send_set_priority_def SendStopped_def
  iroh_send_stopped_def

text \<open>The text of an address that \<^verbatim>\<open>EndpointConnect\<close> is given, as the library reads it; \<open>None\<close> is a panic in the decoder.\<close>

definition dialled :: "codec \<Rightarrow> string \<Rightarrow> endpoint_addr rust" where
  "dialled K addr = rust_bind (str_arg K addr) (decode_addr K)"

subsection \<open>No call leaves anything behind\<close>

text \<open>Options leave the table when an endpoint is bound with them.\<close>

lemma evolves_remove: "evolves w (w\<lparr>reg := snd (remove h (reg w))\<rparr>)"
  by (auto simp: evolves_def live_simps split: if_splits)

lemma world_ok_remove:
  assumes "world_ok k w" and "quiet okay w" and "\<not> is_op (live w h)" and "h \<noteq> 0"
  shows "world_ok k (w\<lparr>reg := snd (remove h (reg w))\<rparr>)" "quiet okay (w\<lparr>reg := snd (remove h (reg w))\<rparr>)"
  using assms pump_ok_free_slot [of w h] by (auto simp: world_ok_def room_def quiet_def clean_def live_simps)

lemma reap_bind:
  fixes w :: "'n world"
  assumes run: "EndpointBind I c h w = Some (r, w')" and ok: "world_ok 2 w" "quiet (\<lambda>_. True) w"
  shows "reaped 2 (\<lambda>_. True) (next_id (reg w)) w w'"
proof (cases "get_slot as_options h (reg w)")
  case (Inl e)
  then have "iroh_endpoint_bind h w = spawn (FBind undefined) w \<or> (\<exists>e. iroh_endpoint_bind h w = spawn_ready (Inl e) w)"
    by (auto simp: iroh_endpoint_bind_def)
  from reap_handle_call [OF run [unfolded EndpointBind_def] ok this] show ?thesis by simp
next
  case (Inr q)
  let ?w = "w\<lparr>reg := snd (remove h (reg w))\<rparr>"
  have h: "h \<noteq> 0" "\<not> is_op (live w h)"
    using Inr by (auto simp: get_slot_lookup is_op_def split: if_splits option.splits slot.splits)
  note ok' = world_ok_remove [OF ok h(2,1)]
  have "(let (op, w1) = begin_op (spawn (FBind q) ?w) in AwaitHandle I c op w1) = Some (r, w')"
    using run Inr by (simp add: EndpointBind_def iroh_endpoint_bind_def)
  from reap_handle_call [OF this ok' disjI1 [OF refl]]
  have "reaped 2 (\<lambda>_. True) (next_id (reg w)) ?w w'" by (simp add: live_simps)
  then show ?thesis using evolves_trans [OF evolves_remove] by (auto simp: reaped_def)
qed

lemma reap_connect:
  fixes w :: "'n world"
  assumes run: "EndpointConnect I K c h addr alpn w = Some (r, w')" and ok: "world_ok 2 w" "quiet (\<lambda>_. True) w"
  shows "if dialled K addr = None then w' = w \<and> r = Inl (NewError 0 ''iroh: operation could not be started'')
    else reaped 2 (\<lambda>_. True) (next_id (reg w)) w w'"
proof (cases "dialled K addr")
  case None
  then have "iroh_endpoint_connect K h addr alpn w = (0, w)" by (simp add: iroh_endpoint_connect_def dialled_def)
  then show ?thesis using run None
    by (auto simp: EndpointConnect_def AwaitHandle_def await_collect_def await_ok_def await_def)
next
  case (Some x)
  let ?s = "iroh_endpoint_connect K h addr alpn w"
  let ?f = "FConnect h (case x of Inr a \<Rightarrow> a) alpn"
  have s: "?s = spawn ?f w \<or> (\<exists>e. ?s = spawn_ready (Inl e) w)"
    using Some spawn_on_cases [of as_endpoint h ?f w] by (auto simp: iroh_endpoint_connect_def dialled_def split: sum.splits)
  have "pump_ok w" using ok(1) by (simp add: world_ok_def)
  then have "next_id (reg w) \<noteq> 0" using lib_invD(5) [OF pump_okD(2) [of w]] by simp
  with s have "fst ?s \<noteq> 0" by (auto simp: spawn_def spawn_ready_def reserve_def)
  then have "(let (op, w1) = begin_op ?s in AwaitHandle I c op w1) = Some (r, w')"
    using run by (simp add: EndpointConnect_def Let_def)
  from reap_handle_call [OF this ok s] Some show ?thesis by simp
qed

lemma reap_call:
  fixes w :: "'n world"
  assumes run: "perform I K c h q w = Some (e, w')" and ok: "world_ok 2 w" "quiet (\<lambda>_. True) w"
    and q: "\<nexists>addr alpn. q = Call_EndpointConnect addr alpn"
  shows "reaped 2 (\<lambda>_. True) (next_id (reg w)) w w'"
proof -
  note unit = reap_unit_call [OF _ ok] and handle = reap_handle_call [OF _ ok] and handle2 = reap_handle2_call [OF _ ok]
    and u64 = reap_u64_call [OF _ ok] and bytes = reap_bytes_call [OF disjI1 ok] and into = reap_bytes_call [OF disjI2 ok]
  note on = unit [OF _ spawn_on_cases, unfolded Let_def] handle [OF _ spawn_on_cases, unfolded Let_def]
    handle2 [OF _ spawn_on_cases, unfolded Let_def] u64 [OF _ spawn_on_cases, unfolded Let_def] bytes [OF _ spawn_on_cases, unfolded Let_def]
  show ?thesis
  proof (cases q)
    case Call_EndpointBind
    then show ?thesis using run ok by (auto intro: reap_bind)
  next
    case (Call_EndpointRemoteInfo i)
    then obtain x where "EndpointRemoteInfo I K c h i w = Some (x, w')" using run by auto
    then show ?thesis unfolding EndpointRemoteInfo_def
      by (rule bytes [where f = "FRemoteInfo h i"]) (auto simp: iroh_endpoint_remote_info_def split: sum.split option.split)
  next
    case (Call_EndpointConnect addr alpn)
    then show ?thesis using q by blast
  next
    case (Call_SendReset code)
    then have "SendReset I c h code w = Some (e, w')" using run by simp
    then show ?thesis unfolding SendReset_def
      by (rule unit [where f = "FReset h (case i_varint I code of Inr x \<Rightarrow> x)"]) (auto simp: iroh_send_reset_def split: sum.split)
  next
    case (Call_RecvRead dst)
    then obtain x where "RecvRead I c h dst w = Some (x, w')" using run by auto
    then show ?thesis unfolding RecvRead_def
      by (rule into [where f = "FRead h (of_nat (length dst))"]) (auto simp: iroh_recv_read_def split: sum.split)
  next
    case (Call_RecvStop code)
    then have "RecvStop I c h code w = Some (e, w')" using run by simp
    then show ?thesis unfolding RecvStop_def
      by (rule unit [where f = "FStop h (case i_varint I code of Inr x \<Rightarrow> x)"]) (auto simp: iroh_recv_stop_def split: sum.split)
  qed (use run in \<open>auto intro: on simp: on_object_defs\<close>)
qed

text \<open>
  C2: no asynchronous call leaves anything behind, on any path: success, an error of the library, a
  stale handle, a cancelled or expired context. When the call returns, its operation is gone from
  the library and from the pump's tables, every buffer and every error object the library handed
  over has been given back, once, and the library's and the pump's state is consistent. The one call
  that may start no operation at all, dialling an address whose decoding panics, changes nothing and reports it.
\<close>

theorem async_calls_reap:
  fixes w :: "'n world"
  assumes "perform I K c h q w = Some (e, w')" and "world_ok 2 w" and "quiet (\<lambda>_. True) w"
  shows "if \<exists>addr alpn. q = Call_EndpointConnect addr alpn \<and> dialled K addr = None then w' = w \<and> e \<noteq> None
    else reaped 2 (\<lambda>_. True) (next_id (reg w)) w w'"
proof (cases "\<exists>addr alpn. q = Call_EndpointConnect addr alpn")
  case True
  then obtain addr alpn where q: "q = Call_EndpointConnect addr alpn" by blast
  then obtain x where run: "EndpointConnect I K c h addr alpn w = Some (x, w')" "e = (case x of Inl e \<Rightarrow> Some e | Inr _ \<Rightarrow> None)"
    using assms(1) by auto
  from reap_connect [OF run(1) assms(2,3)] show ?thesis using q run(2) by (auto split: if_splits)
next
  case False
  then show ?thesis using reap_call [OF assms] by auto
qed

theorem async_calls_reap_witness:
  "\<exists>w'. perform echo plain (Ctx 0) 1 Call_EndpointAccept (world_with SEndpoint echo_start raced) = Some (None, w')
     \<and> reaped 2 (\<lambda>_. True) 2 (world_with SEndpoint echo_start raced) w'"
proof -
  define w where "w = world_with SEndpoint echo_start raced"
  have "map_option fst (perform echo plain (Ctx 0) 1 Call_EndpointAccept w) = Some None" unfolding w_def by code_simp
  then obtain w' where run: "perform echo plain (Ctx 0) 1 Call_EndpointAccept w = Some (None, w')" by auto
  have ok: "world_ok 2 w" "quiet (\<lambda>_. True) w" unfolding w_def
    by (rule world_ok_with, simp, simp, rule quiet_with) simp_all
  from async_calls_reap [OF run ok] have "reaped 2 (\<lambda>_. True) (next_id (reg w)) w w'" by simp
  moreover have "next_id (reg w) = 2" unfolding w_def by (simp add: world_with_def world_init_def live_simps)
  ultimately show ?thesis using run unfolding w_def by auto
qed

subsection \<open>A handle that is not live\<close>

text \<open>The body of an operation that failed before it was started never runs.\<close>

definition refused :: "ctx \<Rightarrow> rust_error \<Rightarrow> ('n \<Rightarrow> 'o) \<Rightarrow> 'n world \<Rightarrow> go_error option \<Rightarrow> 'n world \<Rightarrow> bool" where
  "refused c x obs w e w' \<longleftrightarrow> (\<exists>y. e = Some y \<and> await_error c x y w') \<and> obs (net w') = obs (net w)"

lemma refused_operation:
  assumes "steady I okay obs"
  shows "operation I f (\<lambda>_. False) (\<lambda>r n. r = Inl x \<and> obs n = v) okay"
  by unfold_locales (use assms in \<open>auto simp: steady_def\<close>)

lemma refused_begin:
  fixes w :: "'n world"
  assumes "steady I okay obs" and "world_ok 2 w" and "quiet okay w" and "s = spawn_ready (Inl x) w"
  shows "world_ok (Suc 0) (snd (begin_op s))"
    "waiting f (\<lambda>_. False) (\<lambda>r n. r = Inl x \<and> obs n = obs (net w)) okay (fst s) ((=) Started) (snd (begin_op s))"
proof -
  have "(s = spawn f w \<and> False) \<or> (\<exists>e. s = spawn_ready (Inl e) w \<and> Inl e = (Inl x :: rust_error + op_value) \<and> obs (net w) = obs (net w))"
    using assms(4) by simp
  note st = operation.begin_waiting [OF refused_operation [OF assms(1)] this assms(2) [unfolded numeral_2_eq_2] assms(3)]
  show "world_ok (Suc 0) (snd (begin_op s))"
    "waiting f (\<lambda>_. False) (\<lambda>r n. r = Inl x \<and> obs n = obs (net w)) okay (fst s) ((=) Started) (snd (begin_op s))"
    using st(1,2) by simp_all
qed

lemma refused_calls:
  fixes w :: "'n world"
  assumes ok: "steady I okay obs" "world_ok 2 w" "quiet okay w" and s: "s = spawn_ready (Inl x) w"
  shows "(case begin_op s of (op, w1) \<Rightarrow> AwaitUnit I c op w1) = Some (e, w') \<Longrightarrow>
      refused c x obs w e w'"
    and "(case begin_op s of (op, w1) \<Rightarrow> AwaitHandle I c op w1) = Some (rHandle, w') \<Longrightarrow>
      refused c x obs w (case rHandle of Inl y \<Rightarrow> Some y | Inr _ \<Rightarrow> None) w'"
    and "(case begin_op s of (op, w1) \<Rightarrow> AwaitHandle2 I c op w1) = Some (rHandle2, w') \<Longrightarrow>
      refused c x obs w (case rHandle2 of Inl y \<Rightarrow> Some y | Inr _ \<Rightarrow> None) w'"
    and "(case begin_op s of (op, w1) \<Rightarrow> AwaitU64 I c op w1) = Some (rU64, w') \<Longrightarrow>
      refused c x obs w (case rU64 of Inl y \<Rightarrow> Some y | Inr _ \<Rightarrow> None) w'"
    and "(case begin_op s of (op, w1) \<Rightarrow> map_option (\<lambda>(r, w2). (map_sum id fst r, w2)) (AwaitBytes I c op w1)) = Some (rB, w') \<Longrightarrow>
      refused c x obs w (case rB of Inl y \<Rightarrow> Some y | Inr _ \<Rightarrow> None) w'"
    and "(case begin_op s of (op, w1) \<Rightarrow> AwaitBytesInto I c op dst w1) = Some (rI, w') \<Longrightarrow>
      refused c x obs w (case rI of Inl y \<Rightarrow> Some y | Inr _ \<Rightarrow> None) w'"
proof -
  note st = refused_begin(1) [OF ok s] refused_begin(2) [OF ok s, where f = "FOnline 0"]
  note op = refused_operation [OF ok(1)]
  show "(case begin_op s of (op, w1) \<Rightarrow> AwaitUnit I c op w1) = Some (e, w') \<Longrightarrow>
      refused c x obs w e w'"
    using operation.await_unit_rule(2) [OF op _ st] by (fastforce simp: begin_op_def refused_def)
  show "(case begin_op s of (op, w1) \<Rightarrow> AwaitHandle I c op w1) = Some (rHandle, w') \<Longrightarrow>
      refused c x obs w (case rHandle of Inl y \<Rightarrow> Some y | Inr _ \<Rightarrow> None) w'"
    using operation.await_collect_rule(2) [where call = iroh_op_result_handle and typed = is_handle and get = the_handle, OF op _ st result_handle_typed]
    by (fastforce simp: AwaitHandle_def begin_op_def refused_def)
  show "(case begin_op s of (op, w1) \<Rightarrow> AwaitHandle2 I c op w1) = Some (rHandle2, w') \<Longrightarrow>
      refused c x obs w (case rHandle2 of Inl y \<Rightarrow> Some y | Inr _ \<Rightarrow> None) w'"
    using operation.await_collect_rule(2) [where call = iroh_op_result_handle2 and typed = is_handle2 and get = the_handle2, OF op _ st result_handle2_typed]
    by (fastforce simp: AwaitHandle2_def begin_op_def refused_def)
  show "(case begin_op s of (op, w1) \<Rightarrow> AwaitU64 I c op w1) = Some (rU64, w') \<Longrightarrow>
      refused c x obs w (case rU64 of Inl y \<Rightarrow> Some y | Inr _ \<Rightarrow> None) w'"
    using operation.await_collect_rule(2) [where call = iroh_op_result_u64 and typed = is_u64 and get = the_u64, OF op _ st result_u64_typed]
    by (fastforce simp: AwaitU64_def begin_op_def refused_def)
  show "(case begin_op s of (op, w1) \<Rightarrow> map_option (\<lambda>(r, w2). (map_sum id fst r, w2)) (AwaitBytes I c op w1)) = Some (rB, w') \<Longrightarrow>
      refused c x obs w (case rB of Inl y \<Rightarrow> Some y | Inr _ \<Rightarrow> None) w'"
    using operation.await_bytes_rule [OF op _ st] by (fastforce simp: begin_op_def refused_def)
  show "(case begin_op s of (op, w1) \<Rightarrow> AwaitBytesInto I c op dst w1) = Some (rI, w') \<Longrightarrow>
      refused c x obs w (case rI of Inl y \<Rightarrow> Some y | Inr _ \<Rightarrow> None) w'"
    using operation.await_bytes_into_rule [OF op _ st] by (fastforce simp: begin_op_def refused_def)
qed

text \<open>What the calls are given besides the handle may be refused first: the text of an address, by the call that dials it.\<close>

definition addressed :: "codec \<Rightarrow> async_call \<Rightarrow> bool" where
  "addressed K q \<longleftrightarrow> (case q of Call_EndpointConnect addr alpn \<Rightarrow> (\<exists>a. dialled K addr = Ok a) | _ \<Rightarrow> True)"

lemma closed_is_closed: "errors_Is (NewError (kind_code Closed) m) (Sentinel ErrClosed)"
  by (simp only: NewError_def errors_Is_Error_sentinel sentinelFor_kind_code sentinel_of.simps)

text \<open>
  C17: every call on a handle that is not live any more, such as a stream another goroutine closed, is refused: it
  reports an error that \<^verbatim>\<open>errors.Is\<close> recognises as \<^verbatim>\<open>ErrClosed\<close>, or the error of its own context if that was
  done first, and it does not reach the network: whatever of the network the operations of others that are in flight
  or start meanwhile leave alone is as it was before, all of it when there are none.
\<close>

theorem stale_handle_is_closed:
  fixes w :: "'n world"
  assumes "perform I K c h q w = Some (e, w')" and "world_ok 2 w" and "quiet okay w" and "steady I okay obs"
    and "h \<noteq> 0" and "live w h = None" and "addressed K q"
  shows "(\<exists>y. e = Some y \<and> (errors_Is y (Sentinel ErrClosed) \<or> ctx_Err c w' = Some y)) \<and> obs (net w') = obs (net w)"
proof -
  define x where "x = rerr Closed (''handle '' @ dec (unat h) @ '' is not live'')"
  have none: "get_slot as h (reg w) = Inl x" for as :: "slot \<Rightarrow> 'b option"
    using assms(5,6) by (simp add: get_slot_lookup x_def)
  have sp: "spawn_on as h f w = spawn_ready (Inl x) w" for as :: "slot \<Rightarrow> 'b option" and f
    by (simp add: spawn_on_def none)
  note rule = refused_calls [OF assms(4,2,3) refl, where c = c and w' = w' and x = x]
  note run = assms(1)
  have "refused c x obs w e w'"
  proof (cases q)
    case (Call_EndpointConnect addr alpn)
    then obtain a where a: "dialled K addr = Ok a" using assms(7) by (auto simp: addressed_def)
    have "fst (spawn_ready (Inl x) w) = next_id (reg w)" by (simp add: spawn_ready_def reserve_def)
    moreover have "pump_ok w" using assms(2) by (simp add: world_ok_def)
    then have "next_id (reg w) \<noteq> 0" using lib_invD(5) [OF pump_okD(2) [of w]] by simp
    ultimately show ?thesis using run a Call_EndpointConnect
      by (auto intro: rule simp: EndpointConnect_def iroh_endpoint_connect_def dialled_def sp)
  qed (use run in \<open>auto intro: rule simp: none sp on_object_defs EndpointBind_def iroh_endpoint_bind_def EndpointRemoteInfo_def
      iroh_endpoint_remote_info_def SendReset_def iroh_send_reset_def RecvRead_def iroh_recv_read_def RecvStop_def iroh_recv_stop_def\<close>)
  then show ?thesis using closed_is_closed by (auto simp: refused_def await_error_def x_def)
qed

theorem stale_handle_is_closed_witness:
  "\<exists>y w'. perform echo plain (Ctx 0) 7 (Call_SendWrite ''greetings'') (world_with SSend echo_start smooth) = Some (Some y, w')
     \<and> (errors_Is y (Sentinel ErrClosed) \<or> ctx_Err (Ctx 0) w' = Some y) \<and> net w' = echo_start"
proof -
  define w where "w = world_with SSend echo_start smooth"
  have "perform echo plain (Ctx 0) 7 (Call_SendWrite ''greetings'') w \<noteq> None" unfolding w_def by code_simp
  then obtain e w' where run: "perform echo plain (Ctx 0) 7 (Call_SendWrite ''greetings'') w = Some (e, w')" by auto
  have ok: "world_ok 2 w" "quiet (\<lambda>_. False) w" unfolding w_def
    by (rule world_ok_with, simp, simp, rule quiet_with) simp_all
  have alone: "steady echo (\<lambda>_. False) (\<lambda>n. n)" by (simp add: steady_def)
  have "live w 7 = None" "net w = echo_start" unfolding w_def by code_simp (simp add: world_with_def world_init_def)
  then show ?thesis using stale_handle_is_closed [OF run ok alone] run unfolding w_def by (auto simp: addressed_def)
qed

end
