(* ===== verification/Address_Properties.thy ===== *)
theory Address_Properties
  imports Addresses
begin

text \<open>
  What the text form of addresses keeps: decoding what was encoded gives the address back, no
  transport is lost between the library and the bindings, and the one case that is.
\<close>

subsection \<open>Lines\<close>

text \<open>What a line of the text form looks like: trimmed, on one line, and with a space in it.\<close>

definition line_ok :: "string \<Rightarrow> bool" where
  "line_ok l \<longleftrightarrow> trimmed l \<and> newline \<notin> set l \<and> space \<in> set l"

lemma line_okD: "line_ok l \<Longrightarrow> l \<noteq> []" "line_ok l \<Longrightarrow> TrimSpace l = l" "line_ok l \<Longrightarrow> newline \<notin> set l"
  by (auto simp: line_ok_def)

lemma trimmed_word: "trimmed ''ip''" "trimmed ''relay''" "trimmed ''custom''"
  by (rule trimmed_free, simp add: space_heads_def)+

lemma ascii_seps: "of_char newline < (0x80 :: nat)" "of_char space < (0x80 :: nat)"
  by code_simp+

lemma trimmed_suffix: "trimmed b \<Longrightarrow> \<forall>q \<in> set space_seqs. \<not> suffix q b"
  by (simp add: trimmed_def)

lemma trimmed_line: "trimmed a \<Longrightarrow> a \<noteq> [] \<Longrightarrow> trimmed b \<Longrightarrow> b \<noteq> [] \<Longrightarrow> trimmed (a @ space # b)"
  by (rule trimmed_parts) (auto simp: ascii_seps trimmed_suffix)

lemma trimmed_join:
  assumes "trimmed x" and "x \<noteq> []" and "\<forall>l \<in> set ls. trimmed l \<and> l \<noteq> []"
  shows "trimmed (join newline (x # ls)) \<and> join newline (x # ls) \<noteq> []"
  using assms
proof (induction ls arbitrary: x)
  case (Cons l ls)
  then have "trimmed (join newline (l # ls))" "join newline (l # ls) \<noteq> []" by simp_all
  then have "trimmed (x @ newline # join newline (l # ls))" using Cons.prems
    by (intro trimmed_parts) (auto simp: ascii_seps trimmed_suffix)
  then show ?case by simp
qed simp

lemma join_concat: "join c (x # xs) = x @ concat (map (\<lambda>l. c # l) xs)"
  by (induction xs arbitrary: x) auto

lemma not_ends_in_cr: "trimmed l \<Longrightarrow> l \<noteq> [] \<Longrightarrow> last l \<noteq> CHR 0x0D"
proof -
  assume "trimmed l" "l \<noteq> []"
  have "[CHR 0x0D] \<in> set space_seqs" by code_simp
  moreover have "suffix [last l] l" using \<open>l \<noteq> []\<close> by (auto simp: suffix_def intro: exI [of _ "butlast l"])
  ultimately show ?thesis using \<open>trimmed l\<close> by (auto simp: trimmed_def)
qed

lemma strip_cr_id: "\<forall>l \<in> set ls. trimmed l \<and> l \<noteq> [] \<Longrightarrow> strip_cr ls = ls"
  by (induction ls rule: strip_cr.induct) (auto dest: not_ends_in_cr)

lemma rust_lines_join:
  assumes "\<forall>l \<in> set (x # ls). trimmed l \<and> l \<noteq> [] \<and> newline \<notin> set l"
  shows "rust_lines (join newline (x # ls)) = x # ls"
  using assms by (subst rust_lines_def, subst Split_join) (auto intro!: strip_cr_id)

lemma TrimSpace_space_end:
  assumes "trimmed l" and "l \<noteq> []"
  shows "TrimSpace (l @ [space]) = l"
proof -
  have "\<not> prefix q (l @ [space])" if q: "q \<in> set space_seqs" for q
  proof
    assume "prefix q (l @ [space])"
    then have "q = l @ [space]" using assms(1) q by (auto simp: prefix_append trimmed_def prefix_Cons)
    then show False using space_seqs_ascii [OF q _ ascii_seps(2)] assms(2) by simp
  qed
  then have front: "trim_front space_seqs (l @ [space]) = l @ [space]" by (intro trim_front_id) simp
  have only: "q = [space]" if "q \<in> set (map rev space_seqs)" "prefix q (rev (l @ [space]))" "q \<noteq> []" for q
  proof -
    have "q \<in> rev ` set space_seqs" using that(1) by simp
    then obtain p where p: "p \<in> set space_seqs" "q = rev p" by (rule imageE)
    have "hd q = space" using that(2,3) by (cases q) auto
    then have "space \<in> set p" using hd_in_set [OF that(3)] p(2) by simp
    then have "p = [space]" by (rule space_seqs_ascii [OF p(1) _ ascii_seps(2)])
    then show ?thesis using p(2) by simp
  qed
  have "[space] \<in> set space_seqs" by code_simp
  then have "[space] \<in> set (map rev space_seqs)" by force
  then have "find (\<lambda>q. q \<noteq> [] \<and> prefix q (rev (l @ [space]))) (map rev space_seqs) \<noteq> None"
    by (auto simp: find_None_iff)
  then obtain q where f: "find (\<lambda>q. q \<noteq> [] \<and> prefix q (rev (l @ [space]))) (map rev space_seqs) = Some q" by blast
  then have "q \<in> set (map rev space_seqs)" "prefix q (rev (l @ [space]))" "q \<noteq> []"
    unfolding find_Some_iff by (metis nth_mem)+
  then have "q = [space]" by (rule only)
  then have "trim_front (map rev space_seqs) (rev (l @ [space])) = trim_front (map rev space_seqs) (rev l)"
    using f by (subst trim_front.simps) simp
  also have "\<dots> = rev l" using assms(1) by (intro trim_front_id) (auto simp: trimmed_def suffix_to_prefix)
  finally show ?thesis by (simp add: TrimSpace_def front)
qed

subsection \<open>The text form of an address\<close>

definition addr_lines :: "'a netip \<Rightarrow> 'a EndpointAddr \<Rightarrow> string list" where
  "addr_lines N a = (if RelayURL a \<noteq> [] then [''relay '' @ RelayURL a] else []) @
     map (\<lambda>ap. ''ip '' @ AddrPort_String N ap) (DirectAddrs a) @ extra a"

lemma foldl_lines: "foldl (\<lambda>b x. b @ newline # f x) s xs = s @ concat (map (\<lambda>x. newline # f x) xs)"
  by (induction xs arbitrary: s) auto

lemma encode_join: "encode N a = join newline (EncodeToString (ID a) # addr_lines N a)"
proof -
  have "foldl (\<lambda>b addr. b @ newline # ''ip '' @ AddrPort_String N addr) s xs =
      s @ concat (map (\<lambda>l. newline # l) (map (\<lambda>ap. ''ip '' @ AddrPort_String N ap) xs))" for s xs
    by (subst foldl_lines) (simp add: comp_def)
  then show ?thesis unfolding encode_def Let_def join_concat addr_lines_def
    by (simp add: foldl_lines EndpointID_String_def)
qed

text \<open>An address whose text form reads back: what \<open>decodeAddr\<close> produces.\<close>

definition wf_addr :: "'a netip \<Rightarrow> 'a EndpointAddr \<Rightarrow> bool" where
  "wf_addr N a \<longleftrightarrow> (RelayURL a \<noteq> [] \<longrightarrow> line_ok (''relay '' @ RelayURL a)) \<and>
     (\<forall>ap \<in> set (DirectAddrs a). line_ok (''ip '' @ AddrPort_String N ap) \<and> ParseAddrPort N (AddrPort_String N ap) = Inr ap) \<and>
     (\<forall>l \<in> set (extra a). line_ok l \<and> (\<forall>kind rest. Cut space l = (kind, rest, True) \<longrightarrow>
        kind \<noteq> ''ip'' \<and> (kind = ''relay'' \<longrightarrow> RelayURL a \<noteq> [])))"

text \<open>The contracts of \<^verbatim>\<open>net/netip\<close> and of the crate's parser of ids: what they print, they read back.\<close>

definition netip_ok :: "'a netip \<Rightarrow> bool" where
  "netip_ok N \<longleftrightarrow> (\<forall>s ap. ParseAddrPort N s = Inr ap \<longrightarrow> ParseAddrPort N (AddrPort_String N ap) = Inr ap \<and>
     trimmed (AddrPort_String N ap) \<and> AddrPort_String N ap \<noteq> [] \<and> newline \<notin> set (AddrPort_String N ap))"

definition id_ok :: "codec \<Rightarrow> bool" where
  "id_ok K \<longleftrightarrow> (\<forall>s i. k_parse_id K s = Inr i \<longrightarrow> k_parse_id K (EncodeToString i) = Inr i \<and> length i = 32)"

lemma wf_lines: "wf_addr N a \<Longrightarrow> l \<in> set (addr_lines N a) \<Longrightarrow> line_ok l"
  by (auto simp: wf_addr_def addr_lines_def split: if_splits)

lemma decode_blank: "TrimSpace l = [] \<Longrightarrow> decode_lines N a (l # ls) = decode_lines N a ls"
  by simp

lemma decode_step:
  assumes "TrimSpace l \<noteq> []" and "Cut space (TrimSpace l) = (kind, rest, ok)"
  shows "\<not> ok \<Longrightarrow> \<exists>e. decode_lines N a (l # ls) = Inl e"
    and "ok \<Longrightarrow> kind = ''relay'' \<Longrightarrow> RelayURL a = [] \<Longrightarrow> decode_lines N a (l # ls) = decode_lines N (a\<lparr>RelayURL := rest\<rparr>) ls"
    and "ok \<Longrightarrow> kind = ''ip'' \<Longrightarrow> ParseAddrPort N rest = Inr ap \<Longrightarrow>
      decode_lines N a (l # ls) = decode_lines N (a\<lparr>DirectAddrs := DirectAddrs a @ [ap]\<rparr>) ls"
    and "ok \<Longrightarrow> kind = ''ip'' \<Longrightarrow> ParseAddrPort N rest = Inl err \<Longrightarrow> \<exists>e. decode_lines N a (l # ls) = Inl e"
    and "ok \<Longrightarrow> \<not> (kind = ''relay'' \<and> RelayURL a = []) \<Longrightarrow> kind \<noteq> ''ip'' \<Longrightarrow>
      decode_lines N a (l # ls) = decode_lines N (a\<lparr>extra := extra a @ [TrimSpace l]\<rparr>) ls"
  using assms by (auto simp: Let_def)

lemma decode_lines_append: "decode_lines N a (xs @ ys) = (case decode_lines N a xs of Inl e \<Rightarrow> Inl e | Inr b \<Rightarrow> decode_lines N b ys)"
  by (induction N a xs rule: decode_lines.induct) (auto simp: Let_def split: prod.split sum.split)

declare decode_lines.simps(2) [simp del]

lemma Cut_word: "Cut space (''relay '' @ u) = (''relay'', u, True)" "Cut space (''ip '' @ u) = (''ip'', u, True)"
  "Cut space (''custom '' @ u) = (''custom'', u, True)"
  using Cut_append [of space "''relay''" u] Cut_append [of space "''ip''" u] Cut_append [of space "''custom''" u] by simp_all

lemma Cut_line: "space \<in> set l \<Longrightarrow> \<exists>kind rest. Cut space l = (kind, rest, True)"
  using Cut_found [of space l] by (cases "Cut space l") auto

lemma decode_relay: "line_ok (''relay '' @ u) \<Longrightarrow> RelayURL a = [] \<Longrightarrow>
    decode_lines N a [''relay '' @ u] = Inr (a\<lparr>RelayURL := u\<rparr>)"
  using decode_step(2) [of "''relay '' @ u" "''relay''" u True a N "[]"] by (auto simp: line_okD Cut_word)

lemma decode_ips:
  "\<forall>ap \<in> set aps. line_ok (''ip '' @ AddrPort_String N ap) \<and> ParseAddrPort N (AddrPort_String N ap) = Inr ap \<Longrightarrow>
    decode_lines N a (map (\<lambda>ap. ''ip '' @ AddrPort_String N ap) aps) = Inr (a\<lparr>DirectAddrs := DirectAddrs a @ aps\<rparr>)"
proof (induction aps arbitrary: a)
  case (Cons ap aps)
  then have ok: "line_ok (''ip '' @ AddrPort_String N ap)" "ParseAddrPort N (AddrPort_String N ap) = Inr ap" by simp_all
  have "decode_lines N a (map (\<lambda>ap. ''ip '' @ AddrPort_String N ap) (ap # aps)) =
      decode_lines N (a\<lparr>DirectAddrs := DirectAddrs a @ [ap]\<rparr>) (map (\<lambda>ap. ''ip '' @ AddrPort_String N ap) aps)"
    using decode_step(3) [of "''ip '' @ AddrPort_String N ap" "''ip''" "AddrPort_String N ap" True N ap] ok
    by (auto simp: line_okD Cut_word)
  then show ?case using Cons by simp
qed simp

lemma decode_extra_line:
  assumes "line_ok l" and "\<forall>kind rest. Cut space l = (kind, rest, True) \<longrightarrow> kind \<noteq> ''ip'' \<and> (kind = ''relay'' \<longrightarrow> RelayURL a \<noteq> [])"
  shows "decode_lines N a (l # ls) = decode_lines N (a\<lparr>extra := extra a @ [l]\<rparr>) ls"
proof -
  obtain kind rest where c: "Cut space l = (kind, rest, True)" using Cut_line [of l] assms(1) by (auto simp: line_ok_def)
  then show ?thesis using assms decode_step(5) [of l kind rest True a N ls] by (auto simp: line_okD)
qed

lemma decode_extras:
  "\<forall>l \<in> set ls. line_ok l \<and> (\<forall>kind rest. Cut space l = (kind, rest, True) \<longrightarrow> kind \<noteq> ''ip'' \<and> (kind = ''relay'' \<longrightarrow> RelayURL a \<noteq> [])) \<Longrightarrow>
    decode_lines N a ls = Inr (a\<lparr>extra := extra a @ ls\<rparr>)"
proof (induction ls arbitrary: a)
  case (Cons l ls)
  then have "decode_lines N a (l # ls) = decode_lines N (a\<lparr>extra := extra a @ [l]\<rparr>) ls"
    by (intro decode_extra_line) auto
  then show ?case using Cons by simp
qed simp

lemma decode_wf_lines: "wf_addr N a \<Longrightarrow> decode_lines N (AddrOf (ID a)) (addr_lines N a) = Inr a"
proof -
  assume wf: "wf_addr N a"
  let ?a1 = "(AddrOf (ID a))\<lparr>RelayURL := RelayURL a\<rparr>"
  let ?a2 = "?a1\<lparr>DirectAddrs := DirectAddrs ?a1 @ DirectAddrs a\<rparr>"
  have "decode_lines N (AddrOf (ID a)) (if RelayURL a \<noteq> [] then [''relay '' @ RelayURL a] else []) = Inr ?a1"
    using wf decode_relay [of "RelayURL a" "AddrOf (ID a)" N] by (simp add: wf_addr_def AddrOf_def)
  moreover have "decode_lines N ?a1 (map (\<lambda>ap. ''ip '' @ AddrPort_String N ap) (DirectAddrs a)) = Inr ?a2"
    using wf by (intro decode_ips) (simp add: wf_addr_def)
  moreover have "decode_lines N ?a2 (extra a) = Inr (?a2\<lparr>extra := EndpointAddr.extra ?a2 @ extra a\<rparr>)"
    using wf by (intro decode_extras) (simp add: wf_addr_def)
  ultimately show ?thesis
    unfolding addr_lines_def decode_lines_append by (cases a) (simp add: AddrOf_def)
qed

lemma decode_encode:
  assumes "wf_addr N a" and "k_parse_id K (EncodeToString (ID a)) = Inr (ID a)" and "length (ID a) = 32"
  shows "decodeAddr K N None (encode N a) w = (Inr a, w)"
proof -
  let ?h = "EncodeToString (ID a)"
  have h: "?h \<noteq> []" "newline \<notin> set ?h" using assms(3) hex_ascii hex_length [of "ID a"] by (auto simp del: hex_length)
  have lines: "\<forall>l \<in> set (addr_lines N a). trimmed l \<and> l \<noteq> [] \<and> newline \<notin> set l"
    using wf_lines [OF assms(1)] line_okD by (auto simp: line_ok_def)
  then have "TrimSpace (encode N a) = encode N a"
    unfolding encode_join by (intro trimmed_TrimSpace trimmed_join [THEN conjunct1]) (auto simp: trimmed_hex h)
  moreover have "Split newline (encode N a) = ?h # addr_lines N a"
    unfolding encode_join by (rule Split_join) (use lines h in auto)
  ultimately show ?thesis
    by (simp add: decodeAddr_def h trimmed_hex parse_id_ok assms(2) decode_wf_lines [OF assms(1)])
qed

subsection \<open>What decoding produces\<close>

lemma line_ok_TrimSpace:
  assumes "newline \<notin> set l" and "Cut space (TrimSpace l) = (kind, rest, True)"
  shows "line_ok (TrimSpace l)" and "TrimSpace l = kind @ space # rest"
proof -
  show e: "TrimSpace l = kind @ space # rest" using assms(2) by (simp add: Cut_Some)
  have "newline \<notin> set (TrimSpace l)" using assms(1) TrimSpace_chars by blast
  then show "line_ok (TrimSpace l)" using TrimSpace_trimmed [of l] unfolding line_ok_def by (simp add: e)
qed

lemma decode_lines_wf:
  assumes N: "netip_ok N"
  shows "decode_lines N a ls = Inr b \<Longrightarrow> wf_addr N a \<Longrightarrow> \<forall>l \<in> set ls. newline \<notin> set l \<Longrightarrow> wf_addr N b \<and> ID b = ID a"
proof (induction ls arbitrary: a)
  case (Cons l ls)
  let ?l = "TrimSpace l"
  have nl: "newline \<notin> set l" "\<forall>l \<in> set ls. newline \<notin> set l" using Cons.prems(3) by auto
  obtain kind rest ok where c: "Cut space ?l = (kind, rest, ok)" by (cases "Cut space ?l") auto
  show ?case
  proof (cases "?l = []")
    case True
    then show ?thesis using Cons nl decode_blank [OF True, of N a ls] by simp
  next
    case False
    then have ok: "ok" using Cons.prems(1) decode_step(1) [OF False c, of N a ls] by auto
    then have c': "Cut space ?l = (kind, rest, True)" using c by simp
    note lok = line_ok_TrimSpace [OF nl(1) c']
    consider (relay) "kind = ''relay''" "RelayURL a = []" | (ip) "\<not> (kind = ''relay'' \<and> RelayURL a = [])" "kind = ''ip''"
      | (extra) "\<not> (kind = ''relay'' \<and> RelayURL a = [])" "kind \<noteq> ''ip''" by blast
    then show ?thesis
    proof cases
      case relay
      have "rest \<noteq> []"
      proof
        assume "rest = []"
        then have "last ?l = space" using lok(2) by simp
        then show False using trimmed_no_space_ends(2) [OF TrimSpace_trimmed False] by simp
      qed
      then have "wf_addr N (a\<lparr>RelayURL := rest\<rparr>)"
        using Cons.prems(2) relay lok by (auto simp: wf_addr_def)
      then show ?thesis using decode_step(2) [OF False c' _ relay, of N ls] Cons nl by auto
    next
      case ip
      have "\<nexists>err. ParseAddrPort N rest = Inl err"
        using decode_step(4) [OF False c' TrueI ip(2), where a = a and N = N and ls = ls] Cons.prems(1) by auto
      then obtain ap where ap: "ParseAddrPort N rest = Inr ap" by (cases "ParseAddrPort N rest") auto
      have s: "ParseAddrPort N (AddrPort_String N ap) = Inr ap" "trimmed (AddrPort_String N ap)" "AddrPort_String N ap \<noteq> []"
        "newline \<notin> set (AddrPort_String N ap)" using N ap by (auto simp: netip_ok_def)
      have "line_ok (''ip '' @ AddrPort_String N ap)"
        using trimmed_line [OF trimmed_word(1) _ s(2,3)] s(4) by (simp add: line_ok_def)
      then have "wf_addr N (a\<lparr>DirectAddrs := DirectAddrs a @ [ap]\<rparr>)"
        using Cons.prems(2) s(1) by (auto simp: wf_addr_def)
      then show ?thesis using decode_step(3) [OF False c' _ ip(2) ap, of a ls] Cons nl by auto
    next
      case extra
      have "wf_addr N (a\<lparr>extra := EndpointAddr.extra a @ [?l]\<rparr>)"
        using Cons.prems(2) extra lok c' by (auto simp: wf_addr_def)
      then show ?thesis using decode_step(5) [OF False c' _ extra, of N ls] Cons nl by auto
    qed
  qed
qed simp


lemma take_out_success:
  assumes "take_out old (ffi_out r w) = ((v, None), w')"
  shows "r = Ok v" "w' = w"
proof -
  have "r = Ok v \<and> w' = w"
  proof (cases r)
    case (Some x)
    show ?thesis
    proof (cases x)
      case (Inl e)
      obtain h w1 where "store_err e w = ((FFI_ERR, h), w1)" by (simp add: store_err_def case_prod_unfold Let_def)
      then show ?thesis using assms by (simp add: Some Inl take_out_def ffi_out_def FFI_ERR_def case_prod_unfold Let_def)
    qed (use assms Some in \<open>simp add: take_out_def ffi_out_def FFI_OK_def\<close>)
  qed (use assms in \<open>simp add: take_out_def ffi_out_def case_prod_unfold Let_def\<close>)
  then show "r = Ok v" "w' = w" by simp_all
qed

lemma parse_id_success:
  assumes "ParseEndpointID K ld s w = ((i, None), w')"
  shows "ld = None" "utf8_ok s" "k_parse_id K s = Inr i" "w' = w"
proof -
  from assms show ld: "ld = None" by (cases ld) (auto simp: ParseEndpointID_def EndpointIDParse_def)
  have "take_out zero_id (ffi_out (rust_bind (str_arg K s) (\<lambda>s. map_err (rerr KeyParsing) (k_parse_id K s))) w) = ((i, None), w')"
    using assms ld by (simp add: ParseEndpointID_def EndpointIDParse_def iroh_endpoint_id_parse_def)
  note r = take_out_success [OF this]
  show "w' = w" by (rule r(2))
  show "utf8_ok s" "k_parse_id K s = Inr i"
    using r(1) by (auto simp: rust_bind_def str_arg_def map_err_def split: if_splits sum.splits)
qed

lemma decodeAddr_result:
  assumes "decodeAddr K N ld text w = (Inr a, w')" and "netip_ok N" and "id_ok K"
  shows "wf_addr N a \<and> k_parse_id K (EncodeToString (ID a)) = Inr (ID a) \<and> length (ID a) = 32 \<and> w' = w"
proof -
  let ?lines = "Split newline (TrimSpace text)"
  have "hd ?lines \<noteq> []" using assms(1) by (auto simp: decodeAddr_def Let_def)
  then obtain i w1 where i: "ParseEndpointID K ld (TrimSpace (hd ?lines)) w = ((i, None), w1)"
    and a: "decode_lines N (AddrOf i) (tl ?lines) = Inr a" "w' = w1"
    using assms(1) by (auto simp: decodeAddr_def Let_def split: prod.splits option.splits)
  have "\<forall>l \<in> set (tl ?lines). newline \<notin> set l"
  proof
    fix l assume "l \<in> set (tl ?lines)"
    then have "l \<in> set ?lines" by (rule list.set_sel(2) [OF Split_nonempty])
    then show "newline \<notin> set l" by (rule Split_parts)
  qed
  moreover have "wf_addr N (AddrOf i)" by (simp add: wf_addr_def AddrOf_def)
  ultimately have "wf_addr N a" "ID a = i" using decode_lines_wf [OF assms(2) a(1)] by (auto simp: AddrOf_def)
  then show ?thesis using parse_id_success [OF i] assms(3) a(2) by (auto simp: id_ok_def)
qed

text \<open>
  C21: an address that was decoded is written back to a text that decodes to the same address, whatever
  the order of its lines and however it was spaced: the home relay, the direct addresses, and every
  line the type does not model come back unchanged, and neither direction disturbs the library.
\<close>

theorem address_round_trip:
  assumes "decodeAddr K N ld text w = (Inr a, w')" and "netip_ok N" and "id_ok K"
  shows "w' = w \<and> decodeAddr K N None (encode N a) v = (Inr a, v)"
  using decodeAddr_result [OF assms] decode_encode [of N a K v] by simp

subsection \<open>Between the library and the bindings\<close>

text \<open>
  A transport whose text the other side reads: the url and the socket address the crate prints parse,
  in Rust and in Go, to what they stand for, and a custom transport carries some data.
\<close>

definition transport_ok :: "codec \<Rightarrow> 'a netip \<Rightarrow> transport \<Rightarrow> bool" where
  "transport_ok K N t \<longleftrightarrow> (case t of
     TRelay u \<Rightarrow> trimmed u \<and> u \<noteq> [] \<and> newline \<notin> set u \<and> k_relay_url K u = Inr u
   | TIp s \<Rightarrow> trimmed s \<and> s \<noteq> [] \<and> newline \<notin> set s \<and> (\<exists>ap. ParseAddrPort N s = Inr ap \<and>
       k_socket_addr K (AddrPort_String N ap) = Inr s)
   | TCustom i d \<Rightarrow> d \<noteq> [])"

lemma split_once_word: "split_once space (''relay '' @ u) = Some (''relay'', u)" "split_once space (''ip '' @ u) = Some (''ip'', u)"
  "split_once space (''custom '' @ u) = Some (''custom'', u)"
  by (simp_all add: split_once_def Cut_word del: append_Cons)

lemma char_boundary_hex:
  assumes "i \<le> length (EncodeToString b)"
  shows "char_boundary (EncodeToString b) i"
proof -
  have "\<not> in_range 0x80 0xBF (EncodeToString b ! i)" if "i < length (EncodeToString b)"
    using hex_ascii [OF nth_mem [OF that]] by (simp add: in_range_def)
  then show ?thesis using assms by (auto simp: char_boundary_def simp del: hex_length)
qed

lemma hex_pairs: "take 2 (drop (2 * i) (EncodeToString b)) =
    (if i < length b then [hex_digit (of_char (b ! i) div 16), hex_digit (of_char (b ! i) mod 16)] else [])"
proof (induction b arbitrary: i)
  case (Cons c b)
  then show ?case by (cases i) (auto simp: EncodeToString_def)
qed (simp add: EncodeToString_def)

lemma hex_digit_not_plus: "d < 16 \<Longrightarrow> hex_digit d \<noteq> CHR ''+''"
proof -
  have "\<forall>d \<in> set [0..<16]. hex_digit d \<noteq> CHR ''+''" by code_simp
  then show "d < 16 \<Longrightarrow> hex_digit d \<noteq> CHR ''+''" by simp
qed

lemma parse_byte: "parse_unsigned 16 digit16 256 [hex_digit (of_char c div 16), hex_digit (of_char c mod 16)] = Inr (of_char c)"
proof -
  have "of_char c div 16 < (16 :: nat)" by (simp add: less_mult_imp_div_less)
  moreover have "of_char c mod 16 < (16 :: nat)" by simp
  moreover have "(of_char c div 16) * 16 + of_char c mod 16 = (of_char c :: nat)" by simp
  ultimately show ?thesis by (simp add: parse_unsigned_def hex_digit_not_plus)
qed

lemma unhex_from_hex: "i \<le> length b \<Longrightarrow> unhex_from (EncodeToString b) (2 * i) = Ok (drop i b)"
proof (induction "length b - i" arbitrary: i)
  case 0
  then show ?case by (subst unhex_from.simps) simp
next
  case (Suc k)
  then have i: "i < length b" "k = length b - Suc i" by auto
  have "char_boundary (EncodeToString b) (2 * i)" "char_boundary (EncodeToString b) (2 * i + 2)"
    using i by (auto intro!: char_boundary_hex)
  then show ?case using i Suc.hyps(1) [OF i(2)]
    by (subst unhex_from.simps) (simp add: hex_pairs parse_byte map_err_def rust_bind_def Cons_nth_drop_Suc)
qed

lemma unhex_hex: "unhex (EncodeToString b) = Ok b"
  using unhex_from_hex [of 0 b] by (simp add: unhex_def)


lemma parse_dec: "n < 2 ^ 64 \<Longrightarrow> parse_unsigned 10 digit10 (2 ^ 64) (dec n) = Inr n"
proof -
  assume n: "n < 2 ^ 64"
  obtain c s where d: "dec n = c # s" by (cases "dec n") auto
  have "c \<noteq> CHR ''+''"
  proof
    assume "c = CHR ''+''"
    then have "digits_value 10 digit10 0 (dec n) = None" by (simp add: d digit10_def)
    then show False by (simp add: digits_value_dec)
  qed
  then have "parse_unsigned 10 digit10 (2 ^ 64) (c # s) = (case digits_value 10 digit10 0 (c # s) of
      None \<Rightarrow> Inl ''invalid digit found in string''
    | Some n \<Rightarrow> if n \<ge> 2 ^ 64 then Inl ''number too large to fit in target type'' else Inr n)"
    unfolding parse_unsigned_def Let_def by simp
  then show ?thesis using digits_value_dec [of n] n unfolding d by (simp del: digits_value.simps)
qed

lemma digit_char_ascii: "d < 10 \<Longrightarrow> digit_char d \<noteq> space \<and> digit_char d \<noteq> newline \<and> of_char (digit_char d) < (0x80 :: nat)"
proof -
  have "\<forall>d \<in> set [0..<10]. digit_char d \<noteq> space \<and> digit_char d \<noteq> newline \<and> of_char (digit_char d) < (0x80 :: nat)" by code_simp
  then show "d < 10 \<Longrightarrow> digit_char d \<noteq> space \<and> digit_char d \<noteq> newline \<and> of_char (digit_char d) < (0x80 :: nat)" by simp
qed

lemma dec_chars: "c \<in> set (dec n) \<Longrightarrow> c \<noteq> space \<and> c \<noteq> newline"
proof (induction n rule: dec.induct)
  case (1 n)
  show ?case
  proof (cases "n < 10")
    case True
    then show ?thesis using 1(2) digit_char_ascii [of n] by (subst (asm) dec.simps) simp
  next
    case False
    then have "c \<in> set (dec (n div 10)) \<or> c = digit_char (n mod 10)" using 1(2) by (subst (asm) dec.simps) auto
    then show ?thesis using 1(1) [OF False] digit_char_ascii [of "n mod 10"] by auto
  qed
qed

lemma trimmed_dec: "trimmed (dec n)"
proof (rule trimmed_free, rule ballI)
  fix c assume "c \<in> set (dec n)"
  then show "c \<notin> set space_heads"
  proof (induction n rule: dec.induct)
    case (1 n)
    have d: "\<forall>d \<in> set [0..<10]. digit_char d \<notin> set space_heads" by code_simp
    show ?case
    proof (cases "n < 10")
      case True
      then show ?thesis using 1(2) d by (subst (asm) dec.simps) simp
    next
      case False
      then have "c \<in> set (dec (n div 10)) \<or> c = digit_char (n mod 10)" using 1(2) by (subst (asm) dec.simps) auto
      then show ?thesis using 1(1) [OF False] d by auto
    qed
  qed
qed

lemma custom_line:
  assumes "d \<noteq> []"
  shows "line_ok (transport_line (TCustom i d))" and "decode_transport K (transport_line (TCustom i d)) = Ok (TCustom i d)"
proof -
  let ?n = "dec (unat i)"
  have d: "trimmed (EncodeToString d)" "EncodeToString d \<noteq> []" "newline \<notin> set (EncodeToString d)"
    using assms trimmed_hex hex_length [of d] hex_ascii by (auto simp del: hex_length)
  have "\<forall>q \<in> set space_seqs. \<not> suffix q (?n @ space # EncodeToString d)"
    using d suffix_last_part [OF _ _ ascii_seps(2) d(2)] by (auto simp: trimmed_def)
  then have "trimmed (''custom'' @ space # (?n @ space # EncodeToString d))"
    by (intro trimmed_parts) (auto simp: ascii_seps trimmed_word)
  moreover have "newline \<notin> set (transport_line (TCustom i d))" using d(3) dec_chars [of newline "unat i"] by auto
  ultimately show "line_ok (transport_line (TCustom i d))" by (simp add: line_ok_def)
  have "split_once space (?n @ space # EncodeToString d) = Some (?n, EncodeToString d)"
    using dec_chars [of space "unat i"] Cut_append [of space ?n "EncodeToString d"]
    unfolding split_once_def by fastforce
  moreover have "parse_unsigned 10 digit10 (2 ^ 64) ?n = Inr (unat i)" using unsigned_less [of i, where 'a = nat] by (intro parse_dec) simp
  ultimately show "decode_transport K (transport_line (TCustom i d)) = Ok (TCustom i d)"
    using split_once_word(3) [of "?n @ space # EncodeToString d"]
    by (simp add: decode_transport_def map_err_def rust_bind_def unhex_hex)
qed

text \<open>
  The lines of an address of the bindings stand, up to their order, for the given transports.
\<close>

definition stands_for :: "codec \<Rightarrow> 'a netip \<Rightarrow> 'a EndpointAddr \<Rightarrow> transport list \<Rightarrow> bool" where
  "stands_for K N a ts \<longleftrightarrow> (\<exists>us. mset us = mset ts \<and>
     list_all2 (\<lambda>l u. line_ok l \<and> decode_transport K l = Ok u) (addr_lines N a) us)"

lemma stands_for_insert:
  assumes "stands_for K N a ts" and "addr_lines N a = xs @ ys" and "addr_lines N b = xs @ l # ys"
    and "line_ok l" and "decode_transport K l = Ok u"
  shows "stands_for K N b (ts @ [u])"
proof -
  obtain us where us: "mset us = mset ts" "list_all2 (\<lambda>l u. line_ok l \<and> decode_transport K l = Ok u) (xs @ ys) us"
    using assms(1,2) by (auto simp: stands_for_def)
  then obtain us1 us2 where "us = us1 @ us2" "list_all2 (\<lambda>l u. line_ok l \<and> decode_transport K l = Ok u) xs us1"
    "list_all2 (\<lambda>l u. line_ok l \<and> decode_transport K l = Ok u) ys us2"
    by (auto simp: list_all2_append1)
  then show ?thesis using us(1) assms(3-5) unfolding stands_for_def
    by (intro exI [of _ "us1 @ u # us2"]) (auto simp: list_all2_appendI)
qed

lemma decode_transport_line:
  assumes "stands_for K N a ts" and "transport_ok K N t" and "netip_ok N"
  shows "\<exists>b. decode_lines N a (transport_line t # ls) = decode_lines N b ls \<and> ID b = ID a \<and> stands_for K N b (ts @ [t])"
proof (cases t)
  case (TRelay u)
  then have u: "trimmed u" "u \<noteq> []" "newline \<notin> set u" "k_relay_url K u = Inr u" using assms(2) by (simp_all add: transport_ok_def)
  let ?l = "''relay '' @ u"
  have l: "line_ok ?l" using trimmed_line [OF trimmed_word(2) _ u(1,2)] u(3) by (simp add: line_ok_def)
  have d: "decode_transport K ?l = Ok (TRelay u)"
    unfolding decode_transport_def split_once_word by (simp add: u map_err_def rust_bind_def)
  have c: "Cut space (TrimSpace ?l) = (''relay'', u, True)" "TrimSpace ?l \<noteq> []" "TrimSpace ?l = ?l"
    using l Cut_word by (simp_all add: line_okD)
  show ?thesis
  proof (cases "RelayURL a = []")
    case True
    have "decode_lines N a (?l # ls) = decode_lines N (a\<lparr>RelayURL := u\<rparr>) ls"
      using decode_step(2) [OF c(2,1)] True by simp
    moreover have "stands_for K N (a\<lparr>RelayURL := u\<rparr>) (ts @ [TRelay u])"
      by (rule stands_for_insert [OF assms(1) _ _ l d, where xs = "[]"]) (simp_all add: addr_lines_def True u(2))
    ultimately show ?thesis using TRelay by (intro exI [of _ "a\<lparr>RelayURL := u\<rparr>"]) simp
  next
    case False
    let ?b = "a\<lparr>extra := EndpointAddr.extra a @ [?l]\<rparr>"
    have "decode_lines N a (?l # ls) = decode_lines N ?b ls" using decode_step(5) [OF c(2,1)] False c(3) by simp
    moreover have "stands_for K N ?b (ts @ [TRelay u])"
      by (rule stands_for_insert [OF assms(1) _ _ l d, where ys = "[]"]) (simp_all add: addr_lines_def)
    ultimately show ?thesis using TRelay by (intro exI [of _ ?b]) simp
  qed
next
  case (TIp s)
  then obtain ap where s: "trimmed s" "s \<noteq> []" "newline \<notin> set s" "ParseAddrPort N s = Inr ap"
    "k_socket_addr K (AddrPort_String N ap) = Inr s" using assms(2) by (auto simp: transport_ok_def)
  have str: "trimmed (AddrPort_String N ap)" "AddrPort_String N ap \<noteq> []" "newline \<notin> set (AddrPort_String N ap)"
    using assms(3) s(4) by (auto simp: netip_ok_def)
  let ?l = "''ip '' @ s" and ?l' = "''ip '' @ AddrPort_String N ap" and ?b = "a\<lparr>DirectAddrs := DirectAddrs a @ [ap]\<rparr>"
  have l: "line_ok ?l" "line_ok ?l'"
    using trimmed_line [OF trimmed_word(1) _ s(1,2)] trimmed_line [OF trimmed_word(1) _ str(1,2)] s(3) str(3)
    by (simp_all add: line_ok_def)
  have d: "decode_transport K ?l' = Ok (TIp s)"
    unfolding decode_transport_def split_once_word by (simp add: s map_err_def rust_bind_def)
  have c: "Cut space (TrimSpace ?l) = (''ip'', s, True)" "TrimSpace ?l \<noteq> []" using l Cut_word by (simp_all add: line_okD)
  have "decode_lines N a (?l # ls) = decode_lines N ?b ls" using decode_step(3) [OF c(2,1) _ _ s(4)] by simp
  moreover have "stands_for K N ?b (ts @ [TIp s])"
    by (rule stands_for_insert [OF assms(1) _ _ l(2) d, where ys = "EndpointAddr.extra a"]) (simp_all add: addr_lines_def)
  ultimately show ?thesis using TIp by (intro exI [of _ ?b]) simp
next
  case (TCustom i d)
  let ?l = "transport_line t"
  have "d \<noteq> []" using assms(2) TCustom by (simp add: transport_ok_def)
  from custom_line(1) [OF this, of i] custom_line(2) [OF this, of K i] have l: "line_ok ?l" "decode_transport K ?l = Ok t" using TCustom by simp_all
  let ?b = "a\<lparr>extra := EndpointAddr.extra a @ [?l]\<rparr>"
  have "Cut space ?l = (''custom'', dec (unat i) @ space # EncodeToString d, True)"
    using Cut_word(3) [of "dec (unat i) @ space # EncodeToString d"] TCustom by simp
  then have c: "Cut space (TrimSpace ?l) = (''custom'', dec (unat i) @ space # EncodeToString d, True)" "TrimSpace ?l \<noteq> []"
    "TrimSpace ?l = ?l" using line_okD(1,2) [OF l(1)] by simp_all
  have "decode_lines N a (?l # ls) = decode_lines N ?b ls" using decode_step(5) [OF c(2,1), of a N ls] c(3) by simp
  moreover have "stands_for K N ?b (ts @ [t])"
    by (rule stands_for_insert [OF assms(1) _ _ l, where ys = "[]"]) (simp_all add: addr_lines_def)
  ultimately show ?thesis by (intro exI [of _ ?b]) simp
qed

lemma decode_transport_lines:
  assumes "netip_ok N"
  shows "stands_for K N a ts0 \<Longrightarrow> \<forall>t \<in> set ts. transport_ok K N t \<Longrightarrow>
    \<exists>b. decode_lines N a (map transport_line ts) = Inr b \<and> ID b = ID a \<and> stands_for K N b (ts0 @ ts)"
proof (induction ts arbitrary: a ts0)
  case (Cons t ts)
  from Cons.prems(2) have t: "transport_ok K N t" "\<forall>t \<in> set ts. transport_ok K N t" by simp_all
  obtain b where b: "decode_lines N a (transport_line t # map transport_line ts) = decode_lines N b (map transport_line ts)"
    "ID b = ID a" "stands_for K N b (ts0 @ [t])"
    using decode_transport_line [OF Cons.prems(1) t(1) assms] by blast
  from Cons.IH [OF b(3) t(2)] b(1,2) show ?case by simp
qed auto

lemma decode_all:
  "list_all2 (\<lambda>l u. line_ok l \<and> decode_transport K l = Ok u) ls us \<Longrightarrow> decode_transports K ls = Ok us"
  by (induction rule: list_all2_induct) (auto simp: line_okD rust_bind_def Let_def)

lemma transport_line_ok:
  assumes "transport_ok K N t"
  shows "line_ok (transport_line t)"
proof (cases t)
  case (TRelay u)
  then show ?thesis using assms trimmed_line [OF trimmed_word(2), of u] by (simp add: transport_ok_def line_ok_def)
next
  case (TIp s)
  then show ?thesis using assms trimmed_line [OF trimmed_word(1), of s] by (auto simp: transport_ok_def line_ok_def)
next
  case (TCustom i d)
  then show ?thesis using assms custom_line(1) [of d i] by (simp add: transport_ok_def)
qed

lemma library_address_decodes:
  assumes "netip_ok N" and "length (ra_id r) = 32" and "k_id_text K (ra_id r) = EncodeToString (ra_id r)"
    and "k_parse_id K (EncodeToString (ra_id r)) = Inr (ra_id r)" and "\<forall>t \<in> set (ra_addrs r). transport_ok K N t"
  shows "\<exists>a ts. (\<forall>w :: ('n, 'z) lib_scheme. decodeAddr K N None (encode_addr K r) w = (Inr a, w)) \<and> ID a = ra_id r \<and>
    decode_lines N (AddrOf (ra_id r)) (map transport_line (ra_addrs r)) = Inr a \<and>
    decode_addr K (encode N a) = Ok (k_from_parts K (ra_id r) ts) \<and> mset ts = mset (ra_addrs r)"
proof -
  let ?h = "EncodeToString (ra_id r)" and ?ls = "map transport_line (ra_addrs r)"
  have h: "?h \<noteq> []" "newline \<notin> set ?h" "trimmed ?h"
    using assms(2) hex_ascii hex_length [of "ra_id r"] trimmed_hex by (auto simp del: hex_length)
  have lines: "\<forall>l \<in> set ?ls. trimmed l \<and> l \<noteq> [] \<and> newline \<notin> set l"
    using assms(5) transport_line_ok line_okD by (auto simp: line_ok_def)
  have enc: "encode_addr K r = join newline (?h # ?ls)"
    by (simp add: encode_addr_def assms(3) join_concat comp_def del: join.simps)
  have "TrimSpace (encode_addr K r) = encode_addr K r"
    unfolding enc by (intro trimmed_TrimSpace trimmed_join [THEN conjunct1]) (use lines h in auto)
  moreover have "Split newline (encode_addr K r) = ?h # ?ls"
    unfolding enc by (rule Split_join) (use lines h in auto)
  moreover have s0: "stands_for K N (AddrOf (ra_id r)) []" by (simp add: stands_for_def addr_lines_def AddrOf_def)
  from decode_transport_lines [OF assms(1) s0 assms(5)] obtain a where
    a: "decode_lines N (AddrOf (ra_id r)) ?ls = Inr a" "ID a = ra_id r" "stands_for K N a (ra_addrs r)"
    by (auto simp: AddrOf_def)
  ultimately have dec: "decodeAddr K N None (encode_addr K r) w = (Inr a, w)" for w :: "('n, 'z) lib_scheme"
    using h by (simp add: decodeAddr_def parse_id_ok assms(4))
  obtain ts where ts: "mset ts = mset (ra_addrs r)"
    "list_all2 (\<lambda>l u. line_ok l \<and> decode_transport K l = Ok u) (addr_lines N a) ts"
    using a(3) by (auto simp: stands_for_def)
  have ok: "\<forall>l \<in> set (addr_lines N a). line_ok l" using ts(2) by (auto simp: list_all2_conv_all_nth in_set_conv_nth)
  have "rust_lines (encode N a) = ?h # addr_lines N a"
    unfolding encode_join a(2) by (rule rust_lines_join) (use ok h line_okD in \<open>auto simp: line_ok_def\<close>)
  then have "decode_addr K (encode N a) = Ok (k_from_parts K (ra_id r) ts)"
    by (simp add: decode_addr_def h assms(4) map_err_def rust_bind_def decode_all [OF ts(2)])
  with a dec ts(1) show ?thesis by blast
qed

text \<open>
  C22: nothing is lost between the library and the bindings: an address the library hands out, from a
  ticket or from an endpoint, decodes, and what the bindings encode again the library reads as the
  same id with the same transports, the further relays and the custom transports the Go type does
  not model included; only their order may differ.
\<close>

theorem no_transport_lost:
  assumes "netip_ok N" and "length (ra_id r) = 32" and "k_id_text K (ra_id r) = EncodeToString (ra_id r)"
    and "k_parse_id K (EncodeToString (ra_id r)) = Inr (ra_id r)" and "\<forall>t \<in> set (ra_addrs r). transport_ok K N t"
  shows "\<exists>a ts. decodeAddr K N None (encode_addr K r) w = (Inr a, w) \<and>
    decode_addr K (encode N a) = Ok (k_from_parts K (ra_id r) ts) \<and> mset ts = mset (ra_addrs r)"
  using library_address_decodes [OF assms] by metis

text \<open>
  C23: a custom transport without data does not survive the text form: what the library writes for it
  ends in a space, which its own decoder trims away before it looks for the payload, so the library
  rejects the address it has written itself.
\<close>

theorem empty_custom_transport_rejected:
  assumes "length (ra_id r) = 32" and "k_id_text K (ra_id r) = EncodeToString (ra_id r)"
    and "k_parse_id K (EncodeToString (ra_id r)) = Inr (ra_id r)" and "ra_addrs r = [TCustom i []]"
  shows "decode_addr K (encode_addr K r) = Err (rerr InvalidInput ''custom address needs an id and payload'')"
proof -
  obtain i where i: "ra_addrs r = [TCustom i []]" using assms(4) by blast
  let ?h = "EncodeToString (ra_id r)" and ?n = "dec (unat i)"
  let ?l = "''custom'' @ space # ?n"
  have h: "?h \<noteq> []" "newline \<notin> set ?h" "trimmed ?h"
    using assms(1) hex_ascii hex_length [of "ra_id r"] trimmed_hex by (auto simp del: hex_length)
  have l: "trimmed ?l" "newline \<notin> set ?l"
    using trimmed_line [OF trimmed_word(3) _ trimmed_dec dec_nonempty] dec_chars [of newline "unat i"] by auto
  have "encode_addr K r = join newline [?h, ?l @ [space]]"
    by (simp add: encode_addr_def assms(2) i EncodeToString_def)
  moreover have "Split newline (join newline [?h, ?l @ [space]]) = [?h, ?l @ [space]]"
    by (rule Split_join) (use h l in auto)
  ultimately have "rust_lines (encode_addr K r) = [?h, ?l @ [space]]"
    using h not_ends_in_cr [OF h(3,1)] by (simp add: rust_lines_def)
  moreover have "TrimSpace (?l @ [space]) = ?l" using l(1) by (intro TrimSpace_space_end) auto
  moreover have "decode_transport K ?l = Err (rerr InvalidInput ''custom address needs an id and payload'')"
  proof -
    have "split_once space ?n = None" using dec_chars [of space "unat i"] Cut_found [of space ?n]
      by (auto simp: split_once_def split: prod.split)
    then show ?thesis using split_once_word(3) [of ?n] by (simp add: decode_transport_def)
  qed
  ultimately show ?thesis by (simp add: decode_addr_def h assms(3) map_err_def rust_bind_def)
qed

subsection \<open>Examples\<close>

text \<open>Socket addresses as the texts they are written as, any trimmed line with a colon.\<close>

definition colons :: "string netip" where
  "colons = \<lparr>ParseAddrPort = \<lambda>s. if TrimSpace s = s \<and> newline \<notin> set s \<and> CHR '':'' \<in> set s then Inr s else Inl (External ''no port''),
     AddrPort_String = \<lambda>s. s\<rparr>"

lemma colons_ok: "netip_ok colons"
proof -
  have t: "trimmed s" if "TrimSpace s = s" for s
    by (subst that [symmetric]) (rule TrimSpace_trimmed)
  show ?thesis unfolding netip_ok_def colons_def by (auto split: if_splits intro: t)
qed

lemma plain_id_ok: "id_ok plain"
  by (auto simp: id_ok_def plain_def split: option.splits if_splits)

theorem address_round_trip_witness:
  "\<exists>a. decodeAddr plain colons None (replicate 64 (CHR ''a'') @ newline # ''  ip 10.0.0.1:7'' @ newline # ''custom 7 dead'' @
        newline # ''relay https://r./'') (pump_init echo_start) = (Inr a, pump_init echo_start)
     \<and> RelayURL a = ''https://r./'' \<and> decodeAddr plain colons None (encode colons a) (pump_init echo_start) = (Inr a, pump_init echo_start)"
proof -
  define src :: string where "src = replicate 64 (CHR ''a'') @ newline # ''  ip 10.0.0.1:7'' @ newline # ''custom 7 dead'' @
        newline # ''relay https://r./''"
  define a :: "string EndpointAddr" where "a = \<lparr>ID = replicate 32 (CHR 0xAA), RelayURL = ''https://r./'', DirectAddrs = [''10.0.0.1:7''],
    extra = [''custom 7 dead'']\<rparr>"
  have "fst (decodeAddr plain colons None src (pump_init echo_start)) = Inr a" unfolding src_def a_def by code_simp
  then obtain w' where d: "decodeAddr plain colons None src (pump_init echo_start) = (Inr a, w')" by (metis prod.collapse)
  from address_round_trip [OF d colons_ok plain_id_ok] d show ?thesis
    unfolding src_def [symmetric] by (intro exI [of _ a]) (simp add: a_def)
qed

lemma plain_simps [simp]: "k_id_text plain = EncodeToString" "k_relay_url plain = Inr" "k_socket_addr plain = Inr"
  "length i = 32 \<Longrightarrow> k_parse_id plain (EncodeToString i) = Inr i" "k_from_parts plain i ts = \<lparr>ra_id = i, ra_addrs = ts\<rparr>"
  by (simp_all add: plain_def)

theorem no_transport_lost_witness:
  "\<exists>a ts. decodeAddr plain colons None (encode_addr plain \<lparr>ra_id = replicate 32 (CHR ''k''),
      ra_addrs = [TCustom 7 [CHR 0xDE], TRelay ''https://a./'', TIp ''[::1]:9'', TRelay ''https://b./'']\<rparr>) (pump_init echo_start)
       = (Inr a, pump_init echo_start)
     \<and> decode_addr plain (encode colons a) = Ok \<lparr>ra_id = replicate 32 (CHR ''k''), ra_addrs = ts\<rparr>
     \<and> mset ts = {#TCustom 7 [CHR 0xDE], TRelay ''https://a./'', TIp ''[::1]:9'', TRelay ''https://b./''#}"
proof -
  define ts where "ts = [TCustom 7 [CHR 0xDE], TRelay ''https://a./'', TIp ''[::1]:9'', TRelay ''https://b./'']"
  define r where "r = \<lparr>ra_id = replicate 32 (CHR ''k''), ra_addrs = ts\<rparr>"
  have len: "length (ra_id r) = 32" by (simp add: r_def)
  have t: "trimmed ''https://a./''" "trimmed ''https://b./''" "trimmed ''[::1]:9''"
    by (rule trimmed_free, simp add: space_heads_def)+
  then have "\<forall>t \<in> set (ra_addrs r). transport_ok plain colons t"
    by (simp add: r_def ts_def transport_ok_def colons_def)
  from no_transport_lost [OF colons_ok len _ _ this, of "pump_init echo_start"]
  have "\<exists>a us. decodeAddr plain colons None (encode_addr plain r) (pump_init echo_start) = (Inr a, pump_init echo_start) \<and>
    decode_addr plain (encode colons a) = Ok \<lparr>ra_id = ra_id r, ra_addrs = us\<rparr> \<and> mset us = mset ts"
    by (simp add: len) (simp add: r_def)
  then show ?thesis unfolding r_def by (simp add: ts_def)
qed

theorem empty_custom_transport_rejected_witness:
  "decode_addr plain (encode_addr plain \<lparr>ra_id = replicate 32 (CHR ''k''), ra_addrs = [TCustom 7 []]\<rparr>)
     = Err (rerr InvalidInput ''custom address needs an id and payload'')"
  by (rule empty_custom_transport_rejected) simp_all

end
