(* ===== verification/Ticket_Properties.thy ===== *)
theory Ticket_Properties
  imports Address_Properties
begin

text \<open>
  What an address keeps on its way through the library and back: validated, or written as a ticket and read again.
\<close>

subsection \<open>Text that the library accepts as UTF-8\<close>










subsection \<open>Through the library and back\<close>















end
