(* ===== verification/Connection_Properties.thy ===== *)
theory Connection_Properties
  imports Connections Stream_Rules
begin

text \<open>
  What the methods of a connection promise: the report of its paths and its counters reads back as the
  crate gave them, the peer's id is remembered, and closing is final.
\<close>

subsection \<open>Calls on a live connection\<close>

text \<open>The object at \<open>a\<close> holds the handle \<open>h\<close> of a connection the library knows.\<close>

definition connected :: "nat \<Rightarrow> u64 \<Rightarrow> ('n, 'z) world_scheme \<Rightarrow> bool" where
  "connected a h w \<longleftrightarrow> ch (conns w a) = h \<and> h \<noteq> 0 \<and> live w h = Some SConn"

lemma connectedD [simp]:
  assumes "connected a h w"
  shows "handle_get (ch (conns w a)) = Inr h" "get_conn h w = Ok ()"
  using assms by (simp_all add: connected_def handle_get_def get_conn_def get_slot_lookup)

lemma settled_more: "settled w w' \<Longrightarrow> pump.more w' = pump.more w"
  by (auto simp: settled_def)

lemma take_out_ok [simp]: "take_out old (ffi_out (Ok x) w) = ((x, None), w)"
  by (simp add: take_out_def ffi_out_def FFI_OK_def)

lemma take_text_ok:
  assumes "ready (Suc k) w"
  shows "\<exists>w'. take_text (ffi_bytes (Ok b) w) = (Inr b, w') \<and> settled w w'"
  using take_text_rule [OF assms, of "Ok b"] by (simp add: go_outcome_def)

subsection \<open>Paths\<close>

lemma kind_text_plain: "tab \<notin> set (kind_text k)" "newline \<notin> set (kind_text k)"
  by (cases k; simp add: kind_text_def)+

lemma dec_plain: "c \<in> set (dec n) \<Longrightarrow> digit10 c \<noteq> None"
proof (induction n rule: dec.induct)
  case (1 n)
  show ?case
  proof (cases "n < 10")
    case True
    then show ?thesis using 1(2) by (subst (asm) dec.simps) auto
  next
    case False
    then have "c \<in> set (dec (n div 10)) \<or> c = digit_char (n mod 10)" using 1(2) by (subst (asm) dec.simps) auto
    then show ?thesis using 1(1) [OF False] by auto
  qed
qed

lemma dec_no_sep: "tab \<notin> set (dec n)" "newline \<notin> set (dec n)" "dec n = c # s \<Longrightarrow> c \<noteq> CHR ''-'' \<and> c \<noteq> CHR ''+''"
  using dec_plain [of tab n] dec_plain [of newline n] dec_plain [of c n] by (auto simp: digit10_def)

lemma ParseInt_dec:
  assumes "n < 2 ^ 63"
  shows "ParseInt (dec n) = Inr (int n)"
proof -
  obtain c s where d: "dec n = c # s" by (cases "dec n") auto
  show ?thesis using dec_no_sep(3) [OF d] digits_value_dec [of n] assms
    by (simp add: ParseInt_def d Let_def del: digits_value.simps)
qed

definition path_of :: "addr_kind \<times> bool \<times> nat \<times> string \<Rightarrow> path" where
  "path_of p = (case p of (k, sel, micros, remote) \<Rightarrow>
     \<lparr>pa_kind = kind_text k, pa_selected = sel, pa_remote = remote, pa_rtt = int micros * 1000\<rparr>)"

text \<open>A path the text can carry: one line, and a round-trip time that fits a duration.\<close>

fun path_ok :: "addr_kind \<times> bool \<times> nat \<times> string \<Rightarrow> bool" where
  "path_ok (k, sel, micros, remote) \<longleftrightarrow> newline \<notin> set remote \<and> micros * 1000 < 2 ^ 63"

lemma path_line_join: "path_line (k, sel, micros, remote) = join tab [kind_text k, if sel then ''1'' else ''0'', dec micros, remote]"
  by (simp add: path_line_def)

lemma path_line_fields: "SplitN tab pathFields (path_line (k, sel, micros, remote)) =
    [kind_text k, if sel then ''1'' else ''0'', dec micros, remote]"
proof -
  have "SplitN tab (length [kind_text k, if sel then ''1'' else ''0'', dec micros, remote]) (path_line (k, sel, micros, remote)) =
      [kind_text k, if sel then ''1'' else ''0'', dec micros, remote]"
    unfolding path_line_join by (rule SplitN_join) (auto simp: kind_text_plain dec_no_sep)
  then show ?thesis by (simp add: pathFields_def eval_nat_numeral)
qed

lemma path_line_ok:
  assumes "path_ok p"
  shows "newline \<notin> set (path_line p)" "path_line p \<noteq> []"
  using assms by (cases p; auto simp: path_line_def kind_text_plain dec_no_sep)+

lemma parse_path_lines: "\<forall>p \<in> set ps. path_ok p \<Longrightarrow> parse_paths (map path_line ps) = Inr (map path_of ps)"
proof (induction ps)
  case (Cons p ps)
  obtain k sel micros remote where p: "p = (k, sel, micros, remote)" by (cases p) auto
  have m: "micros * 1000 < 2 ^ 63" using Cons.prems p by simp
  then have "ParseInt (dec micros) = Inr (int micros)" by (intro ParseInt_dec) simp
  moreover have "go_int (int micros * 1000) = int micros * 1000"
    using m by (intro go_int_id) auto
  ultimately show ?case using Cons unfolding p list.map parse_paths.simps Let_def path_line_fields
    by (simp add: pathFields_def path_of_def)
qed simp

text \<open>
  C24: the report of a connection's paths loses and mixes up nothing on its way through the text form:
  \<^verbatim>\<open>Paths\<close> returns exactly the open paths the crate lists, in order, with kind, selection, round-trip
  time and remote address, whatever a custom transport puts into its address short of a line break;
  no path at all is an empty list. The call leaves nothing behind in the library.
\<close>

theorem paths_exact:
  assumes "ready (Suc k) w" and "connected a h w" and "\<forall>p \<in> set (q_paths Q h (net w)). path_ok p"
  shows "\<exists>w'. Paths Q a w = (Inr (map path_of (q_paths Q h (net w))), w') \<and> settled w w'"
proof -
  let ?ps = "q_paths Q h (net w)" let ?t = "join newline (map path_line ?ps)"
  obtain w' where w': "ConnPaths Q h w = (Inr ?t, w')" "settled w w'"
    using take_text_ok [OF assms(1), of ?t] assms(2) by (auto simp: ConnPaths_def iroh_conn_paths_def rust_bind_def)
  show ?thesis
  proof (cases "?ps = []")
    case True
    then show ?thesis using w' assms(2) by (simp add: Paths_def)
  next
    case False
    then have "?t \<noteq> []" using assms(3) path_line_ok(2) by (cases ?ps; cases "tl ?ps") auto
    moreover have "Split newline ?t = map path_line ?ps"
      by (rule Split_join) (use False assms(3) path_line_ok(1) in auto)
    ultimately show ?thesis using w' assms(2) parse_path_lines [OF assms(3)] by (simp add: Paths_def)
  qed
qed

text \<open>
  The counters \<^verbatim>\<open>Stats\<close> returns are the crate's, each under its own name: the flat array of six numbers
  that crosses the boundary is read in the order in which it was written.
\<close>

theorem stats_in_order:
  assumes "connected a h w" and "q_stats Q h (net w) = (txd, txb, rxd, rxb, lp, lb)"
  shows "Stats Q a w = (Inr \<lparr>SentDatagrams = txd, SentBytes = txb, ReceivedDatagrams = rxd, ReceivedBytes = rxb,
    LostPackets = lp, LostBytes = lb\<rparr>, w)"
  using assms by (simp add: Stats_def FfiConnStats_def iroh_conn_stats_def rust_bind_def StatsLen_def)

subsection \<open>The peer's id, and closing\<close>

lemma handle_get_zero [simp]: "handle_get 0 = Inl (Sentinel ErrClosed)"
  by (simp add: handle_get_def)

lemma take_conn_simps [simp]: "fst (take_conn a w) = ch (conns w a)" "ch (conns (snd (take_conn a w)) a) = 0"
  "cremote (conns (snd (take_conn a w)) b) = cremote (conns w b)"
  by (simp_all add: take_conn_def handle_take_def)

lemma take_conn_lib [simp]: "reg (snd (take_conn a w)) = reg w" "net (snd (take_conn a w)) = net w"
  "bufs (snd (take_conn a w)) = bufs w"
  by (simp_all add: take_conn_def handle_take_def)

lemma taken_conn: "ch (conns w a) = 0 \<Longrightarrow> take_conn a w = (0, w)"
  by (cases w) (simp add: take_conn_def handle_take_def fun_upd_idem)

lemma conns_of_more: "pump.more w' = pump.more w \<Longrightarrow> conns w' = (conns w :: nat \<Rightarrow> conn)"
  by (cases w, cases w') simp

lemma ConnClose_rule:
  assumes "ready (Suc k) w" and "live w h = Some SConn" and "h \<noteq> 0"
  shows "\<exists>w'. ConnClose Q h code reason w = ((case q_varint Q code of Inr _ \<Rightarrow> None
      | Inl m \<Rightarrow> Some (NewError (kind_code InvalidInput) (''bad close code: '' @ m))), w') \<and>
    pump.more w' = pump.more w \<and> live w' = live w \<and>
    net w' = (case q_varint Q code of Inr c \<Rightarrow> q_close Q h c reason (net w) | Inl _ \<Rightarrow> net w)"
proof (cases "q_varint Q code")
  case (Inr c)
  then show ?thesis using assms
    by (simp add: ConnClose_def iroh_conn_close_def get_conn_def get_slot_lookup rust_bind_def map_err_def)
next
  case (Inl m)
  have g: "get_conn h w = Ok ()" using assms(2,3) by (simp add: get_conn_def get_slot_lookup)
  obtain w' where "take_out () (ffi_out (Err (rerr InvalidInput (''bad close code: '' @ m))) w) =
      (((), Some (NewError (kind_code InvalidInput) (''bad close code: '' @ m))), w')" "settled w w'"
    using take_out_rule [OF assms(1), of "()" "Err (rerr InvalidInput (''bad close code: '' @ m))"]
    by (auto simp: go_outcome_def)
  then show ?thesis using Inl g settled_frame [of w w'] settled_more [of w w']
    by (simp add: ConnClose_def iroh_conn_close_def rust_bind_def map_err_def)
qed

text \<open>
  C25: closing a connection is final and happens once: the peer is told the code and the reason at the
  first close and never again, also when the code was not acceptable and only reported; the library's
  object is freed either way. Afterwards another close succeeds without effect, and the methods
  that ask the connection for something, such as its ALPN, its paths, a datagram, a stream or its end, report
  \<^verbatim>\<open>ErrClosed\<close>.
\<close>

theorem connection_close_is_final:
  assumes "ready (Suc k) w" and "connected a h w" and "CloseWithError Q a code reason w = (e, w')"
  shows "live w' h = None \<and> net w' = (case q_varint Q code of Inr c \<Rightarrow> q_close Q h c reason (net w) | Inl _ \<Rightarrow> net w) \<and>
    (e = None \<longleftrightarrow> (\<exists>c. q_varint Q code = Inr c)) \<and>
    CloseWithError Q a code2 reason2 w' = (None, w') \<and> Conn_Close Q a w' = (None, w') \<and>
    ALPN Q a w' = (Inl (Sentinel ErrClosed), w') \<and> Paths Q a w' = (Inl (Sentinel ErrClosed), w') \<and>
    SendDatagram Q a data w' = (Some (Sentinel ErrClosed), w') \<and> OpenBi I a c w' = Some (Inl (Sentinel ErrClosed), w') \<and>
    Wait I a c w' = Some (Sentinel ErrClosed, w')"
proof -
  let ?w1 = "snd (take_conn a w)"
  have h: "ch (conns w a) = h" "h \<noteq> 0" using assms(2) by (simp_all add: connected_def)
  have w1: "ready (Suc k) ?w1" "live ?w1 h = Some SConn" using assms(1,2) by (simp_all add: ready_def connected_def)
  obtain w2 where c: "ConnClose Q h code reason ?w1 = ((case q_varint Q code of Inr _ \<Rightarrow> None
      | Inl m \<Rightarrow> Some (NewError (kind_code InvalidInput) (''bad close code: '' @ m))), w2)"
    "pump.more w2 = pump.more ?w1" "live w2 = live ?w1"
    "net w2 = (case q_varint Q code of Inr c \<Rightarrow> q_close Q h c reason (net ?w1) | Inl _ \<Rightarrow> net ?w1)"
    using ConnClose_rule [OF w1 h(2)] by blast
  have r: "w' = free_handle h w2" "e = (case q_varint Q code of Inr _ \<Rightarrow> None
      | Inl m \<Rightarrow> Some (NewError (kind_code InvalidInput) (''bad close code: '' @ m)))"
    using assms(3) h c(1) by (auto simp: CloseWithError_def ConnFree_def case_prod_unfold)
  have closed: "ch (conns w' a) = 0" using conns_of_more [OF c(2)] by (simp add: r free_handle_def)
  moreover have "live w' h = None" using h(2) by (simp add: r free_handle_def live_simps)
  moreover have "net w' = (case q_varint Q code of Inr c \<Rightarrow> q_close Q h c reason (net w) | Inl _ \<Rightarrow> net w)"
    using c(4) by (simp add: r free_handle_def split: sum.splits)
  ultimately show ?thesis
    by (auto simp: r CloseWithError_def Conn_Close_def taken_conn ALPN_def Paths_def SendDatagram_def OpenBi_def Wait_def
        split: sum.split)
qed

text \<open>
  The peer's id, once looked up, is remembered: \<^verbatim>\<open>RemoteID\<close> keeps returning it without asking the library
  again, and so it still answers after the connection has been closed, when the library could not.
\<close>

theorem remote_id_remembered:
  assumes "ready (Suc k) w" and "connected a h w" and "RemoteID Q a w = (Inr i, w1)" and "\<not> IsZero i"
    and "CloseWithError Q a code reason w1 = (e, w2)"
  shows "RemoteID Q a w1 = (Inr i, w1) \<and> RemoteID Q a w2 = (Inr i, w2) \<and>
    (IsZero (cremote (conns w a)) \<longrightarrow> i = q_remote_id Q h (net w))"
proof -
  have r: "cremote (conns w1 a) = i \<and> (IsZero (cremote (conns w a)) \<longrightarrow> i = q_remote_id Q h (net w))"
    and w1: "w1 = w \<or> (\<exists>cs. w1 = w\<lparr>conns := cs\<rparr> \<and> ch (cs a) = ch (conns w a))"
    using assms(2,3) by (auto simp: RemoteID_def ConnRemoteID_def iroh_conn_remote_id_def rust_bind_def split: if_splits)
  have "ready (Suc k) w1" "connected a h w1" using assms(1,2) w1 by (auto simp: ready_def connected_def)
  then have g: "ready (Suc k) (snd (take_conn a w1))" "live (snd (take_conn a w1)) h = Some SConn" "ch (conns w1 a) = h" "h \<noteq> 0"
    by (auto simp: ready_def connected_def)
  obtain w3 x where c: "ConnClose Q h code reason (snd (take_conn a w1)) = (x, w3)"
    "pump.more w3 = pump.more (snd (take_conn a w1))"
    using ConnClose_rule [OF g(1,2,4)] by blast
  then have "w2 = free_handle h w3" using assms(5) g by (auto simp: CloseWithError_def ConnFree_def case_prod_unfold)
  then have "cremote (conns w2 a) = cremote (conns w1 a)" using conns_of_more [OF c(2)] by (simp add: free_handle_def)
  then show ?thesis using r assms(4) by (simp add: RemoteID_def)
qed

subsection \<open>Examples\<close>

text \<open>A crate that answers the same always, and a world with a connection at address 0 under handle 1.\<close>

definition answers :: "echo_net queries" where
  "answers = \<lparr>q_send_datagram = \<lambda>h d n. (Inr (), n), q_max_datagram_size = \<lambda>h n. Some 1200, q_remote_id = \<lambda>h n. replicate 32 (CHR ''p''),
     q_alpn = \<lambda>h n. ''echo'', q_stats = \<lambda>h n. (1, 2, 3, 4, 5, 6),
     q_paths = \<lambda>h n. [(KRelay, False, 90000, ''https://r./''), (KCustom, True, 250, ''a'' @ [tab] @ ''b'')],
     q_close = \<lambda>h c r n. ((fst n)(h := r), snd n),
     q_varint = \<lambda>c. if c < 0x4000000000000000 then Inr c else Inl ''value too large'',
     q_endpoint_id = \<lambda>h n. replicate 32 (CHR ''e''),
     q_endpoint_addr = \<lambda>h n. \<lparr>ra_id = replicate 32 (CHR ''e''), ra_addrs = [TIp ''10.0.0.1:7'', TRelay ''https://r./'']\<rparr>,
     q_bound_sockets = \<lambda>h n. [''0.0.0.0:7'', ''[::]:7'']\<rparr>"

definition conn_world :: "echo_net world" where
  "conn_world = (let w = world_with SConn echo_start [] in
     w\<lparr>conns := (conns w)(0 := \<lparr>ch = 1, cendpoint = 0, cmu = Unlocked, cremote = zero_id\<rparr>), next_conn := 1\<rparr>)"

lemma conn_world_ready: "ready (Suc 0) conn_world"
  by (simp add: ready_def conn_world_def world_with_def world_init_def Let_def live_simps) (simp add: word_le_nat_alt)

lemma conn_world_connected: "connected 0 1 conn_world"
  by (simp add: connected_def conn_world_def world_with_def world_init_def Let_def live_simps)

lemma conn_world_net: "net conn_world = echo_start"
  by (simp add: conn_world_def world_with_def world_init_def Let_def)

theorem paths_exact_witness:
  "\<exists>w'. Paths answers 0 conn_world = (Inr [\<lparr>pa_kind = ''relay'', pa_selected = False, pa_remote = ''https://r./'', pa_rtt = 90000000\<rparr>,
      \<lparr>pa_kind = ''custom'', pa_selected = True, pa_remote = ''a'' @ [tab] @ ''b'', pa_rtt = 250000\<rparr>], w') \<and> settled conn_world w'"
  using paths_exact [OF conn_world_ready conn_world_connected, of answers]
  by (simp add: answers_def path_of_def kind_text_def)

theorem stats_in_order_witness:
  "Stats answers 0 conn_world = (Inr \<lparr>SentDatagrams = 1, SentBytes = 2, ReceivedDatagrams = 3, ReceivedBytes = 4,
    LostPackets = 5, LostBytes = 6\<rparr>, conn_world)"
  by (rule stats_in_order [OF conn_world_connected]) (simp add: answers_def)

theorem connection_close_is_final_witness:
  "\<exists>w'. CloseWithError answers 0 7 ''bye'' conn_world = (None, w') \<and> live w' 1 = None \<and> fst (net w') 1 = ''bye''
     \<and> CloseWithError answers 0 8 ''again'' w' = (None, w')"
proof -
  obtain e w' where c: "CloseWithError answers 0 7 ''bye'' conn_world = (e, w')" by (metis prod.collapse)
  from connection_close_is_final [OF conn_world_ready conn_world_connected c] c show ?thesis
    by (intro exI [of _ w']) (simp add: answers_def conn_world_net)
qed

theorem remote_id_remembered_witness:
  "\<exists>w1 e w2. RemoteID answers 0 conn_world = (Inr (replicate 32 (CHR ''p'')), w1) \<and> CloseWithError answers 0 0 [] w1 = (e, w2)
     \<and> RemoteID answers 0 w2 = (Inr (replicate 32 (CHR ''p'')), w2)"
proof -
  define p where "p = replicate 32 (CHR ''p'')"
  have z: "IsZero (cremote (conns conn_world 0))" by (simp add: IsZero_def conn_world_def Let_def)
  then obtain w1 where r: "RemoteID answers 0 conn_world = (Inr p, w1)"
    using conn_world_connected
    by (simp add: RemoteID_def ConnRemoteID_def iroh_conn_remote_id_def rust_bind_def p_def answers_def)
  have p: "\<not> IsZero p" by (simp add: p_def IsZero_def zero_id_def eval_nat_numeral)
  obtain e w2 where c: "CloseWithError answers 0 0 [] w1 = (e, w2)" by (metis prod.collapse)
  from remote_id_remembered [OF conn_world_ready conn_world_connected r p c] c r show ?thesis unfolding p_def by blast
qed

end
