(* ===== verification/Endpoint_Properties.thy ===== *)
theory Endpoint_Properties
  imports Endpoints Connection_Properties Stream_Properties Address_Properties
begin

text \<open>
  What \<^verbatim>\<open>Bind\<close> and the methods of \<^verbatim>\<open>Endpoint\<close> promise: the options reach the builder of the crate as they
  were given, options that cannot be used are refused and leave nothing behind, the reports of sockets
  and remote addresses read back, and closing is final.
\<close>

subsection \<open>Setters\<close>

text \<open>The options object \<open>q\<close> is in the table under \<open>h\<close>.\<close>

definition holds :: "u64 \<Rightarrow> opts \<Rightarrow> ('n, 'z) lib_scheme \<Rightarrow> bool" where
  "holds h q w \<longleftrightarrow> h \<noteq> 0 \<and> live w h = Some (SOptions q)"

lemma get_options_holds: "holds h q w \<Longrightarrow> get_options h w = Ok q"
  by (simp add: holds_def get_options_def get_slot_lookup)

lemma holds_set: "holds h q w \<Longrightarrow> holds h q' (set_options h q' w)"
  by (simp add: holds_def set_options_def live_simps)

lemma set_options_same: "holds h q w \<Longrightarrow> set_options h q w = w"
  by (cases w; cases "reg w") (auto simp: holds_def set_options_def publish_def lookup_def fun_upd_idem)

lemma set_options_twice: "set_options h q' (set_options h q w) = set_options h q' w"
  by (cases w; cases "reg w") (simp add: set_options_def publish_def)

lemma ready_set: "ready k w \<Longrightarrow> holds h q w \<Longrightarrow> ready k (set_options h q' w)"
  by (auto simp: ready_def holds_def set_options_def live_simps)

text \<open>
  A statement that changes the options object at \<open>h\<close> by \<open>F\<close> and succeeds if \<open>okay\<close> holds, and otherwise
  ends in an error, the library being as it was but for this object.
\<close>

definition setter :: "u64 \<Rightarrow> (opts \<Rightarrow> opts) \<Rightarrow> bool \<Rightarrow>
    (('n, 'z) lib_scheme \<Rightarrow> go_error option \<times> ('n, 'z) lib_scheme) \<Rightarrow> bool" where
  "setter h F okay S \<longleftrightarrow> (\<forall>k w q. ready (Suc k) w \<longrightarrow> holds h q w \<longrightarrow>
     (if okay then S w = (None, set_options h (F q) w)
      else \<exists>e q' w'. S w = (Some e, w') \<and> settled (set_options h q' w) w'))"

lemma setterD:
  assumes "setter h F okay S" and "ready (Suc k) w" and "holds h q w"
  shows "okay \<Longrightarrow> S w = (None, set_options h (F q) w)"
    "\<not> okay \<Longrightarrow> \<exists>e q' w'. S w = (Some e, w') \<and> settled (set_options h q' w) w'"
proof -
  have "if okay then S w = (None, set_options h (F q) w)
      else \<exists>e q' w'. S w = (Some e, w') \<and> settled (set_options h q' w) w'"
    using assms unfolding setter_def by blast
  then show "okay \<Longrightarrow> S w = (None, set_options h (F q) w)"
    "\<not> okay \<Longrightarrow> \<exists>e q' w'. S w = (Some e, w') \<and> settled (set_options h q' w) w'" by simp_all
qed

lemma setter_skip [intro]: "setter h (\<lambda>q. q) True (\<lambda>w. (None, w))"
  by (auto simp: setter_def set_options_same)

lemma setter_refuse [intro]: "setter h F False (\<lambda>w. (Some e, w))"
  unfolding setter_def by simp (metis set_options_same settled_refl)

lemma setter_then [intro]:
  fixes S T :: "('n, 'z) lib_scheme \<Rightarrow> go_error option \<times> ('n, 'z) lib_scheme"
  assumes S: "setter h F a S" and T: "setter h G b T"
  shows "setter h (\<lambda>q. G (F q)) (a \<and> b) (\<lambda>w. and_then (S w) T)"
  unfolding setter_def
proof (intro allI impI)
  fix k q and w :: "('n, 'z) lib_scheme"
  assume r: "ready (Suc k) w" "holds h q w"
  note s = setterD [OF S r] and t = setterD [OF T ready_set [OF r] holds_set [OF r(2)]]
  show "if a \<and> b then and_then (S w) T = (None, set_options h (G (F q)) w)
      else \<exists>e q' w'. and_then (S w) T = (Some e, w') \<and> settled (set_options h q' w) w'"
  proof (cases a)
    case True
    then show ?thesis using s(1) t [of "F q"] by (auto simp: and_then_def set_options_twice)
  next
    case False
    then show ?thesis using s(2) by (auto simp: and_then_def)
  qed
qed

lemma setter_each:
  fixes f :: "'x \<Rightarrow> ('n, 'z) lib_scheme \<Rightarrow> go_error option \<times> ('n, 'z) lib_scheme"
  assumes "\<And>x. setter h (F x) (okay x) (f x)"
  shows "setter h (fold F xs) (\<forall>x \<in> set xs. okay x) (each f xs)"
proof (induction xs)
  case Nil
  have "each f [] = (\<lambda>w. (None, w))" by (simp add: fun_eq_iff)
  moreover have "fold F [] = (\<lambda>q. q)" by (simp add: fun_eq_iff)
  ultimately show ?case using setter_skip by simp
next
  case (Cons x xs)
  have "each f (x # xs) = (\<lambda>w. and_then (f x w) (each f xs))" by (simp add: fun_eq_iff and_then_def)
  moreover have "fold F (x # xs) = (\<lambda>q. fold F xs (F x q))" by (simp add: fun_eq_iff)
  ultimately show ?case using setter_then [OF assms [of x] Cons.IH] by simp
qed

text \<open>Every call on the options object is a setter: it takes effect if its argument is accepted.\<close>

lemma setter_call:
  "setter h (f (case arg of Some (Inr x) \<Rightarrow> x)) (\<exists>x. arg = Ok x) (\<lambda>w. take_unit (options_call h arg f w))"
  unfolding setter_def
proof (intro allI impI)
  fix k w q assume r: "ready (Suc k) w" "holds h q w"
  note out = take_out_rule [OF r(1), of "()"]
  show "if \<exists>x. arg = Ok x then take_unit (options_call h arg f w) = (None, set_options h (f (case arg of Some (Inr x) \<Rightarrow> x) q) w)
    else \<exists>e q' w'. take_unit (options_call h arg f w) = (Some e, w') \<and> settled (set_options h q' w) w'"
  proof (cases "\<exists>x. arg = Ok x")
    case True
    then show ?thesis by (auto simp: take_unit_def options_call_def rust_bind_def get_options_holds [OF r(2)])
  next
    case False
    then obtain a :: "unit rust" where a: "options_call h arg f w = ffi_out a w" "\<forall>x. a \<noteq> Ok x"
    proof (cases arg)
      case None
      then show thesis using that [of None] by (simp add: options_call_def rust_bind_def)
    next
      case (Some x)
      then obtain e where "x = Inl e" using False by (cases x) auto
      then show thesis using that [of "Err e"] Some by (simp add: options_call_def rust_bind_def)
    qed
    obtain w' where "take_out () (ffi_out a w) = (((), Some (case go_outcome a of Inl e \<Rightarrow> e)), w')" "settled w w'"
      using out [of a] a(2) by (auto split: option.splits sum.splits)
    then show ?thesis using False a(1) set_options_same [OF r(2)]
      by (auto simp: take_unit_def intro!: exI [of _ q])
  qed
qed

subsection \<open>What the options mean\<close>

text \<open>A url and an address are options if the library reads them.\<close>

definition url_ok :: "codec \<Rightarrow> string \<Rightarrow> bool" where
  "url_ok K u \<longleftrightarrow> utf8_ok u \<and> (case k_relay_url K u of Inr _ \<Rightarrow> True | Inl _ \<Rightarrow> False)"

definition socket_ok :: "codec \<Rightarrow> string \<Rightarrow> bool" where
  "socket_ok K s \<longleftrightarrow> utf8_ok s \<and> (case k_socket_addr K s of Inr _ \<Rightarrow> True | Inl _ \<Rightarrow> False)"

definition the_url :: "codec \<Rightarrow> string \<Rightarrow> string" where
  "the_url K u = (case k_relay_url K u of Inr v \<Rightarrow> v | Inl _ \<Rightarrow> u)"

definition the_socket :: "codec \<Rightarrow> string \<Rightarrow> string" where
  "the_socket K s = (case k_socket_addr K s of Inr v \<Rightarrow> v | Inl _ \<Rightarrow> s)"

definition valid_options :: "codec \<Rightarrow> 'a netip \<Rightarrow> 'a Options \<Rightarrow> bool" where
  "valid_options K N p \<longleftrightarrow> (case SecretKey p of None \<Rightarrow> True | Some k \<Rightarrow> length k = 32) \<and> [] \<notin> set (ALPNs p) \<and>
     (RelayMode p \<noteq> RelayFromPreset \<longrightarrow> RelayMode p \<in> {RelayDefault, RelayDisabled, RelayStaging, RelayCustom} \<and>
        (\<forall>u \<in> set (RelayURLs p). url_ok K u)) \<and>
     (\<forall>a \<in> set (BindAddrs p). socket_ok K (AddrPort_String N a))"

definition known_preset :: "int \<Rightarrow> bool" where
  "known_preset p \<longleftrightarrow> p \<in> {PresetN0, PresetN0NoRelay, PresetMinimal, PresetEmpty}"

text \<open>The builder the options stand for, as the documentation of \<^verbatim>\<open>Options\<close> and \<^verbatim>\<open>Preset\<close> describes them.\<close>

definition builder_of :: "'n iroh \<Rightarrow> codec \<Rightarrow> 'a netip \<Rightarrow> 'a Options \<Rightarrow> rust_error + builder" where
  "builder_of I K N p = bind_addrs I \<lparr>
     b_preset = (if Preset p = PresetN0 then N0 else if Preset p = PresetN0NoRelay then N0DisableRelay
       else if Preset p = PresetMinimal then Minimal else BuilderEmpty),
     b_secret_key = SecretKey p,
     b_alpns = (if ALPNs p = [] then None else Some (ALPNs p)),
     b_relay_mode = (if RelayMode p = RelayFromPreset then None
       else Some (if RelayMode p = RelayDefault then RelayModeDefault
         else if RelayMode p = RelayDisabled then RelayModeDisabled
         else if RelayMode p = RelayStaging then RelayModeStaging
         else RelayModeCustom (map (the_url K) (RelayURLs p)))),
     b_clear_ip = (BindAddrs p \<noteq> []), b_bind_addrs = []\<rparr> (map (the_socket K \<circ> AddrPort_String N) (BindAddrs p))"

text \<open>What the calls of \<^verbatim>\<open>applyOptions\<close> together make of the options object.\<close>

definition configure :: "codec \<Rightarrow> 'a netip \<Rightarrow> 'a Options \<Rightarrow> opts \<Rightarrow> opts" where
  "configure K N p q = q\<lparr>o_secret_key := (case SecretKey p of None \<Rightarrow> o_secret_key q | Some k \<Rightarrow> Some k),
     o_alpns := o_alpns q @ ALPNs p,
     o_relay_mode := (if RelayMode p = RelayFromPreset then o_relay_mode q
       else Some (case relay_mode_ffi (RelayMode p) of Inr m \<Rightarrow> m)),
     o_relay_urls := o_relay_urls q @ (if RelayMode p = RelayFromPreset then [] else map (the_url K) (RelayURLs p)),
     o_bind_addrs := o_bind_addrs q @ map (the_socket K \<circ> AddrPort_String N) (BindAddrs p)\<rparr>"

lemma setter_weaken: "setter h F a S \<Longrightarrow> a = b \<Longrightarrow> (b \<Longrightarrow> F = G) \<Longrightarrow> setter h G b S"
  by (cases b) (auto simp: setter_def)

lemma setter_key: "setter h (\<lambda>q. q\<lparr>o_secret_key := Some k\<rparr>) (length k = 32) (OptionsSetSecretKey h k)"
  unfolding OptionsSetSecretKey_def iroh_options_set_secret_key_def
  by (rule setter_weaken [OF setter_call]) (auto simp: secret_key_def)

lemma setter_alpn: "setter h (\<lambda>q. q\<lparr>o_alpns := o_alpns q @ [p]\<rparr>) (p \<noteq> []) (OptionsAddALPN h p)"
  unfolding OptionsAddALPN_def iroh_options_add_alpn_def
  by (rule setter_weaken [OF setter_call]) auto

lemma setter_mode: "setter h (\<lambda>q. q\<lparr>o_relay_mode := Some m\<rparr>) True (OptionsSetRelayMode h m)"
  unfolding OptionsSetRelayMode_def iroh_options_set_relay_mode_def
  by (rule setter_weaken [OF setter_call]) auto

lemma setter_url: "setter h (\<lambda>q. q\<lparr>o_relay_urls := o_relay_urls q @ [the_url K u]\<rparr>) (url_ok K u) (OptionsAddRelayURL K h u)"
  unfolding OptionsAddRelayURL_def iroh_options_add_relay_url_def
  by (rule setter_weaken [OF setter_call])
    (auto simp: url_ok_def the_url_def str_arg_def rust_bind_def map_err_def split: sum.splits)

lemma setter_socket:
  "setter h (\<lambda>q. q\<lparr>o_bind_addrs := o_bind_addrs q @ [the_socket K s]\<rparr>) (socket_ok K s) (OptionsAddBindAddr K h s)"
  unfolding OptionsAddBindAddr_def iroh_options_add_bind_addr_def
  by (rule setter_weaken [OF setter_call])
    (auto simp: socket_ok_def the_socket_def str_arg_def rust_bind_def map_err_def split: sum.splits)

lemma fold_alpns: "fold (\<lambda>p q. q\<lparr>o_alpns := o_alpns q @ [p]\<rparr>) ps q = q\<lparr>o_alpns := o_alpns q @ ps\<rparr>"
  by (induction ps arbitrary: q) simp_all

lemma fold_urls: "fold (\<lambda>u q. q\<lparr>o_relay_urls := o_relay_urls q @ [f u]\<rparr>) us q = q\<lparr>o_relay_urls := o_relay_urls q @ map f us\<rparr>"
  by (induction us arbitrary: q) simp_all

lemma fold_sockets: "fold (\<lambda>a q. q\<lparr>o_bind_addrs := o_bind_addrs q @ [f a]\<rparr>) as q = q\<lparr>o_bind_addrs := o_bind_addrs q @ map f as\<rparr>"
  by (induction as arbitrary: q) simp_all

lemma setter_relay:
  assumes "RelayMode p \<noteq> RelayFromPreset"
  shows "setter h (\<lambda>q. q\<lparr>o_relay_urls := o_relay_urls q @ map (the_url K) (RelayURLs p),
      o_relay_mode := Some (case relay_mode_ffi (RelayMode p) of Inr m \<Rightarrow> m)\<rparr>)
    (RelayMode p \<in> {RelayDefault, RelayDisabled, RelayStaging, RelayCustom} \<and> (\<forall>u \<in> set (RelayURLs p). url_ok K u))
    (\<lambda>w. case relay_mode_ffi (RelayMode p) of Inl e \<Rightarrow> (Some e, w)
       | Inr mode \<Rightarrow> and_then (each (OptionsAddRelayURL K h) (RelayURLs p) w) (OptionsSetRelayMode h mode))"
proof (cases "relay_mode_ffi (RelayMode p)")
  case (Inl e)
  then have "RelayMode p \<notin> {RelayDefault, RelayDisabled, RelayStaging, RelayCustom}"
    by (auto simp: relay_mode_ffi_def split: if_splits)
  then show ?thesis using Inl setter_refuse by (auto intro: setter_weaken)
next
  case (Inr m)
  then have "RelayMode p \<in> {RelayDefault, RelayDisabled, RelayStaging, RelayCustom}"
    by (auto simp: relay_mode_ffi_def split: if_splits)
  then show ?thesis unfolding Inr sum.case
    by (intro setter_weaken [OF setter_then [OF setter_each [where f = "OptionsAddRelayURL K h", OF setter_url] setter_mode]])
      (auto simp: fold_urls)
qed

lemma setter_applyOptions: "setter h (configure K N p) (valid_options K N p) (applyOptions K N h p)"
proof -
  let ?key = "\<lambda>w :: ('n, 'z) lib_scheme. case SecretKey p of None \<Rightarrow> (None, w) | Some k \<Rightarrow> OptionsSetSecretKey h k w"
  have 1: "setter h (\<lambda>q. q\<lparr>o_secret_key := (case SecretKey p of None \<Rightarrow> o_secret_key q | Some k \<Rightarrow> Some k)\<rparr>)
      (case SecretKey p of None \<Rightarrow> True | Some k \<Rightarrow> length k = 32) ?key"
    using setter_skip setter_key by (cases "SecretKey p") auto
  let ?relay = "\<lambda>w :: ('n, 'z) lib_scheme. if RelayMode p \<noteq> RelayFromPreset then
          case relay_mode_ffi (RelayMode p) of
            Inl e \<Rightarrow> (Some e, w)
          | Inr mode \<Rightarrow> and_then (each (OptionsAddRelayURL K h) (RelayURLs p) w) (OptionsSetRelayMode h mode)
        else (None, w)"
  let ?R = "\<lambda>q. q\<lparr>o_relay_urls := o_relay_urls q @ (if RelayMode p = RelayFromPreset then [] else map (the_url K) (RelayURLs p)),
      o_relay_mode := (if RelayMode p = RelayFromPreset then o_relay_mode q
        else Some (case relay_mode_ffi (RelayMode p) of Inr m \<Rightarrow> m))\<rparr>"
  have 2: "setter h ?R (RelayMode p \<noteq> RelayFromPreset \<longrightarrow> RelayMode p \<in> {RelayDefault, RelayDisabled, RelayStaging, RelayCustom} \<and>
      (\<forall>u \<in> set (RelayURLs p). url_ok K u)) ?relay"
    using setter_skip setter_relay [of p h K] by (cases "RelayMode p = RelayFromPreset") auto
  have 3: "setter h (fold (\<lambda>a q. q\<lparr>o_bind_addrs := o_bind_addrs q @ [the_socket K (AddrPort_String N a)]\<rparr>) (BindAddrs p))
      (\<forall>a \<in> set (BindAddrs p). socket_ok K (AddrPort_String N a))
      (each (\<lambda>a. OptionsAddBindAddr K h (AddrPort_String N a)) (BindAddrs p))"
    by (rule setter_each) (rule setter_socket)
  note alpns = setter_each [where f = "OptionsAddALPN h" and xs = "ALPNs p", OF setter_alpn]
  note all = setter_then [OF 1 setter_then [OF alpns setter_then [OF 2 3]]]
  show ?thesis
    unfolding applyOptions_def
    by (rule setter_weaken [OF all])
      (auto simp: valid_options_def configure_def fold_alpns fold_sockets comp_def fun_eq_iff)
qed

subsection \<open>Binding\<close>

lemma into_builder_configure:
  assumes "known_preset (Preset p)" and "valid_options K N p" and "Preset_ffi (Preset p) = Inr i"
  shows "into_builder I (configure K N p \<lparr>o_preset = i, o_secret_key = None, o_alpns = [], o_relay_mode = None,
    o_relay_urls = [], o_bind_addrs = []\<rparr>) = builder_of I K N p"
proof -
  have 1: "builder_preset i = Inr (if Preset p = PresetN0 then N0 else if Preset p = PresetN0NoRelay then N0DisableRelay
       else if Preset p = PresetMinimal then Minimal else BuilderEmpty)"
    using assms(1,3) by (auto simp: known_preset_def Preset_ffi_def builder_preset_def split: if_splits)
  have 2: "builder_relay_mode (case relay_mode_ffi (RelayMode p) of Inr m \<Rightarrow> m) us =
      Inr (if RelayMode p = RelayDefault then RelayModeDefault else if RelayMode p = RelayDisabled then RelayModeDisabled
         else if RelayMode p = RelayStaging then RelayModeStaging else RelayModeCustom us)"
    if "RelayMode p \<noteq> RelayFromPreset" for us
    using assms(2) that by (auto simp: valid_options_def relay_mode_ffi_def builder_relay_mode_def RelayDefault_def
        RelayDisabled_def RelayStaging_def RelayCustom_def)
  show ?thesis
    by (cases "RelayMode p = RelayFromPreset"; cases "BindAddrs p = []")
      (simp_all add: into_builder_def configure_def builder_of_def 1 2 Let_def split: option.split)
qed

lemma known_preset_ffi: "known_preset p \<longleftrightarrow> (\<exists>i. Preset_ffi p = Inr i)"
  by (simp add: known_preset_def Preset_ffi_def)

text \<open>The options object is new; then its handle is the only thing that changed.\<close>

lemma options_new_holds:
  fixes w :: "('n, 'z) lib_scheme"
  assumes "ready (Suc k) w" and "iroh_options_new i w = (h, w1)"
  shows "h = next_id (reg w)" "holds h \<lparr>o_preset = i, o_secret_key = None, o_alpns = [], o_relay_mode = None,
      o_relay_urls = [], o_bind_addrs = []\<rparr> w1" "ready k w1"
    "\<exists>rg. w1 = w\<lparr>reg := rg\<rparr> \<and> lookup rg = (live w)(h \<mapsto> SOptions \<lparr>o_preset = i, o_secret_key = None, o_alpns = [],
      o_relay_mode = None, o_relay_urls = [], o_bind_addrs = []\<rparr>) \<and> next_id rg = next_id (reg w) + 1"
proof -
  note r = assms(1) [unfolded ready_def]
  have n: "unat (next_id (reg w)) + 1 < 2 ^ 64" using r by simp
  note u = unat_Suc_word [OF n] word_less_succ(1) [OF n]
  show h: "h = next_id (reg w)" using assms(2) by (simp add: iroh_options_new_def live_simps)
  show ex: "\<exists>rg. w1 = w\<lparr>reg := rg\<rparr> \<and> lookup rg = (live w)(h \<mapsto> SOptions \<lparr>o_preset = i, o_secret_key = None, o_alpns = [],
      o_relay_mode = None, o_relay_urls = [], o_bind_addrs = []\<rparr>) \<and> next_id rg = next_id (reg w) + 1"
    using assms(2) by (auto simp: iroh_options_new_def live_simps)
  then show "holds h \<lparr>o_preset = i, o_secret_key = None, o_alpns = [], o_relay_mode = None,
      o_relay_urls = [], o_bind_addrs = []\<rparr> w1"
    using r by (auto simp: holds_def h)
  have "live w x = None" "x \<noteq> next_id (reg w)" if "next_id (reg w) + 1 \<le> x" for x
    using r that u(2) by (meson less_imp_le order_trans, auto)
  moreover have "0 < next_id (reg w) + 1" using r u(2) by (meson order.strict_trans)
  ultimately show "ready k w1" using ex r u(1) by (auto simp: ready_def h)
qed

text \<open>
  C29: options that cannot be used are refused as a whole: when the preset or the relay mode is none of the
  known ones, the secret key, an ALPN, a relay url or a bind address is not acceptable, or the library did
  not load, \<^verbatim>\<open>Bind\<close> returns an error, starts nothing, and leaves no options object and no error object behind.
\<close>

theorem bind_refuses_bad_options:
  assumes "ready (Suc (Suc k)) w" and "\<not> (ld = None \<and> known_preset (Preset p) \<and> valid_options K N p)"
  shows "\<exists>e w'. Bind I Q K N ld c p w = Some (Inl e, w') \<and> live w' = live w \<and> net w' = net w \<and> tasks w' = tasks w \<and>
    queue w' = queue w \<and> bufs w' = bufs w"
proof (cases "Preset_ffi (Preset p)")
  case (Inl e)
  then show ?thesis by (simp add: Bind_def)
next
  case (Inr i)
  then have kp: "known_preset (Preset p)" using known_preset_ffi by blast
  show ?thesis
  proof (cases ld)
    case (Some e)
    then show ?thesis using Inr by (simp add: Bind_def OptionsNew_def)
  next
    case None
    obtain h w1 where new: "iroh_options_new i w = (h, w1)" by fastforce
    note n = options_new_holds [OF assms(1) new]
    obtain rg where w1: "w1 = w\<lparr>reg := rg\<rparr>" "lookup rg = (live w)(h \<mapsto> SOptions \<lparr>o_preset = i, o_secret_key = None,
      o_alpns = [], o_relay_mode = None, o_relay_urls = [], o_bind_addrs = []\<rparr>)" using n(4) by blast
    have "\<not> valid_options K N p" using assms(2) None kp by simp
    then obtain e q' w' where a: "applyOptions K N h p w1 = (Some e, w')" "settled (set_options h q' w1) w'"
      using setterD(2) [OF setter_applyOptions n(3,2)] by blast
    have "live w' = (live w)(h \<mapsto> SOptions q')" "net w' = net w" "tasks w' = tasks w" "queue w' = queue w" "bufs w' = bufs w"
      using settled_frame [OF a(2)] by (simp_all add: set_options_def live_simps w1)
    moreover have "live w h = None" "h \<noteq> 0" using assms(1) n(1,2) by (auto simp: ready_def holds_def)
    ultimately show ?thesis using Inr None new a(1)
      by (auto simp: Bind_def OptionsNew_def OptionsFree_def free_handle_def live_simps fun_upd_idem)
  qed
qed

lemma world_ok_registry:
  assumes "world_ok (Suc k) w" and "lookup rg = live w" and "next_id rg = next_id (reg w) + 1"
  shows "world_ok k (w\<lparr>reg := rg\<rparr>)"
proof -
  have r: "unat (next_id (reg w)) + 1 < 2 ^ 64" using assms(1) by (simp add: world_ok_def room_def)
  note inv = pump_okD [of w]
  have same: "upstream (w\<lparr>reg := rg\<rparr>) = upstream w" "downstream (w\<lparr>reg := rg\<rparr>) = downstream w"
    "under_way (w\<lparr>reg := rg\<rparr>) = under_way w" "carries (w\<lparr>reg := rg\<rparr>) = carries w"
    by (simp_all add: fun_eq_iff upstream_def downstream_def sending_def under_way_def carries_def split: option.split awaiter.split)
  have "pump_inv (w\<lparr>reg := rg\<rparr>)" using assms(1) inv(1) by (simp add: world_ok_def pump_inv_def same)
  moreover have "lib_inv (w\<lparr>reg := rg\<rparr>)"
    by (rule lib_inv_release [where w = w and R = "{}"])
      (use assms inv(2) word_less_succ(1) [OF r] in \<open>auto simp: same world_ok_def\<close>)
  ultimately show ?thesis
    using assms(1,3) unat_Suc_word [OF r] by (simp add: world_ok_def pump_ok_def room_def)
qed

text \<open>A body whose result says only what it was, whatever the others do meanwhile.\<close>

definition ran :: "'n iroh \<Rightarrow> future \<Rightarrow> rust_error + op_value \<Rightarrow> 'n \<Rightarrow> bool" where
  "ran I f r n \<longleftrightarrow> (\<forall>v. r = Inr v \<longrightarrow> (\<exists>(w :: 'n world) w'. run_body I f w = (r, w')))"

interpretation ran: operation I f "\<lambda>_. True" "ran I f" "\<lambda>_. True" for I :: "'n iroh" and f
  by unfold_locales (auto simp: ran_def)

interpretation failed: operation I f "\<lambda>_. False" "\<lambda>r _. \<exists>e. r = Inl e" "\<lambda>_. True" for I :: "'n iroh" and f
  by unfold_locales auto

lemma spawn_not_ready: "spawn f w \<noteq> spawn_ready r w"
proof
  assume "spawn f w = spawn_ready r w"
  then have "queue (snd (spawn f w)) = queue (snd (spawn_ready r w))" by simp
  then show False
    by (simp add: spawn_def spawn_ready_def reserve_def post_def live_simps)
qed

text \<open>A call that returns a handle has started its body, and the body ran and yielded this handle.\<close>

lemma handle_ran:
  fixes w :: "'n world"
  assumes aw: "await_collect iroh_op_result_handle I c (fst s) (snd (begin_op s)) = Some (Inr k, w1)"
    and ok: "world_ok 2 w" "quiet (\<lambda>_. True) w"
    and s: "s = spawn f w \<or> (\<exists>e. s = spawn_ready (Inl e) w)" and y: "\<forall>v. yields f v \<longrightarrow> is_handle v"
  shows "s = spawn f w \<and> (\<exists>(u :: 'n world) u'. run_body I f u = (Inr (Handle k), u'))"
proof -
  note ok' = ok(1) [unfolded numeral_2_eq_2] ok(2)
  have sp: "s = spawn f w"
  proof (rule ccontr)
    assume "s \<noteq> spawn f w"
    then have "(s = spawn f w \<and> False) \<or> (\<exists>e. s = spawn_ready (Inl e) w \<and> (\<exists>x. Inl e = (Inl x :: rust_error + op_value)))"
      using s by blast
    note st = failed.begin_waiting [OF this ok']
    have "\<forall>v n. (\<exists>e. Inr v = (Inl e :: rust_error + op_value)) \<longrightarrow> is_handle v" by simp
    from failed.await_collect_rule(2) [OF aw st(1,2) result_handle_typed this] show False by simp
  qed
  note st = ran.start_waiting [OF s ok' TrueI]
  have t: "\<forall>v n. ran I f (Inr v) n \<longrightarrow> is_handle v"
    using typed.own [OF TrueI] y unfolding ran_def typed_result_def by fastforce
  obtain v where "k = the_handle v" "ran I f (Inr v) (net w1)"
    using ran.await_collect_rule(2) [OF aw st(1,2) result_handle_typed t] by auto
  moreover from this(2) have "is_handle v" using t by blast
  ultimately have "ran I f (Inr (Handle k)) (net w1)" by (cases v) auto
  then show ?thesis using sp unfolding ran_def by blast
qed

lemma ready_world: "world_ok k w \<Longrightarrow> quiet okay w \<Longrightarrow> ready k w"
  using lib_invD(1,5) [OF pump_okD(2) [of w]]
  by (fastforce simp: world_ok_def quiet_def clean_def ready_def room_def not_less [symmetric])

lemma ran_bind:
  fixes I :: "'n iroh"
  assumes "ran I (FBind q) (Inr v) n"
  shows "\<exists>b h m m'. into_builder I q = Inr b \<and> v = Handle h \<and> i_bind I b h m = (Inr (), m')"
proof -
  obtain w w' :: "'n world" where r: "run_body I (FBind q) w = (Inr v, w')" using assms unfolding ran_def by blast
  then obtain b where b: "into_builder I q = Inr b" by (auto split: sum.splits)
  obtain u n' where i: "i_bind I b (next_id (reg w)) (net w) = (u, n')" by fastforce
  then have "u = Inr ()" "v = Handle (next_id (reg w))"
    using r b by (auto simp: yield_handle_def live_simps split: sum.splits)
  then show ?thesis using b i by blast
qed

text \<open>
  C28: the options given to \<^verbatim>\<open>Bind\<close> are the options the endpoint is bound with: an endpoint is returned only
  for a builder of the crate that has exactly the preset, the secret key, the ALPNs, the relay mode with its urls
  and the bind addresses asked for, each in order; the preset and mode numbers of the two sides, which differ,
  are matched up. The endpoint is live and its id is the one the library reports.
\<close>

theorem bind_uses_options:
  fixes w :: "'n world"
  assumes ok: "world_ok 4 w" and quiet: "quiet (\<lambda>_. True) w"
    and valid: "known_preset (Preset p)" "valid_options K N p"
    and run: "Bind I Q K N None c p w = Some (Inr ep, w')"
  shows "\<exists>b h n n'. builder_of I K N p = Inr b \<and> i_bind I b h n = (Inr (), n') \<and> eh (endpoints w' ep) = h \<and>
    live w' h = Some SEndpoint \<and> eid (endpoints w' ep) = q_endpoint_id Q h (net w')"
proof -
  obtain i where i: "Preset_ffi (Preset p) = Inr i" using valid(1) known_preset_ffi by blast
  obtain h w1 where new: "iroh_options_new i w = (h, w1)" by fastforce
  have ready: "ready (Suc (Suc 2)) w" using ready_world [OF ok quiet] by simp
  note n = options_new_holds [OF ready new]
  let ?q = "configure K N p \<lparr>o_preset = i, o_secret_key = None, o_alpns = [], o_relay_mode = None,
      o_relay_urls = [], o_bind_addrs = []\<rparr>"
  let ?w2 = "set_options h ?q w1"
  have a: "applyOptions K N h p w1 = (None, ?w2)" using setterD(1) [OF setter_applyOptions n(3,2) valid(2)] .
  have g: "get_slot as_options h (reg ?w2) = Inr ?q" using holds_set [OF n(2)] by (simp add: holds_def get_slot_lookup)
  let ?w3 = "?w2\<lparr>reg := snd (remove h (reg ?w2))\<rparr>"
  have b: "iroh_endpoint_bind h ?w2 = spawn (FBind ?q) ?w3" by (simp add: iroh_endpoint_bind_def g)
  have h: "h \<noteq> 0" "live w h = None" using n(1,2) ready by (auto simp: holds_def ready_def)
  obtain rg where rg: "w1 = w\<lparr>reg := rg\<rparr>" "lookup rg = (live w)(h \<mapsto> SOptions \<lparr>o_preset = i, o_secret_key = None,
      o_alpns = [], o_relay_mode = None, o_relay_urls = [], o_bind_addrs = []\<rparr>)" "next_id rg = next_id (reg w) + 1"
    using n(4) by blast
  have w3: "?w3 = w\<lparr>reg := snd (remove h (reg ?w2))\<rparr>" by (simp add: set_options_def rg)
  have live3: "lookup (snd (remove h (reg ?w2))) = live w" "next_id (snd (remove h (reg ?w2))) = next_id (reg w) + 1"
    using h by (auto simp: set_options_def live_simps rg)
  have ok3: "world_ok (Suc (Suc 0)) ?w3" 
  proof -
    have "world_ok (Suc (Suc (Suc 0))) w" using ok by (simp add: world_ok_def room_def)
    from world_ok_registry [OF this live3] show ?thesis unfolding w3 .
  qed
  have quiet3: "quiet (\<lambda>_. True) ?w3" unfolding w3 using quiet live3 by (simp add: quiet_def clean_def)
  let ?s = "spawn (FBind ?q) ?w3"
  note st = ran.start_waiting [OF disjI1 [OF refl] ok3 quiet3 TrueI]
  obtain r w4 where aw: "await_collect iroh_op_result_handle I c (fst ?s) (snd (begin_op ?s)) = Some (r, w4)"
    and rest: "(case r of Inl err \<Rightarrow> (Inl err, w4)
           | Inr h \<Rightarrow> (case FfiEndpointID Q h zero_id w4 of
               ((_, Some err), w4) \<Rightarrow> (Inl err, EndpointFree h w4)
             | ((i, None), w4) \<Rightarrow> (case new_endpoint h i w4 of (ep, w5) \<Rightarrow> (Inr ep, w5)))) = (Inr ep, w')"
    using run by (auto simp: Bind_def i OptionsNew_def new a EndpointBind_def b begin_op_def AwaitHandle_def)
  have typed: "\<forall>v n. ran I (FBind ?q) (Inr v) n \<longrightarrow> is_handle v" using ran_bind by fastforce
  obtain k where k: "r = Inr k" using rest by (cases r) auto
  note res = ran.await_collect_rule(2) [OF aw st(1,2) result_handle_typed typed]
  then obtain v where v: "k = the_handle v" "ran I (FBind ?q) (Inr v) (net w4)" using k by auto
  then obtain b m m' where m: "into_builder I ?q = Inr b" "i_bind I b k m = (Inr (), m')" using ran_bind by fastforce
  have "world_ok (Suc (Suc 0)) w4 \<and> quiet (\<lambda>_. True) w4"
    using ran.await_collect_rule(1) [OF aw st(1,2) result_handle_typed typed] by (simp add: reaped_def)
  then have "ready (Suc 0) w4" using ready_world [of "Suc (Suc 0)" w4 "\<lambda>_. True"] by (simp add: ready_def)
  from take_out_rule [OF this, of zero_id "rust_bind (get_endpoint k w4) (\<lambda>_. Ok (q_endpoint_id Q k (net w4)))"]
  obtain w5 where o: "FfiEndpointID Q k zero_id w4 = ((case rust_bind (get_endpoint k w4) (\<lambda>_. Ok (q_endpoint_id Q k (net w4))) of
      Some (Inr x) \<Rightarrow> (x, None) | x \<Rightarrow> (zero_id, Some (case go_outcome x of Inl e \<Rightarrow> e))), w5)" "settled w4 w5"
    by (fastforce simp: FfiEndpointID_def iroh_endpoint_id_def split: option.splits sum.splits)
  have ge: "get_endpoint k w4 = Ok ()"
    using rest k o(1) by (auto simp: get_endpoint_def rust_bind_def split: sum.splits)
  then have "live w4 k = Some SEndpoint"
    by (auto simp: get_endpoint_def get_slot_lookup split: if_splits option.splits elim!: as_endpoint.elims)
  moreover have "w' = snd (new_endpoint k (q_endpoint_id Q k (net w4)) w5)" "ep = next_endpoint w5"
    using rest k o(1) ge by (auto simp: rust_bind_def new_endpoint_def)
  moreover have "builder_of I K N p = Inr b" using into_builder_configure [OF valid i] m(1) by metis
  ultimately show ?thesis using m(2) settled_frame [OF o(2)] by (auto simp: new_endpoint_def)
qed

subsection \<open>Reports\<close>

definition remote_of :: "addr_kind \<times> bool \<times> string \<Rightarrow> RemoteAddr" where
  "remote_of x = (case x of (k, active, a) \<Rightarrow>
     \<lparr>rm_kind = kind_text k, rm_usage = (if active then ''active'' else ''inactive''), rm_addr = a\<rparr>)"

lemma join_lines_eq: "join_lines ls = join newline ls"
  by (induction ls rule: join_lines.induct) simp_all

definition remote_line :: "addr_kind \<times> bool \<times> string \<Rightarrow> string" where
  "remote_line x = (case x of (k, active, a) \<Rightarrow> join tab [kind_text k, if active then ''active'' else ''inactive'', a])"

lemma remote_info_lines: "remote_info_text as = join newline (map remote_line as)"
  unfolding remote_info_text_def join_lines_eq
  by (rule arg_cong [where f = "join newline"]) (auto simp: remote_line_def)

lemma remote_line_ok:
  assumes "newline \<notin> set (snd (snd x))"
  shows "newline \<notin> set (remote_line x)" "remote_line x \<noteq> []"
  using assms by (cases x; auto simp: remote_line_def kind_text_plain)+

lemma remote_line_fields: "SplitN tab remoteAddrFields (remote_line (k, active, a)) =
    [kind_text k, if active then ''active'' else ''inactive'', a]"
proof -
  have "SplitN tab (length [kind_text k, if active then ''active'' else ''inactive'', a]) (remote_line (k, active, a)) =
      [kind_text k, if active then ''active'' else ''inactive'', a]"
    unfolding remote_line_def prod.case by (rule SplitN_join) (auto simp: kind_text_plain)
  then show ?thesis by (simp add: remoteAddrFields_def eval_nat_numeral)
qed

lemma parse_remote_lines: "parse_remote_addrs (map remote_line xs) = Inr (map remote_of xs)"
proof (induction xs)
  case (Cons x xs)
  obtain k active a where x: "x = (k, active, a)" by (cases x) auto
  show ?case using Cons unfolding x list.map parse_remote_addrs.simps Let_def remote_line_fields
    by (simp add: remoteAddrFields_def remote_of_def)
qed simp

lemma parse_remote_info:
  assumes "\<forall>x \<in> set xs. newline \<notin> set (snd (snd x))"
  shows "(if remote_info_text xs = [] then Inr [] else parse_remote_addrs (Split newline (remote_info_text xs))) = Inr (map remote_of xs)"
proof (cases "xs = []")
  case True
  then show ?thesis by (simp add: remote_info_text_def)
next
  case False
  then have "remote_info_text xs \<noteq> []" unfolding remote_info_lines
    using assms remote_line_ok(2) by (cases xs; cases "tl xs") auto
  moreover have "Split newline (remote_info_text xs) = map remote_line xs"
    unfolding remote_info_lines by (rule Split_join) (use False assms remote_line_ok(1) in auto)
  ultimately show ?thesis by (simp add: parse_remote_lines)
qed

text \<open>
  C31: what \<^verbatim>\<open>RemoteAddrs\<close> returns is what the crate knew of the remote at one moment of the call: every address with
  its kind, its usage and its text, in order, a custom transport's text with tabs in it included, and nothing
  for a remote it does not know. Otherwise it returns the error of the operation or of the context. Either way
  the operation and its buffer are gone afterwards.
\<close>

theorem remote_addrs_exact:
  fixes w :: "'n world"
  assumes "RemoteAddrs I K a c i w = Some (r, w')" and "eh (endpoints w a) = h" and "h \<noteq> 0"
    and "world_ok 2 w" and "quiet (\<lambda>_. True) w"
    and "\<forall>n xs x. fst (i_remote_info I h i n) = Some xs \<longrightarrow> x \<in> set xs \<longrightarrow> newline \<notin> set (snd (snd x))"
  shows "(case r of Inl e \<Rightarrow> \<exists>x. await_error c x e w'
    | Inr out \<Rightarrow> \<exists>n. out = (case fst (i_remote_info I h i n) of None \<Rightarrow> [] | Some xs \<Rightarrow> map remote_of xs)) \<and>
    reaped 2 (\<lambda>_. True) (next_id (reg w)) w w'"
proof -
  let ?s = "iroh_endpoint_remote_info K h i w"
  have s: "?s = spawn (FRemoteInfo h i) w \<or> (\<exists>e. ?s = spawn_ready (Inl e) w)"
    by (auto simp: iroh_endpoint_remote_info_def split: sum.split option.split)
  then have op: "fst ?s = next_id (reg w)" by (auto simp: spawn_def spawn_ready_def reserve_def)
  note st = ran.start_waiting [OF s assms(4) [unfolded numeral_2_eq_2] assms(5) TrueI]
  have "EndpointRemoteInfo I K c h i w = map_option (\<lambda>(q, w2). (map_sum id fst q, w2)) (AwaitBytes I c (fst ?s) (snd (begin_op ?s)))"
    by (simp add: EndpointRemoteInfo_def begin_op_def)
  then obtain q where aw: "AwaitBytes I c (fst ?s) (snd (begin_op ?s)) = Some (q, w')"
    and "r = (case map_sum id fst q of Inl err \<Rightarrow> Inl err | Inr txt \<Rightarrow>
      if txt = [] then Inr [] else parse_remote_addrs (Split newline txt))"
    using assms(1-3) by (auto simp: RemoteAddrs_def handle_get_def)
  then have r: "r = (case q of Inl err \<Rightarrow> Inl err | Inr (txt, eof) \<Rightarrow>
      if txt = [] then Inr [] else parse_remote_addrs (Split newline txt))" by (cases q) auto
  have run: "\<exists>n. v = Bytes (case fst (i_remote_info I h i n) of None \<Rightarrow> [] | Some xs \<Rightarrow> remote_info_text xs)"
    if R: "ran I (FRemoteInfo h i) (Inr v) m" for v m
  proof -
    obtain u u' :: "'n world" where b: "run_body I (FRemoteInfo h i) u = (Inr v, u')" using R unfolding ran_def by blast
    obtain x n' where "i_remote_info I h i (net u) = (x, n')" by fastforce
    then show ?thesis using b by (intro exI [of _ "net u"]) (cases x; simp)
  qed
  then have typed: "\<forall>v n. ran I (FRemoteInfo h i) (Inr v) n \<longrightarrow> is_bytes v" by fastforce
  note res = ran.await_bytes_rule [OF aw st(1,2) typed]
  have "case r of Inl e \<Rightarrow> \<exists>x. await_error c x e w'
    | Inr out \<Rightarrow> \<exists>n. out = (case fst (i_remote_info I h i n) of None \<Rightarrow> [] | Some xs \<Rightarrow> map remote_of xs)"
  proof (cases q)
    case (Inl e)
    then show ?thesis using res r by auto
  next
    case (Inr x)
    then obtain v where v: "x = (the_bytes v, v = Eof)" "ran I (FRemoteInfo h i) (Inr v) (net w')" using res by auto
    then obtain n where n: "v = Bytes (case fst (i_remote_info I h i n) of None \<Rightarrow> [] | Some xs \<Rightarrow> remote_info_text xs)"
      using run by blast
    have "r = Inr (case fst (i_remote_info I h i n) of None \<Rightarrow> [] | Some xs \<Rightarrow> map remote_of xs)"
    proof (cases "fst (i_remote_info I h i n)")
      case None
      then show ?thesis using r Inr v n by simp
    next
      case (Some xs)
      have "\<forall>x \<in> set xs. newline \<notin> set (snd (snd x))" using assms(6) Some by blast
      then show ?thesis using r Inr v n Some parse_remote_info [of xs] by simp
    qed
    then show ?thesis by auto
  qed
  then show ?thesis using reaped_begin [OF conjunct1 [OF res] st(4,3)] by (simp add: op numeral_2_eq_2)
qed

lemma parse_socket_lines: "\<forall>s \<in> set ss. ParseAddrPort N s = Inr (f s) \<Longrightarrow> parse_sockets N ss = Inr (map f ss)"
  by (induction ss) auto

text \<open>The object at \<open>a\<close> holds the handle \<open>h\<close> of an endpoint the library knows.\<close>

definition bound :: "nat \<Rightarrow> u64 \<Rightarrow> ('n, 'z) world_scheme \<Rightarrow> bool" where
  "bound a h w \<longleftrightarrow> eh (endpoints w a) = h \<and> h \<noteq> 0 \<and> live w h = Some SEndpoint"

lemma boundD [simp]:
  assumes "bound a h w"
  shows "handle_get (eh (endpoints w a)) = Inr h" "get_endpoint h w = Ok ()"
  using assms by (simp_all add: bound_def handle_get_def get_endpoint_def get_slot_lookup)

text \<open>
  \<^verbatim>\<open>BoundSockets\<close> returns the sockets the crate bound, each read from the text the crate printed for it,
  in order, and nothing when there is none; the call leaves nothing behind in the library.
\<close>

theorem bound_sockets_exact:
  assumes "ready (Suc k) w" and "bound a h w"
    and "\<forall>s \<in> set (q_bound_sockets Q h (net w)). s \<noteq> [] \<and> newline \<notin> set s \<and> ParseAddrPort N s = Inr (f s)"
  shows "\<exists>w'. BoundSockets Q N a w = (Inr (map f (q_bound_sockets Q h (net w))), w') \<and> settled w w'"
proof -
  let ?ss = "q_bound_sockets Q h (net w)"
  obtain w' where w': "EndpointBoundSockets Q h w = (Inr (join newline ?ss), w')" "settled w w'"
    using take_text_ok [OF assms(1), of "join newline ?ss"] assms(2)
    by (auto simp: EndpointBoundSockets_def iroh_endpoint_bound_sockets_def rust_bind_def)
  show ?thesis
  proof (cases "?ss = []")
    case True
    then show ?thesis using w' assms(2) by (simp add: BoundSockets_def)
  next
    case False
    then have "join newline ?ss \<noteq> []" using assms(3) by (cases ?ss; cases "tl ?ss") auto
    moreover have "Split newline (join newline ?ss) = ?ss" by (rule Split_join) (use False assms(3) in auto)
    moreover have "parse_sockets N ?ss = Inr (map f ?ss)" by (rule parse_socket_lines) (use assms(3) in blast)
    ultimately show ?thesis using w' assms(2) by (simp add: BoundSockets_def)
  qed
qed

subsection \<open>Dialling\<close>

text \<open>
  C30: \<^verbatim>\<open>Connect\<close> dials what it was given: a connection is returned only for a successful dial, by this endpoint, of
  the address that the text form of the argument stands for, under the ALPN given, which is not empty; it holds
  the handle the dial got and keeps the endpoint reachable. Without an ALPN nothing is started.
\<close>

theorem connect_dials:
  fixes w :: "'n world"
  assumes "Connect I K N a c addr alpn w = Some (r, w')" and "eh (endpoints w a) = h" and "h \<noteq> 0"
    and "world_ok 2 w" and "quiet (\<lambda>_. True) w"
  shows "case r of
      Inr x \<Rightarrow> alpn \<noteq> [] \<and> (\<exists>d k n n'. decode_addr K (encode N addr) = Ok d \<and> i_connect I h d alpn k n = (Inr (), n') \<and>
        conns w' x = \<lparr>ch = k, cendpoint = a, cmu = Unlocked, cremote = zero_id\<rparr>)
    | Inl e \<Rightarrow> alpn = [] \<longrightarrow> w' = w"
proof (cases "alpn = []")
  case True
  then show ?thesis using assms(1-3) by (auto simp: Connect_def handle_get_def)
next
  case False
  let ?s = "iroh_endpoint_connect K h (encode N addr) alpn w"
  obtain q w1 where run: "EndpointConnect I K c h (encode N addr) alpn w = Some (q, w1)" and ad: "adopt_conn a (q, w1) = (r, w')"
    using assms(1-3) False by (auto simp: Connect_def handle_get_def)
  show ?thesis
  proof (cases q)
    case (Inl e)
    then show ?thesis using ad False by (auto simp: adopt_conn_def)
  next
    case (Inr k)
    have "fst ?s \<noteq> 0"
      using run Inr by (auto simp: EndpointConnect_def AwaitHandle_def await_collect_def await_ok_def await_def bind_eq_Some_conv)
    then have aw: "await_collect iroh_op_result_handle I c (fst ?s) (snd (begin_op ?s)) = Some (Inr k, w1)"
      using run Inr by (simp add: EndpointConnect_def AwaitHandle_def begin_op_def Let_def)
    have z: "rust_bind (str_arg K (encode N addr)) (decode_addr K) \<noteq> None"
      using \<open>fst ?s \<noteq> 0\<close> by (cases "rust_bind (str_arg K (encode N addr)) (decode_addr K)") (simp_all add: iroh_endpoint_connect_def)
    define d where "d = (case rust_bind (str_arg K (encode N addr)) (decode_addr K) of Some (Inr d) \<Rightarrow> d)"
    have s: "?s = spawn (FConnect h d alpn) w \<or> (\<exists>e. ?s = spawn_ready (Inl e) w)"
      using z by (auto simp: iroh_endpoint_connect_def d_def spawn_on_def split: sum.splits)
    have "\<forall>v. yields (FConnect h d alpn) v \<longrightarrow> is_handle v" by simp
    from handle_ran [OF aw assms(4,5) s this]
    obtain u u' :: "'n world" where sp: "?s = spawn (FConnect h d alpn) w"
      and b: "run_body I (FConnect h d alpn) u = (Inr (Handle k), u')" by blast
    have "rust_bind (str_arg K (encode N addr)) (decode_addr K) = Ok d"
      using z sp by (auto simp: iroh_endpoint_connect_def d_def spawn_not_ready [symmetric] split: sum.splits)
    then have dec: "decode_addr K (encode N addr) = Ok d"
      by (auto simp: rust_bind_def str_arg_def split: if_splits)
    obtain x n' where x: "i_connect I h d alpn (next_id (reg u)) (net u) = (x, n')" by fastforce
    then have "x = Inr ()" "k = next_id (reg u)" using b by (auto simp: yield_handle_def live_simps split: sum.splits)
    then have "i_connect I h d alpn k (net u) = (Inr (), n')" using x by simp
    moreover have "r = Inr (next_conn w1)" "conns w' (next_conn w1) = \<lparr>ch = k, cendpoint = a, cmu = Unlocked, cremote = zero_id\<rparr>"
      using ad Inr by (auto simp: adopt_conn_def newConn_def)
    ultimately show ?thesis using dec False by auto
  qed
qed

subsection \<open>Closing\<close>

lemma endpoints_deadline_set [simp]: "endpoints (deadline_set a t w) = endpoints w"
  using deadline_set_frame [of a t w] by auto

lemma endpoint_taken_env_step: "eh (endpoints w a) = 0 \<Longrightarrow> eh (endpoints (env_step I m e w) a) = 0"
  by (cases e) (auto simp: handle_take_def finish_ctx_def split: option.split)

interpretation taken: go_invariant "\<lambda>w. eh (endpoints w a) = 0" for a
  by unfold_locales (simp_all add: endpoint_taken_env_step)

lemma take_endpoint_simps [simp]: "fst (take_endpoint a w) = eh (endpoints w a)"
  "eh (endpoints (snd (take_endpoint a w)) a) = 0"
  by (simp_all add: take_endpoint_def handle_take_def)

lemma endpoint_taken_again: "eh (endpoints w a) = 0 \<Longrightarrow> take_endpoint a w = (0, w)"
  by (cases w) (simp add: take_endpoint_def handle_take_def fun_upd_idem)

text \<open>
  C32: closing an endpoint is final and happens once: whatever the shutdown reported and however the context
  ended, the object has no handle and the library's endpoint is freed; closing again succeeds and touches
  nothing, and every other method finds the endpoint closed and starts nothing.
\<close>

theorem endpoint_close_is_final:
  fixes w :: "'n world"
  assumes "Endpoint_Close I a c w = Some (r, w')" and "eh (endpoints w a) \<noteq> 0"
  shows "eh (endpoints w' a) = 0 \<and> live w' (eh (endpoints w a)) = None \<and> Endpoint_Close I a d w' = Some (None, w') \<and>
    Endpoint_Accept I a d w' = Some (Inl (Sentinel ErrClosed), w') \<and>
    Connect I K N a d addr alpn w' = Some (Inl (Sentinel ErrClosed), w') \<and>
    Online I a d w' = Some (Some (Sentinel ErrClosed), w') \<and> RemoteAddrs I K a d i w' = Some (Inl (Sentinel ErrClosed), w') \<and>
    Endpoint_Addr Q K N ld a w' = (Inl (Sentinel ErrClosed), w') \<and> HomeRelay Q a w' = (Inl (Sentinel ErrClosed), w') \<and>
    BoundSockets Q N a w' = (Inl (Sentinel ErrClosed), w')"
proof -
  let ?h = "eh (endpoints w a)"
  obtain w2 where 1: "EndpointClose I c ?h (snd (take_endpoint a w)) = Some (r, w2)" and 2: "w' = free_handle ?h w2"
    using assms by (auto simp: Endpoint_Close_def EndpointFree_def case_prod_unfold)
  have "eh (endpoints w2 a) = 0"
    using 1 [unfolded EndpointClose_def iroh_endpoint_close_def]
    by (rule taken.unit_call_keeps) (rule take_endpoint_simps(2), rule spawn_on_cases)
  then have "eh (endpoints w' a) = 0" "live w' ?h = None" using assms(2) by (simp_all add: 2 free_handle_def live_simps)
  then show ?thesis
    by (simp add: Endpoint_Close_def endpoint_taken_again Endpoint_Accept_def Connect_def Online_def RemoteAddrs_def
        Endpoint_Addr_def HomeRelay_def BoundSockets_def)
qed

subsection \<open>Examples\<close>

text \<open>A world with an endpoint at address 0 under handle 1, and a crate that knows two addresses of every remote.\<close>

definition endpoint_world :: "env list \<Rightarrow> echo_net world" where
  "endpoint_world es = (let w = world_with SEndpoint echo_start es in
     w\<lparr>endpoints := (endpoints w)(0 := \<lparr>eh = 1, eid = zero_id\<rparr>), next_endpoint := 1\<rparr>)"

definition knows_two :: "echo_net iroh" where
  "knows_two = echo\<lparr>i_remote_info := \<lambda>h i n. (Some [(KIp, True, ''10.0.0.1:7''), (KCustom, False, ''a'' @ [tab] @ ''b'')], n)\<rparr>"

definition some_options :: "string Options" where
  "some_options = \<lparr>Preset = PresetN0NoRelay, SecretKey = Some (replicate 32 (CHR ''k'')), ALPNs = [''echo''],
     RelayMode = RelayDisabled, RelayURLs = [], BindAddrs = []\<rparr>"

lemma endpoint_world_ok: "length es < 1000 \<Longrightarrow> world_ok 2 (endpoint_world es)"
proof -
  assume "length es < 1000"
  then have "world_ok 2 (world_with SEndpoint echo_start es)" by (intro world_ok_with) simp_all
  moreover have "pump_ok (endpoint_world es) = pump_ok (world_with SEndpoint echo_start es)"
    by (rule pump_ok_cong) (simp_all add: endpoint_world_def Let_def)
  moreover have "reg (endpoint_world es) = reg (world_with SEndpoint echo_start es)" "script (endpoint_world es) = script (world_with SEndpoint echo_start es)"
    by (simp_all add: endpoint_world_def Let_def)
  ultimately show ?thesis by (simp add: world_ok_def room_def)
qed

lemma endpoint_world_quiet: "\<forall>g. Ev (StartOp g) \<notin> set es \<Longrightarrow> quiet (\<lambda>_. True) (endpoint_world es)"
  using quiet_with [of SEndpoint es "\<lambda>_. True" echo_start] by (simp add: endpoint_world_def Let_def quiet_def clean_def)

lemma endpoint_world_bound: "eh (endpoints (endpoint_world es) 0) = 1" "bound 0 1 (endpoint_world es)"
  by (simp_all add: bound_def endpoint_world_def world_with_def world_init_def Let_def live_simps)

lemma valid_some: "known_preset (Preset some_options)" "valid_options plain colons some_options"
  by (simp_all add: some_options_def known_preset_def valid_options_def url_ok_def socket_ok_def utf8_ascii colons_def
      RelayFromPreset_def RelayDisabled_def)

theorem bind_refuses_bad_options_witness:
  "\<exists>e w'. Bind echo answers plain colons None Background (some_options\<lparr>ALPNs := [''echo'', []]\<rparr>) (world_init echo_start []) = Some (Inl e, w')
     \<and> live w' = Map.empty"
proof -
  have r: "ready (Suc (Suc 0)) (world_init echo_start [] :: echo_net world)" by (simp add: ready_def world_init_def live_simps)
  have "\<not> (None = (None :: go_error option) \<and> known_preset (Preset (some_options\<lparr>ALPNs := [''echo'', []]\<rparr>)) \<and>
      valid_options plain colons (some_options\<lparr>ALPNs := [''echo'', []]\<rparr>))"
    by (simp add: valid_options_def)
  from bind_refuses_bad_options [OF r this, of echo answers Background] show ?thesis
    by (auto simp: world_init_def live_simps fun_eq_iff)
qed

theorem bind_uses_options_witness:
  "\<exists>ep w'. Bind echo answers plain colons None Background some_options (world_init echo_start smooth) = Some (Inr ep, w')
     \<and> live w' (eh (endpoints w' ep)) = Some SEndpoint
     \<and> (\<exists>b. builder_of echo plain colons some_options = Inr b)"
proof -
  define w :: "echo_net world" where "w = world_init echo_start smooth"
  have ok: "world_ok 4 w" using pump_ok_world_init [of echo_start smooth] by (simp add: w_def world_ok_def room_def) (simp add: world_init_def live_simps)
  have q: "quiet (\<lambda>_. True) w" by (simp add: w_def quiet_def clean_def world_init_def live_simps)
  have init: "reg w = registry_init" by (simp add: w_def world_init_def)
  define w1 where "w1 = snd (OptionsNew None 3 w)"
  have 1: "OptionsNew None 3 w = (Inr 1, w1)" by (simp add: w1_def OptionsNew_def iroh_options_new_def init live_simps)
  have new: "iroh_options_new 3 w = (1, w1)" using 1 by (simp add: OptionsNew_def case_prod_unfold prod_eq_iff Let_def)
  have ready: "ready (Suc (Suc 0)) w" using ready_world [OF ok q] by (simp add: ready_def)
  note n = options_new_holds [OF ready new]
  define z where "z = configure plain colons some_options \<lparr>o_preset = 3, o_secret_key = None, o_alpns = [], o_relay_mode = None,
      o_relay_urls = [], o_bind_addrs = []\<rparr>"
  define w2 where "w2 = set_options 1 z w1"
  have 2: "applyOptions plain colons 1 some_options w1 = (None, w2)"
    unfolding w2_def z_def using setterD(1) [OF setter_applyOptions n(3,2) valid_some(2)] .
  define w0 where "w0 = w\<lparr>reg := \<lparr>shards = \<lambda>_. Map.empty, next_id = 2\<rparr>\<rparr>"
  have "shard 1 = 1" by (simp add: shard_def SHARDS_def)
  then have "iroh_endpoint_bind 1 w2 = spawn (FBind z) w0"
    by (simp add: iroh_endpoint_bind_def w2_def w1_def OptionsNew_def iroh_options_new_def init live_simps set_options_def get_slot_lookup w0_def)
      (simp add: publish_def remove_def registry_init_def NULL_HANDLE_def fun_upd_idem)
  then have eb: "EndpointBind echo Background 1 w2 = (let (op, w1) = begin_op (spawn (FBind z) w0) in AwaitHandle echo Background op w1)"
    by (simp add: EndpointBind_def)
  have "map_option fst (let (op, w1) = begin_op (spawn (FBind z) w0) in AwaitHandle echo Background op w1) = Some (Inr 3)"
    unfolding w0_def w_def z_def by code_simp
  then obtain w3 where 3: "EndpointBind echo Background 1 w2 = Some (Inr 3, w3)" by (auto simp: eb)
  have "get_slot as_endpoint 3 (reg (snd (the (let (op, w1) = begin_op (spawn (FBind z) w0) in AwaitHandle echo Background op w1)))) = Inr ()"
    unfolding w0_def w_def z_def by code_simp
  then have "get_endpoint 3 w3 = Ok ()" by (simp add: get_endpoint_def 3 eb [symmetric])
  then have 4: "FfiEndpointID answers 3 zero_id w3 = ((q_endpoint_id answers 3 (net w3), None), w3)"
    by (simp add: FfiEndpointID_def iroh_endpoint_id_def rust_bind_def)
  have "Preset_ffi (Preset some_options) = Inr 3" by (simp add: some_options_def Preset_ffi_def PresetN0_def PresetN0NoRelay_def)
  then obtain ep w' where b: "Bind echo answers plain colons None Background some_options w = Some (Inr ep, w')"
    by (simp add: Bind_def 1 2 3 4 new_endpoint_def)
  from bind_uses_options [OF ok q valid_some b] b show ?thesis unfolding w_def by auto
qed

theorem remote_addrs_exact_witness:
  "\<exists>w'. RemoteAddrs knows_two plain 0 Background (replicate 32 (CHR ''r'')) (endpoint_world smooth) =
     Some (Inr [\<lparr>rm_kind = ''ip'', rm_usage = ''active'', rm_addr = ''10.0.0.1:7''\<rparr>,
       \<lparr>rm_kind = ''custom'', rm_usage = ''inactive'', rm_addr = ''a'' @ [tab] @ ''b''\<rparr>], w')
     \<and> quiet (\<lambda>_. True) w'"
proof -
  define w where "w = endpoint_world smooth"
  define i where "i = replicate 32 (CHR ''r'')"
  have "map_option (isl \<circ> fst) (RemoteAddrs knows_two plain 0 Background i w) = Some False" unfolding w_def i_def by code_simp
  then obtain out w' where r: "RemoteAddrs knows_two plain 0 Background i w = Some (Inr out, w')"
    by (auto simp: isl_def) (metis sumE)
  have ok: "world_ok 2 w" "quiet (\<lambda>_. True) w" unfolding w_def by (rule endpoint_world_ok, simp) (rule endpoint_world_quiet, simp)
  have "\<forall>n xs x. fst (i_remote_info knows_two 1 i n) = Some xs \<longrightarrow> x \<in> set xs \<longrightarrow> newline \<notin> set (snd (snd x))"
    by (auto simp: knows_two_def)
  from remote_addrs_exact [OF r _ _ ok this] endpoint_world_bound(1) [of smooth] r show ?thesis
    unfolding w_def i_def by (auto simp: knows_two_def remote_of_def kind_text_def reaped_def)
qed

theorem bound_sockets_exact_witness:
  "\<exists>w'. BoundSockets answers colons 0 (endpoint_world []) = (Inr [''0.0.0.0:7'', ''[::]:7''], w') \<and> settled (endpoint_world []) w'"
proof -
  have "world_ok 2 (endpoint_world [])" "quiet (\<lambda>_. True) (endpoint_world [])" by (rule endpoint_world_ok, simp) (rule endpoint_world_quiet, simp)
  then have r: "ready (Suc 1) (endpoint_world [])" using ready_world [of 2 "endpoint_world []"] by (simp add: numeral_2_eq_2)
  have t: "trimmed ''0.0.0.0:7''" "trimmed ''[::]:7''" by (rule trimmed_free, simp add: space_heads_def)+
  from bound_sockets_exact [OF r endpoint_world_bound(2), of answers colons id] t show ?thesis
    by (simp add: answers_def colons_def)
qed

theorem connect_dials_witness:
  "\<exists>w' d. Connect echo plain colons 0 Background (AddrOf (replicate 32 (CHR ''r''))) ''echo'' (endpoint_world smooth) = Some (Inr 0, w')
     \<and> decode_addr plain (encode colons (AddrOf (replicate 32 (CHR ''r'')))) = Ok d \<and> cendpoint (conns w' 0) = 0"
proof -
  define w where "w = endpoint_world smooth"
  define addr :: "string EndpointAddr" where "addr = AddrOf (replicate 32 (CHR ''r''))"
  have "map_option fst (Connect echo plain colons 0 Background addr ''echo'' w) = Some (Inr 0)" unfolding w_def addr_def by code_simp
  then obtain w' where c: "Connect echo plain colons 0 Background addr ''echo'' w = Some (Inr 0, w')" by auto
  have ok: "world_ok 2 w" "quiet (\<lambda>_. True) w" unfolding w_def by (rule endpoint_world_ok, simp) (rule endpoint_world_quiet, simp)
  from connect_dials [OF c _ _ ok] endpoint_world_bound(1) [of smooth] c show ?thesis unfolding w_def addr_def by auto
qed

theorem endpoint_close_is_final_witness:
  "\<exists>r w'. Endpoint_Close echo 0 Background (endpoint_world smooth) = Some (r, w') \<and> live w' 1 = None
     \<and> Endpoint_Accept echo 0 Background w' = Some (Inl (Sentinel ErrClosed), w')"
proof -
  define w where "w = endpoint_world smooth"
  have "map_option fst (Endpoint_Close echo 0 Background w) = Some None" unfolding w_def by code_simp
  then obtain w' where c: "Endpoint_Close echo 0 Background w = Some (None, w')" by auto
  have "eh (endpoints w 0) = 1" unfolding w_def by (rule endpoint_world_bound)
  with endpoint_close_is_final [OF c, of Background plain colons "AddrOf []" "[]" "[]" answers None] c show ?thesis
    unfolding w_def by auto
qed

end
