(* ===== verification/Net_Conn.thy ===== *)
theory Net_Conn
  imports Connections Endpoints
begin

text \<open>
  Streams as \<^verbatim>\<open>net.Conn\<close> (\<^verbatim>\<open>StreamConn\<close> of \<^verbatim>\<open>netconn.go\<close>). An object is the number under which the world
  keeps its fields; its two halves are stream objects. Another goroutine may close it at any moment
  a call gives way, by the steps \<open>ClosesStreamConn\<close> and \<open>StoresCloseErr\<close> of the rest of the process.
\<close>

subsection \<open>Addresses\<close>

record Addr =
  addr_ID :: bytes

definition Network :: "Addr \<Rightarrow> string" where
  "Network a = ''iroh''"

definition Addr_String :: "Addr \<Rightarrow> string" where
  "Addr_String a = (if IsZero (addr_ID a) then [] else EndpointID_String (addr_ID a))"

subsection \<open>Opening\<close>

definition streamConn :: "'n queries \<Rightarrow> nat \<Rightarrow> nat \<times> nat \<Rightarrow> ('n, 'z) world_scheme \<Rightarrow> (go_error + nat) \<times> ('n, 'z) world_scheme" where
  "streamConn Q a st w = (case RemoteID Q a w of
     (Inl err, w1) \<Rightarrow> (Inl err, w1)
   | (Inr remote, w1) \<Rightarrow> (Inr (next_sconn w1), w1\<lparr>next_sconn := Suc (next_sconn w1),
       sconns := (sconns w1)(next_sconn w1 := \<lparr>nc_send = fst st, nc_recv = snd st, nc_local = Endpoint_ID (cendpoint (conns w1 a)) w1,
         nc_remote = remote, nc_once = NotRun, nc_closeErr = None, nc_closed = False\<rparr>)\<rparr>))"

definition with_stream :: "'n queries \<Rightarrow> nat \<Rightarrow> (go_error + nat \<times> nat) \<times> ('n, 'z) world_scheme \<Rightarrow> (go_error + nat) \<times> ('n, 'z) world_scheme" where
  "with_stream Q a r = (case r of (Inl err, w) \<Rightarrow> (Inl err, w) | (Inr st, w) \<Rightarrow> streamConn Q a st w)"

definition OpenConn :: "'n iroh \<Rightarrow> 'n queries \<Rightarrow> nat \<Rightarrow> ctx \<Rightarrow> ('n, 'z) world_scheme \<Rightarrow>
    ((go_error + nat) \<times> ('n, 'z) world_scheme) option" where
  "OpenConn I Q a c w = map_option (with_stream Q a) (OpenBi I a c w)"

definition AcceptConn :: "'n iroh \<Rightarrow> 'n queries \<Rightarrow> nat \<Rightarrow> ctx \<Rightarrow> ('n, 'z) world_scheme \<Rightarrow>
    ((go_error + nat) \<times> ('n, 'z) world_scheme) option" where
  "AcceptConn I Q a c w = map_option (with_stream Q a) (AcceptBi I a c w)"

subsection \<open>Reading and writing\<close>

definition closeAware :: "nat \<Rightarrow> go_error option \<Rightarrow> ('n, 'z) world_scheme \<Rightarrow> go_error option" where
  "closeAware s err w = (case err of
     None \<Rightarrow> None
   | Some e \<Rightarrow>
       if errors_Is e EOF then Some e
       else if nc_closed (sconns w s) \<and> (errors_Is e OsErrDeadlineExceeded \<or> errors_Is e (Sentinel ErrClosed))
         then Some NetErrClosed
       else Some e)"

definition StreamConn_Read :: "'n iroh \<Rightarrow> nat \<Rightarrow> bytes \<Rightarrow> ('n, 'z) world_scheme \<Rightarrow>
    ((nat \<times> bytes \<times> go_error option) \<times> ('n, 'z) world_scheme) option" where
  "StreamConn_Read I s p w = map_option (\<lambda>((n, p', err), w1). ((n, p', closeAware s err w1), w1))
     (RecvStream_Read I (nc_recv (sconns w s)) p w)"

definition StreamConn_Write :: "'n iroh \<Rightarrow> nat \<Rightarrow> bytes \<Rightarrow> ('n, 'z) world_scheme \<Rightarrow>
    ((int \<times> go_error option) \<times> ('n, 'z) world_scheme) option" where
  "StreamConn_Write I s p w = map_option (\<lambda>((n, err), w1). ((n, closeAware s err w1), w1))
     (SendStream_Write I (nc_send (sconns w s)) p w)"

subsection \<open>Closing\<close>

definition CloseWrite :: "'n iroh \<Rightarrow> nat \<Rightarrow> ('n, 'z) world_scheme \<Rightarrow> (go_error option \<times> ('n, 'z) world_scheme) option" where
  "CloseWrite I s w = SendStream_Close I (nc_send (sconns w s)) w"

abbreviation on_sconn :: "nat \<Rightarrow> (StreamConn \<Rightarrow> StreamConn) \<Rightarrow> ('n, 'z) world_scheme \<Rightarrow> ('n, 'z) world_scheme" where
  "on_sconn s f w \<equiv> w\<lparr>sconns := (sconns w)(s := f (sconns w s))\<rparr>"

text \<open>
  \<^verbatim>\<open>closeOnce.Do\<close> around a body that closes the channel, runs \<open>f\<close> and stores its error; then the stored
  error is returned. Whoever comes while the body runs waits for its end; the body does not call
  itself.
\<close>

definition close_once :: "'n iroh \<Rightarrow> nat \<Rightarrow> (('n, 'z) world_scheme \<Rightarrow> (go_error option \<times> ('n, 'z) world_scheme) option) \<Rightarrow>
    ('n, 'z) world_scheme \<Rightarrow> (go_error option \<times> ('n, 'z) world_scheme) option" where
  "close_once I s f w = (case nc_once (sconns w s) of
     HasRun \<Rightarrow> Some (nc_closeErr (sconns w s), w)
   | RunsElsewhere \<Rightarrow> schedule I 0 (\<lambda>_ w. if nc_once (sconns w s) = HasRun then Some (nc_closeErr (sconns w s), w) else None) w
   | RunsHere \<Rightarrow> None
   | NotRun \<Rightarrow> do {
       (err, w1) \<leftarrow> f (on_sconn s (\<lambda>x. x\<lparr>nc_once := RunsHere, nc_closed := True\<rparr>) w);
       Some (err, on_sconn s (\<lambda>x. x\<lparr>nc_once := HasRun, nc_closeErr := err\<rparr>) w1)
     })"

definition StreamConn_Close :: "'n iroh \<Rightarrow> nat \<Rightarrow> ('n, 'z) world_scheme \<Rightarrow> (go_error option \<times> ('n, 'z) world_scheme) option" where
  "StreamConn_Close I s w = close_once I s (\<lambda>w. do {
     (e1, w1) \<leftarrow> RecvStream_Close I (nc_recv (sconns w s)) w;
     (e2, w2) \<leftarrow> SendStream_Close I (nc_send (sconns w s)) w1;
     Some (errors_Join [e1, e2], w2)
   }) w"

definition StreamConn_Reset :: "'n iroh \<Rightarrow> nat \<Rightarrow> ctx \<Rightarrow> u64 \<Rightarrow> ('n, 'z) world_scheme \<Rightarrow> (go_error option \<times> ('n, 'z) world_scheme) option" where
  "StreamConn_Reset I s c code w = close_once I s (\<lambda>w. do {
     let w1 = snd (SetReadDeadline (nc_recv (sconns w s)) pastDeadline w);
     let w2 = snd (SetWriteDeadline (nc_send (sconns w s)) pastDeadline w1);
     (e1, w3) \<leftarrow> RecvStream_Stop I (nc_recv (sconns w s)) c code w2;
     (e2, w4) \<leftarrow> SendStream_Reset I (nc_send (sconns w s)) c code w3;
     Some (errors_Join [e1, e2], w4)
   }) w"

subsection \<open>Addresses and deadlines of a stream\<close>

definition LocalAddr :: "nat \<Rightarrow> ('n, 'z) world_scheme \<Rightarrow> Addr" where
  "LocalAddr s w = \<lparr>addr_ID = nc_local (sconns w s)\<rparr>"

definition StreamConn_RemoteAddr :: "nat \<Rightarrow> ('n, 'z) world_scheme \<Rightarrow> Addr" where
  "StreamConn_RemoteAddr s w = \<lparr>addr_ID = nc_remote (sconns w s)\<rparr>"

definition StreamConn_SetReadDeadline :: "nat \<Rightarrow> gtime \<Rightarrow> ('n, 'z) world_scheme \<Rightarrow> go_error option \<times> ('n, 'z) world_scheme" where
  "StreamConn_SetReadDeadline s t w = SetReadDeadline (nc_recv (sconns w s)) t w"

definition StreamConn_SetWriteDeadline :: "nat \<Rightarrow> gtime \<Rightarrow> ('n, 'z) world_scheme \<Rightarrow> go_error option \<times> ('n, 'z) world_scheme" where
  "StreamConn_SetWriteDeadline s t w = SetWriteDeadline (nc_send (sconns w s)) t w"

definition StreamConn_SetDeadline :: "nat \<Rightarrow> gtime \<Rightarrow> ('n, 'z) world_scheme \<Rightarrow> go_error option \<times> ('n, 'z) world_scheme" where
  "StreamConn_SetDeadline s t w = (let (e1, w1) = StreamConn_SetReadDeadline s t w; (e2, w2) = StreamConn_SetWriteDeadline s t w1
     in (errors_Join [e1, e2], w2))"

end
