(* ===== verification/Net_Conn_Properties.thy ===== *)
theory Net_Conn_Properties
  imports Net_Conn Stream_Properties
begin

text \<open>
  What a stream promises as a \<^verbatim>\<open>net.Conn\<close>: reads stay exact and a closed one reports \<^verbatim>\<open>net.ErrClosed\<close>, closing
  is final, and the one way in which a call in flight can report something else.
\<close>

subsection \<open>Errors\<close>

text \<open>What a call on a closed object may report.\<close>

definition closed_error :: "go_error \<Rightarrow> bool" where
  "closed_error e \<longleftrightarrow> e = EOF \<or> e = NetErrClosed \<or> (\<exists>k m. e = Error k m \<and> sentinelFor k \<noteq> ErrClosed)"

lemma closeAware_public:
  assumes "public_error e" and "closeAware s (Some e) w = Some x"
  shows "if nc_closed (sconns w s) then closed_error x else x = e"
  using assms by (auto simp: public_error_def closeAware_def closed_error_def Error_Unwrap_def split: if_splits)

lemma closeAware_None [simp]: "closeAware s None w = None" "closeAware s err w = None \<longleftrightarrow> err = None"
  by (auto simp: closeAware_def split: option.splits)

text \<open>
  C33: \<^verbatim>\<open>Read\<close> of a \<^verbatim>\<open>net.Conn\<close> is as exact as the stream's own: what left the stream is what is in the buffer, and an
  error consumed nothing. Once the object is closed, by whichever goroutine, a passed deadline or a closed
  handle is never shown: the error is the end of the stream, \<^verbatim>\<open>net.ErrClosed\<close>, or one the library reported for
  another reason. While it is open the error is the stream's own.
\<close>

theorem net_read_exact:
  fixes w :: "'n world"
  assumes "StreamConn_Read I s p w = Some ((n, p', err), w')" and "read_law I got" and "length p < 2 ^ 63"
    and "a = nc_recv (sconns w s)" and "streaming (not_read (sh (streams w a))) a (sh (streams w a)) w"
  shows "got (net w') (sh (streams w a)) = got (net w) (sh (streams w a)) @ take n p' \<and> length p' = length p \<and>
    drop n p' = drop n p \<and> (err = None \<longrightarrow> n > 0 \<or> p = []) \<and>
    (\<forall>e. err = Some e \<longrightarrow> n = 0 \<and> (if nc_closed (sconns w' s) then closed_error e else public_error e))"
proof -
  obtain e0 where run: "RecvStream_Read I a p w = Some ((n, p', e0), w')" and err: "err = closeAware s e0 w'"
    using assms(1,4) by (auto simp: StreamConn_Read_def)
  note r = read_exact [OF run assms(2,3,5)]
  have "if nc_closed (sconns w' s) then closed_error e else public_error e" if e: "err = Some e" for e
  proof -
    obtain x where x: "e0 = Some x" using e err by (cases e0) auto
    then have "public_error x" using r by blast
    then show ?thesis using closeAware_public [of x s w' e] e err x by (auto split: if_splits)
  qed
  moreover have "n = 0" if "err = Some e" for e using that err r by (cases e0) auto
  moreover have "err = None \<longrightarrow> n > 0 \<or> p = []" using err r by auto
  ultimately show ?thesis using r by blast
qed

subsection \<open>Closing\<close>

text \<open>While this goroutine runs the body of the once, nobody else touches the object.\<close>

definition closing :: "nat \<Rightarrow> nat \<Rightarrow> nat \<Rightarrow> ('n, 'z) world_scheme \<Rightarrow> bool" where
  "closing s x y w \<longleftrightarrow> nc_once (sconns w s) = RunsHere \<and> nc_closed (sconns w s) \<and> nc_send (sconns w s) = x \<and> nc_recv (sconns w s) = y"

lemma sconns_finish_ctx [simp]: "sconns (finish_ctx a e w) = sconns w"
  by (simp add: finish_ctx_def)

lemma sconns_deadline_set [simp]: "sconns (deadline_set a t w) = sconns w"
  using deadline_set_frame [of a t w] by auto

lemma sconns_deadline_arm [simp]: "sconns (snd (deadline_arm a w)) = sconns w"
  by (simp add: deadline_arm_def WithCancel_def WithDeadline_def new_ctx_def Let_def split: option.split)

lemma closing_env_step: "closing s x y w \<Longrightarrow> closing s x y (env_step I m e w)"
  by (cases e) (auto simp: closing_def split: option.split)

interpretation closing: go_invariant "closing s x y" for s x y
  by unfold_locales (auto simp: closing_env_step, auto simp: closing_def)

lemma sconns_take_handle [simp]: "sconns (snd (take_handle a w)) = sconns w"
  by (simp add: take_handle_def handle_take_def)

lemma take_handle_other [simp]: "b \<noteq> a \<Longrightarrow> sh (streams (snd (take_handle a w)) b) = sh (streams w b)"
  by (simp add: take_handle_def handle_take_def)

context go_invariant
begin

text \<open>The methods that end a stream keep what taking the handle and moving the deadline keeps.\<close>

lemma RecvStream_Stop_keeps:
  assumes "RecvStream_Stop I a c code w = Some (r, w')" and "G (snd (take_handle a w))"
  shows "G w'"
proof (cases "fst (take_handle a w) = 0")
  case True
  then show ?thesis using assms by (auto simp: RecvStream_Stop_def case_prod_unfold)
next
  case False
  then obtain w2 where run: "RecvStop I c (fst (take_handle a w)) code (snd (take_handle a w)) = Some (r, w2)"
    and w': "w' = free_handle (fst (take_handle a w)) w2"
    using assms(1) by (auto simp: RecvStream_Stop_def RecvFree_def case_prod_unfold bind_eq_Some_conv Let_def)
  have "G w' = G w2" by (rule same_more) (simp add: w' free_handle_def)
  then show ?thesis using RecvStop_keeps [OF run assms(2)] by simp
qed

lemma SendStream_Reset_keeps:
  assumes "SendStream_Reset I a c code w = Some (r, w')" and "G (snd (take_handle a w))"
  shows "G w'"
proof (cases "fst (take_handle a w) = 0")
  case True
  then show ?thesis using assms by (auto simp: SendStream_Reset_def case_prod_unfold)
next
  case False
  then obtain w2 where run: "SendReset I c (fst (take_handle a w)) code (snd (take_handle a w)) = Some (r, w2)"
    and w': "w' = free_handle (fst (take_handle a w)) w2"
    using assms(1) by (auto simp: SendStream_Reset_def SendFree_def case_prod_unfold bind_eq_Some_conv Let_def)
  have "G w' = G w2" by (rule same_more) (simp add: w' free_handle_def)
  then show ?thesis using SendReset_keeps [OF run assms(2)] by simp
qed

lemma SendStream_Close_keeps:
  assumes "SendStream_Close I a w = Some (r, w')" and "G (snd (take_handle a w))"
    and "G (deadline_set a pastDeadline (snd (take_handle a w)))"
  shows "G w'"
proof (cases "fst (take_handle a w) = 0")
  case True
  then show ?thesis using assms by (auto simp: SendStream_Close_def case_prod_unfold)
next
  case False
  then obtain w2 where run: "SendFinish I Background (fst (take_handle a w)) (deadline_set a pastDeadline (snd (take_handle a w))) = Some (r, w2)"
    and w': "w' = free_handle (fst (take_handle a w)) w2"
    using assms(1) by (auto simp: SendStream_Close_def SendFree_def case_prod_unfold bind_eq_Some_conv Let_def)
  have "G w' = G w2" by (rule same_more) (simp add: w' free_handle_def)
  then show ?thesis using SendFinish_keeps [OF run assms(3)] by simp
qed

end

definition sconn_closed :: "nat \<Rightarrow> nat \<Rightarrow> nat \<Rightarrow> go_error option \<Rightarrow> ('n, 'z) world_scheme \<Rightarrow> bool" where
  "sconn_closed s x y e w \<longleftrightarrow> nc_once (sconns w s) = HasRun \<and> nc_closed (sconns w s) \<and> nc_closeErr (sconns w s) = e \<and>
     nc_send (sconns w s) = x \<and> nc_recv (sconns w s) = y \<and> sh (streams w x) = 0 \<and> sh (streams w y) = 0"

text \<open>The once around a body that keeps the object and takes both handles.\<close>

lemma close_once_closes:
  fixes w :: "'n world"
  assumes run: "close_once I s f w = Some (e, w')" and new: "nc_once (sconns w s) = NotRun"
    and f: "\<And>v v'. f v = Some (e, v') \<Longrightarrow> closing s (nc_send (sconns w s)) (nc_recv (sconns w s)) v \<Longrightarrow>
      closing s (nc_send (sconns w s)) (nc_recv (sconns w s)) v' \<and> sh (streams v' (nc_send (sconns w s))) = 0 \<and>
      sh (streams v' (nc_recv (sconns w s))) = 0"
  shows "sconn_closed s (nc_send (sconns w s)) (nc_recv (sconns w s)) e w'"
proof -
  let ?w0 = "on_sconn s (\<lambda>x. x\<lparr>nc_once := RunsHere, nc_closed := True\<rparr>) w"
  obtain v where v: "f ?w0 = Some (e, v)" and w': "w' = on_sconn s (\<lambda>x. x\<lparr>nc_once := HasRun, nc_closeErr := e\<rparr>) v"
    using run new by (auto simp: close_once_def bind_eq_Some_conv)
  have "closing s (nc_send (sconns w s)) (nc_recv (sconns w s)) ?w0" by (simp add: closing_def)
  from f [OF v this] show ?thesis by (auto simp: w' sconn_closed_def closing_def)
qed

lemma handle_taken [simp]: "handle_kept a 0 w \<longleftrightarrow> sh (streams w a) = 0"
  by (simp add: handle_kept_def)

text \<open>
  C34: closing a \<^verbatim>\<open>net.Conn\<close> is final in both directions. After the \<^verbatim>\<open>Close\<close> or \<^verbatim>\<open>Reset\<close> that comes first, whatever
  others do meanwhile, neither half has a handle; every later \<^verbatim>\<open>Close\<close> or \<^verbatim>\<open>Reset\<close> returns the same error and touches
  nothing, and a read or a write transfers nothing and reports \<^verbatim>\<open>net.ErrClosed\<close>.
\<close>

theorem net_close_is_final:
  fixes w :: "'n world"
  assumes "StreamConn_Close I s w = Some (e, w') \<or> StreamConn_Reset I s c code w = Some (e, w')"
    and "nc_once (sconns w s) = NotRun" and "nc_send (sconns w s) \<noteq> nc_recv (sconns w s)"
  shows "sconn_closed s (nc_send (sconns w s)) (nc_recv (sconns w s)) e w' \<and>
    StreamConn_Close I s w' = Some (e, w') \<and> StreamConn_Reset I s c code w' = Some (e, w') \<and> CloseWrite I s w' = Some (None, w') \<and>
    (\<exists>v. StreamConn_Read I s p w' = Some ((0, p, Some NetErrClosed), v)) \<and>
    (\<exists>v. StreamConn_Write I s p w' = Some ((0, Some NetErrClosed), v))"
proof -
  define x where "x = nc_send (sconns w s)"
  define y where "y = nc_recv (sconns w s)"
  have xy: "x \<noteq> y" using assms(3) by (simp add: x_def y_def)
  note closes = close_once_closes [OF _ assms(2), folded x_def y_def]
  have stop: "closing s x y v' \<and> sh (streams v' y) = 0"
    if run: "RecvStream_Stop I y d k v = Some (r, v')" and v: "closing s x y v" for d k r and v v' :: "'n world"
  proof -
    have "closing s x y (snd (take_handle y v))" "handle_kept y 0 (snd (take_handle y v))"
      using v by (simp_all add: closing_def)
    then show ?thesis using closing.RecvStream_Stop_keeps [OF run, of s x y] handles.RecvStream_Stop_keeps [OF run, of y 0] by simp
  qed
  have send: "closing s x y v' \<and> sh (streams v' x) = 0 \<and> sh (streams v' y) = 0"
    if run: "SendStream_Close I x v = Some (r, v') \<or> SendStream_Reset I x d k v = Some (r, v')"
      and v: "closing s x y v" "sh (streams v y) = 0" for d k r and v v' :: "'n world"
  proof -
    let ?t = "snd (take_handle x v)"
    have "closing s x y ?t" "handle_kept x 0 ?t" "handle_kept y 0 ?t" using v xy by (simp_all add: closing_def)
    moreover from this have "closing s x y (deadline_set x pastDeadline ?t)" "handle_kept x 0 (deadline_set x pastDeadline ?t)"
      "handle_kept y 0 (deadline_set x pastDeadline ?t)" by (simp_all add: closing_def)
    ultimately show ?thesis using run
        closing.SendStream_Close_keeps [of I x v r v' s x y] closing.SendStream_Reset_keeps [of I x d k v r v' s x y]
        handles.SendStream_Close_keeps [of I x v r v' x 0] handles.SendStream_Reset_keeps [of I x d k v r v' x 0]
        handles.SendStream_Close_keeps [of I x v r v' y 0] handles.SendStream_Reset_keeps [of I x d k v r v' y 0]
      by auto
  qed
  from assms(1) have c: "sconn_closed s x y e w'"
  proof
    assume "StreamConn_Close I s w = Some (e, w')"
    then show ?thesis unfolding StreamConn_Close_def
    proof (rule closes)
      fix v v' :: "'n world"
      assume b: "Option.bind (RecvStream_Close I (nc_recv (sconns v s)) v) (\<lambda>(e1, w1). Option.bind (SendStream_Close I (nc_send (sconns v s)) w1)
        (\<lambda>(e2, w2). Some (errors_Join [e1, e2], w2))) = Some (e, v')" and v: "closing s x y v"
      then obtain e1 v1 e2 where 1: "RecvStream_Close I y v = Some (e1, v1)" and 2: "SendStream_Close I (nc_send (sconns v s)) v1 = Some (e2, v')"
        by (auto simp: closing_def bind_eq_Some_conv)
      have "closing s x y (deadline_set y pastDeadline v)" using v by (simp add: closing_def)
      then have "closing s x y v1 \<and> sh (streams v1 y) = 0" using stop 1 unfolding RecvStream_Close_def by blast
      then show "closing s x y v' \<and> sh (streams v' x) = 0 \<and> sh (streams v' y) = 0"
        using send [of v1] 2 v by (auto simp: closing_def)
    qed
  next
    assume "StreamConn_Reset I s c code w = Some (e, w')"
    then show ?thesis unfolding StreamConn_Reset_def
    proof (rule closes)
      fix v v' :: "'n world"
      let ?d = "deadline_set x pastDeadline (deadline_set y pastDeadline v)"
      assume b: "(let w1 = snd (SetReadDeadline (nc_recv (sconns v s)) pastDeadline v); w2 = snd (SetWriteDeadline (nc_send (sconns v s)) pastDeadline w1)
        in Option.bind (RecvStream_Stop I (nc_recv (sconns v s)) c code w2) (\<lambda>(e1, w3). Option.bind (SendStream_Reset I (nc_send (sconns v s)) c code w3)
        (\<lambda>(e2, w4). Some (errors_Join [e1, e2], w4)))) = Some (e, v')" and v: "closing s x y v"
      then obtain e1 v1 e2 where 1: "RecvStream_Stop I y c code ?d = Some (e1, v1)" and 2: "SendStream_Reset I x c code v1 = Some (e2, v')"
        by (auto simp: closing_def bind_eq_Some_conv SetReadDeadline_def SetWriteDeadline_def)
      have "closing s x y ?d" using v by (simp add: closing_def)
      then have "closing s x y v1 \<and> sh (streams v1 y) = 0" using stop 1 by blast
      then show "closing s x y v' \<and> sh (streams v' x) = 0 \<and> sh (streams v' y) = 0" using send [of v1] 2 by blast
    qed
  qed
  then have "\<exists>v. StreamConn_Read I s p w' = Some ((0, p, Some NetErrClosed), v)"
    by (subst StreamConn_Read_def, subst RecvStream_Read.simps)
      (simp add: ReadContext_def handle_get_def sconn_closed_def closeAware_def deadlineErr_def deadline_release_def case_prod_unfold Let_def)
  moreover from c have "\<exists>v. StreamConn_Write I s p w' = Some ((0, Some NetErrClosed), v)"
    unfolding StreamConn_Write_def SendStream_Write_def
    by (subst write_resume.simps)
      (simp add: WriteContext_def handle_get_def slice_from_def sconn_closed_def closeAware_def deadlineErr_def deadline_release_def case_prod_unfold Let_def go_int_def)
  ultimately show ?thesis using c
    unfolding x_def [symmetric] y_def [symmetric]
    by (simp add: sconn_closed_def StreamConn_Close_def StreamConn_Reset_def close_once_def CloseWrite_def SendStream_Close_def taken_again)
qed

subsection \<open>Examples\<close>

text \<open>A world with an open \<^verbatim>\<open>StreamConn\<close> at address 0: its send stream under handle 1, its receive stream under handle 2.\<close>

definition net_world :: "env list \<Rightarrow> echo_net world" where
  "net_world es = (let w = world_with SSend echo_start es in
     w\<lparr>reg := snd (insert_slot SRecv (reg w)),
       streams := (streams w)(0 := \<lparr>sh = 1, smu = Unlocked, sdl = no_deadline, sconn = 0\<rparr>, 1 := \<lparr>sh = 2, smu = Unlocked, sdl = no_deadline, sconn = 0\<rparr>),
       next_stream := 2,
       sconns := (sconns w)(0 := \<lparr>nc_send = 0, nc_recv = 1, nc_local = zero_id, nc_remote = zero_id, nc_once = NotRun,
         nc_closeErr = None, nc_closed = False\<rparr>), next_sconn := 1\<rparr>)"

text \<open>The same after \<^verbatim>\<open>CloseWrite\<close>: the send stream has no handle.\<close>

definition half_closed :: "echo_net world \<Rightarrow> echo_net world" where
  "half_closed w = w\<lparr>streams := (streams w)(0 := (streams w 0)\<lparr>sh := 0\<rparr>)\<rparr>"

theorem net_close_is_final_witness:
  "\<exists>e w'. StreamConn_Close echo 0 (half_closed (net_world [Go True, Ev (TaskFinishes 3), Ev PumpWaits, Ev PumpSends, Go True])) = Some (e, w')
     \<and> StreamConn_Close echo 0 w' = Some (e, w')
     \<and> (\<exists>v. StreamConn_Read echo 0 ''....'' w' = Some ((0, ''....'', Some NetErrClosed), v))"
proof -
  define w where "w = half_closed (net_world [Go True, Ev (TaskFinishes 3), Ev PumpWaits, Ev PumpSends, Go True])"
  define w0 where "w0 = on_sconn 0 (\<lambda>x. x\<lparr>nc_once := RunsHere, nc_closed := True\<rparr>) w"
  have f: "nc_once (sconns w 0) = NotRun" "nc_send (sconns w 0) = 0" "nc_recv (sconns w 0) = 1" "sh (streams w 0) = 0"
    by (simp_all add: w_def net_world_def half_closed_def Let_def)
  have "map_option fst (RecvStream_Close echo 1 w0) = Some None"
    unfolding w0_def w_def by code_simp
  then obtain v where 1: "RecvStream_Close echo 1 w0 = Some (None, v)" by auto
  have "sh (streams (snd (the (RecvStream_Close echo 1 w0))) 0) = 0" unfolding w0_def w_def by code_simp
  then have "sh (streams v 0) = 0" unfolding 1 by simp
  then have "SendStream_Close echo 0 v = Some (None, v)" by (simp add: SendStream_Close_def taken_again)
  moreover have "nc_send (sconns w0 0) = 0" "nc_recv (sconns w0 0) = 1" using f by (simp_all add: w0_def)
  ultimately obtain e w' where run: "StreamConn_Close echo 0 w = Some (e, w')"
    using 1 f(1) by (simp add: StreamConn_Close_def close_once_def w0_def [symmetric])
  have "nc_send (sconns w 0) \<noteq> nc_recv (sconns w 0)" using f by simp
  from net_close_is_final [OF disjI1 [OF run] f(1) this, of Background 0 "''....''"] run show ?thesis unfolding w_def by blast
qed

theorem net_read_exact_witness:
  "\<exists>w'. StreamConn_Read echo 0 ''........'' ((stream_world SRecv None echo_start attempt)\<lparr>sconns := \<lambda>_. \<lparr>nc_send = 1, nc_recv = 0,
      nc_local = zero_id, nc_remote = zero_id, nc_once = NotRun, nc_closeErr = None, nc_closed = False\<rparr>\<rparr>) =
      Some ((5, ''hello...'', None), w') \<and> snd (net w') 1 = ''hello''"
proof -
  define w where "w = (stream_world SRecv None echo_start attempt)\<lparr>sconns := \<lambda>_. \<lparr>nc_send = 1, nc_recv = 0,
      nc_local = zero_id, nc_remote = zero_id, nc_once = NotRun, nc_closeErr = None, nc_closed = False\<rparr>\<rparr>"
  define w1 where "w1 = snd (deadline_arm 0 w)"
  have arm: "deadline_arm 0 w = ((Ctx 0, 0, 0), w1)" unfolding w1_def w_def
    by (simp add: deadline_arm_def stream_world_def world_with_def world_init_def no_deadline_def WithCancel_def new_ctx_def Let_def)
  have "map_option fst (ReadContext echo 0 (Ctx 0) ''........'' w1) = Some (5, ''hello...'', None)"
    unfolding w1_def w_def by code_simp
  then obtain w2 where rd: "ReadContext echo 0 (Ctx 0) ''........'' w1 = Some ((5, ''hello...'', None), w2)" by auto
  have "RecvStream_Read echo 0 ''........'' w = Some ((5, ''hello...'', None), deadline_release 0 (0, 0) w2)"
    by (subst RecvStream_Read.simps) (simp add: arm rd)
  moreover have "nc_recv (sconns w 0) = 0" by (simp add: w_def)
  ultimately obtain v where run: "StreamConn_Read echo 0 ''........'' w = Some ((5, ''hello...'', None), v)"
    by (simp add: StreamConn_Read_def)
  have "streaming (not_read 1) 0 1 (stream_world SRecv None echo_start attempt)" by (rule streaming_stream_world) simp_all
  then have st: "streaming (not_read 1) 0 1 w"
    by (simp add: streaming_def w_def world_ok_def room_def quiet_def clean_def ctx_ok_def handle_kept_def)
  have h: "sh (streams w 0) = 1" "net w = echo_start" "nc_recv (sconns w 0) = 0" by (simp_all add: w_def)
  from net_read_exact [OF run echo_read_law, of 0] st h run show ?thesis unfolding w_def
    by (auto simp: echo_start_def)
qed

end
