(* ===== verification/Listener.thy ===== *)
theory Listener
  imports Net_Conn
begin

text \<open>
  The listener of an endpoint (\<^verbatim>\<open>Listener\<close> of \<^verbatim>\<open>netconn.go\<close>): one goroutine accepts connections, one
  goroutine per connection accepts its streams and offers them, and any number of callers take what
  is offered. The goroutines share the context, the error and the unbuffered channel, so the
  component is a step relation: a step is what one goroutine does without giving the others a
  chance to interfere, and every interleaving is a path.

  Connections and streams are numbered in the order in which the calls that make them return. What
  \<^verbatim>\<open>Endpoint.Accept\<close> and \<^verbatim>\<open>Conn.AcceptConn\<close> return is any value of their types, an argument of the step.
\<close>

subsection \<open>State\<close>

text \<open>
  \<^verbatim>\<open>Authorize\<close> is nil or a function that answers with the text of its error. It runs once per
  connection, so what it answers is a function of the connection.
\<close>

record ListenOptions =
  Authorize :: "(nat \<Rightarrow> string option) option"

text \<open>
  Where the accept goroutine is: in \<^verbatim>\<open>Endpoint.Accept\<close>; before the lock of \<^verbatim>\<open>fail\<close>; inside it, with the
  error it is going to store; before \<^verbatim>\<open>l.Close()\<close>; gone.
\<close>

datatype accept_pc = Accepting | Failing go_error | Storing go_error | Unlocked_fail | Gone

text \<open>
  Where the goroutine of a connection is: before \<^verbatim>\<open>Authorize\<close>; before \<^verbatim>\<open>CloseWithError\<close> with the text of
  the refusal; in \<^verbatim>\<open>AcceptConn\<close>; at the select with a stream; before \<^verbatim>\<open>stream.Close()\<close>; gone.
\<close>

datatype serve_pc = Authorizing | Refusing string | Serving | Offering nat | Dropping nat | Served

text \<open>
  \<open>ctx_done\<close> and \<open>close_ran\<close> are the context and the once, \<open>stored\<close> is \<^verbatim>\<open>l.err\<close>. The last four fields are
  the history: the streams accepted with their connections, those callers got, those closed, and
  the refusals sent.
\<close>

record listener =
  opts :: ListenOptions
  ctx_done :: bool
  close_ran :: bool
  stored :: "go_error option"
  accept_pc :: accept_pc
  serve_pc :: "nat \<rightharpoonup> serve_pc"
  next_peer :: nat
  accepted :: "(nat \<times> nat) list"
  delivered :: "nat list"
  dropped :: "nat list"
  refusals :: "(nat \<times> u64 \<times> string) list"

definition refusedCode :: u64 where "refusedCode = 1"

text \<open>\<^verbatim>\<open>Endpoint.Listener\<close>\<close>

definition new_Listener :: "ListenOptions \<Rightarrow> listener" where
  "new_Listener os = \<lparr>opts = os, ctx_done = False, close_ran = False, stored = None, accept_pc = Accepting, serve_pc = Map.empty,
     next_peer = 0, accepted = [], delivered = [], dropped = [], refusals = []\<rparr>"

subsection \<open>Closing and the error\<close>

definition Listener_Close :: "listener \<Rightarrow> listener" where
  "Listener_Close l = (if close_ran l then l else l\<lparr>close_ran := True, ctx_done := True\<rparr>)"

definition err_locked :: "listener \<Rightarrow> bool" where
  "err_locked l \<longleftrightarrow> (case accept_pc l of Storing _ \<Rightarrow> True | _ \<Rightarrow> False)"

definition acceptErr :: "listener \<Rightarrow> go_error" where
  "acceptErr l = (case stored l of Some e \<Rightarrow> e | None \<Rightarrow> NetErrClosed)"

text \<open>
  \<^verbatim>\<open>fail\<close> in three steps: taking the lock and choosing the error, storing it and releasing the lock,
  closing. Only the accept goroutine calls it, once.
\<close>

definition fail_lock :: "go_error \<Rightarrow> listener \<Rightarrow> listener" where
  "fail_lock err l = (if stored l = None
     then l\<lparr>accept_pc := Storing (if ctx_done l then NetErrClosed else err)\<rparr> else l\<lparr>accept_pc := Unlocked_fail\<rparr>)"

definition fail_store :: "go_error \<Rightarrow> listener \<Rightarrow> listener" where
  "fail_store err l = l\<lparr>stored := Some err, accept_pc := Unlocked_fail\<rparr>"

definition fail_close :: "listener \<Rightarrow> listener" where
  "fail_close l = Listener_Close (l\<lparr>accept_pc := Gone\<rparr>)"

subsection \<open>The goroutines\<close>

definition goes :: "nat \<Rightarrow> serve_pc \<Rightarrow> listener \<Rightarrow> listener" where
  "goes c pc l = l\<lparr>serve_pc := (serve_pc l)(c \<mapsto> pc)\<rparr>"

text \<open>One turn of \<^verbatim>\<open>accept\<close>'s loop, with what \<^verbatim>\<open>Endpoint.Accept\<close> returned: a failure or the next connection.\<close>

definition accept_turn :: "go_error option \<Rightarrow> listener \<Rightarrow> listener" where
  "accept_turn r l = (case r of
     Some err \<Rightarrow> if ctx_done l \<or> errors_Is err (Sentinel ErrClosed) then l\<lparr>accept_pc := Failing err\<rparr> else l
   | None \<Rightarrow> goes (next_peer l) Authorizing (l\<lparr>next_peer := Suc (next_peer l)\<rparr>))"

definition serve_authorize :: "nat \<Rightarrow> listener \<Rightarrow> listener" where
  "serve_authorize c l = goes c (case Authorize (opts l) of
       None \<Rightarrow> Serving | Some f \<Rightarrow> (case f c of None \<Rightarrow> Serving | Some msg \<Rightarrow> Refusing msg)) l"

definition serve_refuse :: "nat \<Rightarrow> string \<Rightarrow> listener \<Rightarrow> listener" where
  "serve_refuse c msg l = goes c Served (l\<lparr>refusals := refusals l @ [(c, refusedCode, msg)]\<rparr>)"

text \<open>What \<^verbatim>\<open>AcceptConn\<close> returned: a failure or the next stream.\<close>

definition serve_turn :: "nat \<Rightarrow> go_error option \<Rightarrow> listener \<Rightarrow> listener" where
  "serve_turn c r l = (case r of
     Some err \<Rightarrow> goes c Served l
   | None \<Rightarrow> (let s = length (accepted l) in goes c (Offering s) (l\<lparr>accepted := accepted l @ [(c, s)]\<rparr>)))"

text \<open>
  The two cases of the select of \<^verbatim>\<open>serve\<close>, when both are ready either of them: a caller takes the stream off
  the channel, or the context is done and the stream is closed.
\<close>

definition serve_deliver :: "nat \<Rightarrow> nat \<Rightarrow> listener \<Rightarrow> listener" where
  "serve_deliver c s l = goes c Serving (l\<lparr>delivered := delivered l @ [s]\<rparr>)"

definition serve_drop :: "nat \<Rightarrow> nat \<Rightarrow> listener \<Rightarrow> listener" where
  "serve_drop c s l = goes c Served (l\<lparr>dropped := dropped l @ [s]\<rparr>)"

text \<open>
  \<^verbatim>\<open>Listener.Accept\<close> of one caller, when it gets to run: it takes the stream that the goroutine of \<open>c\<close>
  offers, or, once the context is done, the error, for which it needs the lock. When both cases
  are ready \<open>b\<close> decides. The value is \<open>None\<close> where the caller has to wait.
\<close>

definition Listener_Accept :: "nat \<Rightarrow> bool \<Rightarrow> listener \<Rightarrow> ((go_error + nat) \<times> listener) option" where
  "Listener_Accept c b l = (case serve_pc l c of
       Some (Offering s) \<Rightarrow> if b \<or> \<not> ctx_done l then Some (Inr s, serve_deliver c s l)
         else if err_locked l then None else Some (Inl (acceptErr l), l)
     | _ \<Rightarrow> if ctx_done l \<and> \<not> err_locked l then Some (Inl (acceptErr l), l) else None)"

definition Listener_Addr :: "nat \<Rightarrow> ('n, 'z) world_scheme \<Rightarrow> Addr" where
  "Listener_Addr a w = \<lparr>addr_ID = Endpoint_ID a w\<rparr>"

subsection \<open>Steps\<close>

text \<open>What a step shows to the outside.\<close>

datatype label = Internal_step | Returns "go_error + nat"

inductive listener_step :: "listener \<Rightarrow> label \<Rightarrow> listener \<Rightarrow> bool" where
  turn: "accept_pc l = Accepting \<Longrightarrow> listener_step l Internal_step (accept_turn r l)"
| lock: "accept_pc l = Failing e \<Longrightarrow> listener_step l Internal_step (fail_lock e l)"
| store: "accept_pc l = Storing e \<Longrightarrow> listener_step l Internal_step (fail_store e l)"
| close_failed: "accept_pc l = Unlocked_fail \<Longrightarrow> listener_step l Internal_step (fail_close l)"
| authorize: "serve_pc l c = Some Authorizing \<Longrightarrow> listener_step l Internal_step (serve_authorize c l)"
| refuse: "serve_pc l c = Some (Refusing msg) \<Longrightarrow> listener_step l Internal_step (serve_refuse c msg l)"
| accept_stream: "serve_pc l c = Some Serving \<Longrightarrow> listener_step l Internal_step (serve_turn c r l)"
| context_done: "serve_pc l c = Some (Offering s) \<Longrightarrow> ctx_done l \<Longrightarrow> listener_step l Internal_step (goes c (Dropping s) l)"
| drop_stream: "serve_pc l c = Some (Dropping s) \<Longrightarrow> listener_step l Internal_step (serve_drop c s l)"
| caller: "Listener_Accept c b l = Some (r, l') \<Longrightarrow> listener_step l (Returns r) l'"
| closes: "listener_step l Internal_step (Listener_Close l)"

inductive_cases listener_stepE: "listener_step l a l'"

inductive listener_run :: "listener \<Rightarrow> label list \<Rightarrow> listener \<Rightarrow> bool" where
  none: "listener_run l [] l"
| more: "listener_run l as l' \<Longrightarrow> listener_step l' a l'' \<Longrightarrow> listener_run l (as @ [a]) l''"

definition listener_reachable :: "ListenOptions \<Rightarrow> listener \<Rightarrow> bool" where
  "listener_reachable os l \<longleftrightarrow> (\<exists>as. listener_run (new_Listener os) as l)"

end
