(* ===== verification/Listener_Properties.thy ===== *)
theory Listener_Properties
  imports Listener
begin

text \<open>
  What the listener promises, for every interleaving of its goroutines and callers: which streams
  reach the callers and in which order, what refused peers get, and which error \<^verbatim>\<open>Accept\<close> reports.
\<close>

subsection \<open>Invariants of a listener\<close>

text \<open>What holds of a new listener and is kept by every step holds on every path.\<close>

locale listener_invariant =
  fixes Inv :: "ListenOptions \<Rightarrow> listener \<Rightarrow> bool"
  assumes init: "Inv os (new_Listener os)"
    and step: "Inv os l \<Longrightarrow> listener_step l a l' \<Longrightarrow> Inv os l'"
begin

lemma run: "listener_run l as l' \<Longrightarrow> Inv os l \<Longrightarrow> Inv os l'"
  by (induction rule: listener_run.induct) (auto intro: step)

lemma reachable: "listener_reachable os l \<Longrightarrow> Inv os l"
  unfolding listener_reachable_def using run init by blast

end

lemma listener_run_append: "listener_run l bs l' \<Longrightarrow> listener_run k as l \<Longrightarrow> listener_run k (as @ bs) l'"
  by (induction rule: listener_run.induct) (auto intro: listener_run.more simp flip: append_assoc)

lemma listener_step_run: "listener_step l a l' \<Longrightarrow> listener_run l [a] l'"
  using listener_run.more [OF listener_run.none] by force

text \<open>Most steps move one goroutine and add to the history.\<close>

lemma goes_simps [simp]: "serve_pc (goes c pc l) = (serve_pc l)(c \<mapsto> pc)" "accepted (goes c pc l) = accepted l"
  "delivered (goes c pc l) = delivered l" "dropped (goes c pc l) = dropped l" "refusals (goes c pc l) = refusals l"
  "opts (goes c pc l) = opts l" "ctx_done (goes c pc l) = ctx_done l" "stored (goes c pc l) = stored l"
  "accept_pc (goes c pc l) = accept_pc l" "next_peer (goes c pc l) = next_peer l" "close_ran (goes c pc l) = close_ran l"
  by (simp_all add: goes_def)

lemmas listener_defs = accept_turn_def fail_lock_def fail_store_def fail_close_def Listener_Close_def serve_authorize_def
  serve_refuse_def serve_turn_def serve_deliver_def serve_drop_def Let_def

subsection \<open>Streams\<close>

definition streams_of :: "nat \<Rightarrow> listener \<Rightarrow> nat list" where
  "streams_of c l = map snd (filter (\<lambda>(c', s). c' = c) (accepted l))"

definition held :: "nat \<Rightarrow> listener \<Rightarrow> nat list" where
  "held c l = (case serve_pc l c of Some (Offering s) \<Rightarrow> [s] | Some (Dropping s) \<Rightarrow> [s] | _ \<Rightarrow> [])"

definition authorized :: "ListenOptions \<Rightarrow> nat \<Rightarrow> bool" where
  "authorized os c \<longleftrightarrow> (case Authorize os of None \<Rightarrow> True | Some f \<Rightarrow> f c = None)"

definition refused_with :: "ListenOptions \<Rightarrow> nat \<Rightarrow> string \<Rightarrow> bool" where
  "refused_with os c msg \<longleftrightarrow> (case Authorize os of None \<Rightarrow> False | Some f \<Rightarrow> f c = Some msg)"

text \<open>What is known of a connection in each state of its goroutine, from its streams and the refusals sent.\<close>

definition serve_ok :: "ListenOptions \<Rightarrow> nat \<Rightarrow> bool \<Rightarrow> bool \<Rightarrow> bool \<Rightarrow> serve_pc option \<Rightarrow> bool" where
  "serve_ok os c none unrefused d pc \<longleftrightarrow> (case pc of
     None \<Rightarrow> none \<and> unrefused
   | Some Authorizing \<Rightarrow> none \<and> unrefused
   | Some (Refusing msg) \<Rightarrow> none \<and> unrefused \<and> refused_with os c msg
   | Some Serving \<Rightarrow> authorized os c \<and> unrefused
   | Some (Offering _) \<Rightarrow> authorized os c \<and> unrefused
   | Some (Dropping _) \<Rightarrow> authorized os c \<and> unrefused \<and> d
   | Some Served \<Rightarrow> authorized os c \<or> none \<and> \<not> unrefused)"

definition serve_inv :: "ListenOptions \<Rightarrow> listener \<Rightarrow> bool" where
  "serve_inv os l \<longleftrightarrow> opts l = os \<and> (\<forall>c \<ge> next_peer l. serve_pc l c = None) \<and>
     (\<forall>c. serve_ok os c (streams_of c l = []) (c \<notin> fst ` set (refusals l)) (ctx_done l) (serve_pc l c)) \<and>
     distinct (map fst (refusals l)) \<and> (\<forall>(c, code, msg) \<in> set (refusals l). code = refusedCode \<and> refused_with os c msg) \<and>
     (dropped l \<noteq> [] \<longrightarrow> ctx_done l)"

lemma streams_of_simps [simp]: "streams_of c (l\<lparr>accepted := accepted l @ [(d, s)]\<rparr>) = streams_of c l @ (if c = d then [s] else [])"
  "streams_of c (goes d pc l) = streams_of c l" "streams_of c (l\<lparr>next_peer := k\<rparr>) = streams_of c l"
  "streams_of c (l\<lparr>accept_pc := q\<rparr>) = streams_of c l" "streams_of c (l\<lparr>stored := e\<rparr>) = streams_of c l"
  "streams_of c (l\<lparr>refusals := rs\<rparr>) = streams_of c l" "streams_of c (l\<lparr>delivered := ds\<rparr>) = streams_of c l"
  "streams_of c (l\<lparr>dropped := ds\<rparr>) = streams_of c l" "streams_of c (l\<lparr>close_ran := b, ctx_done := d'\<rparr>) = streams_of c l"
  by (simp_all add: streams_of_def)

lemma serve_ok_mono [intro]: "serve_ok os c n u d pc \<Longrightarrow> serve_ok os c n u True pc"
  by (auto simp: serve_ok_def split: option.splits serve_pc.splits)

lemma serve_ok_simps [simp]:
  "serve_ok os c n u d None \<longleftrightarrow> n \<and> u" "serve_ok os c n u d (Some Authorizing) \<longleftrightarrow> n \<and> u"
  "serve_ok os c n u d (Some (Refusing msg)) \<longleftrightarrow> n \<and> u \<and> refused_with os c msg"
  "serve_ok os c n u d (Some Serving) \<longleftrightarrow> authorized os c \<and> u" "serve_ok os c n u d (Some (Offering s)) \<longleftrightarrow> authorized os c \<and> u"
  "serve_ok os c n u d (Some (Dropping s)) \<longleftrightarrow> authorized os c \<and> u \<and> d" "serve_ok os c n u d (Some Served) \<longleftrightarrow> authorized os c \<or> n \<and> \<not> u"
  by (simp_all add: serve_ok_def)

lemma serve_invD:
  assumes "serve_inv os l"
  shows "opts l = os" "serve_ok os c (streams_of c l = []) (c \<notin> fst ` set (refusals l)) (ctx_done l) (serve_pc l c)"
    "serve_pc l c = Some pc \<Longrightarrow> c < next_peer l" "serve_pc l (next_peer l) = None"
  using assms by (auto simp: serve_inv_def not_less [symmetric])

lemma serve_inv_goes:
  assumes "serve_inv os l" and "serve_pc l c \<noteq> None \<or> c < next_peer l"
    and "serve_ok os c (streams_of c l = []) (c \<notin> fst ` set (refusals l)) (ctx_done l) (Some pc)"
  shows "serve_inv os (goes c pc l)"
  using assms by (auto simp: serve_inv_def not_less [symmetric])

lemma serve_inv_close: "serve_inv os l \<Longrightarrow> serve_inv os (Listener_Close l)"
  by (auto simp: serve_inv_def Listener_Close_def)

lemma serve_inv_step:
  assumes inv: "serve_inv os l" and "listener_step l a l'"
  shows "serve_inv os l'"
  using assms(2)
proof cases
  case (turn r)
  show ?thesis
  proof (cases r)
    case None
    have "serve_inv os (l\<lparr>next_peer := Suc (next_peer l)\<rparr>)" using inv by (simp add: serve_inv_def)
    then show ?thesis using serve_invD(4) [OF inv] serve_invD(2) [OF inv, of "next_peer l"] by (auto simp: turn None accept_turn_def intro: serve_inv_goes)
  qed (use turn inv in \<open>auto simp: accept_turn_def serve_inv_def\<close>)
next
  case (authorize c)
  then show ?thesis using inv serve_invD(1,4) [OF inv] serve_invD(2,3) [OF inv, of c]
    by (auto simp: serve_authorize_def authorized_def refused_with_def intro!: serve_inv_goes split: option.split)
next
  case (refuse c msg)
  let ?l = "l\<lparr>refusals := refusals l @ [(c, refusedCode, msg)]\<rparr>"
  show ?thesis using refuse inv serve_invD(1,4) [OF inv] serve_invD(2,3) [OF inv, of c]
    by (auto simp: serve_refuse_def serve_inv_def not_less [symmetric])
next
  case (accept_stream c r)
  then show ?thesis using inv serve_invD(1,4) [OF inv] serve_invD(2,3) [OF inv, of c]
    by (auto simp: serve_turn_def serve_inv_def not_less [symmetric] Let_def split: option.split)
next
  case (context_done c s)
  then show ?thesis using serve_invD(1,4) [OF inv] serve_invD(2,3) [OF inv, of c] inv by (auto intro: serve_inv_goes)
next
  case (drop_stream c s)
  then show ?thesis using inv serve_invD(1,4) [OF inv] serve_invD(2,3) [OF inv, of c]
    by (auto simp: serve_drop_def serve_inv_def not_less [symmetric])
next
  case (caller c b r)
  show ?thesis
  proof (cases "\<exists>s. serve_pc l c = Some (Offering s) \<and> l' = serve_deliver c s l")
    case True
    then obtain s where pc: "serve_pc l c = Some (Offering s)" and l': "l' = serve_deliver c s l" by blast
    have "serve_inv os (l\<lparr>delivered := delivered l @ [s]\<rparr>)" using inv by (simp add: serve_inv_def)
    then show ?thesis using serve_invD(2) [OF inv, of c] by (auto simp: l' pc serve_deliver_def intro!: serve_inv_goes)
  qed (use caller inv in \<open>auto simp: Listener_Accept_def split: option.splits serve_pc.splits if_splits\<close>)
qed (use inv serve_inv_close [OF inv] in \<open>auto simp: fail_lock_def fail_store_def fail_close_def serve_inv_def Listener_Close_def\<close>)

interpretation serve: listener_invariant serve_inv
  by unfold_locales (simp add: serve_inv_def new_Listener_def streams_of_def, rule serve_inv_step)

subsection \<open>The order of the streams\<close>

definition mine :: "nat \<Rightarrow> listener \<Rightarrow> nat list \<Rightarrow> nat list" where
  "mine c l = filter (\<lambda>s. s \<in> set (streams_of c l))"

definition order_inv :: "ListenOptions \<Rightarrow> listener \<Rightarrow> bool" where
  "order_inv os l \<longleftrightarrow> serve_inv os l \<and> map snd (accepted l) = [0..<length (accepted l)] \<and>
     set (delivered l @ dropped l) \<subseteq> {0..<length (accepted l)} \<and> distinct (delivered l @ dropped l) \<and>
     (\<forall>c. streams_of c l = mine c l (delivered l) @ mine c l (dropped l) @ held c l) \<and>
     (\<forall>c. mine c l (dropped l) \<noteq> [] \<longrightarrow> serve_pc l c = Some Served \<and> length (mine c l (dropped l)) = 1)"

lemma order_invD:
  assumes "order_inv os l"
  shows "serve_inv os l" "map snd (accepted l) = [0..<length (accepted l)]"
    "set (delivered l @ dropped l) \<subseteq> {0..<length (accepted l)}" "distinct (delivered l @ dropped l)"
    "streams_of c l = mine c l (delivered l) @ mine c l (dropped l) @ held c l"
    "mine c l (dropped l) \<noteq> [] \<Longrightarrow> serve_pc l c = Some Served \<and> length (mine c l (dropped l)) = 1"
  using assms by (auto simp: order_inv_def)

lemma mine_append [simp]: "mine c l (xs @ ys) = mine c l xs @ mine c l ys"
  by (simp add: mine_def)

lemma streams_of_below:
  assumes "map snd (accepted l) = [0..<n]" and "s \<in> set (streams_of c l)"
  shows "s < n"
proof -
  from assms(2) have "s \<in> set (map snd (accepted l))" by (force simp: streams_of_def)
  then show ?thesis unfolding assms(1) by simp
qed

lemma streams_of_unique:
  assumes "map snd (accepted l) = [0..<n]" and "s \<in> set (streams_of c l)" and "s \<in> set (streams_of d l)"
  shows "c = d"
proof -
  have "inj_on snd (set (accepted l))" using assms(1) by (metis distinct_map distinct_upt)
  then show ?thesis using assms(2,3) by (auto simp: streams_of_def inj_on_def)
qed

lemma streams_of_distinct: "map snd (accepted l) = [0..<n] \<Longrightarrow> distinct (streams_of c l)"
  unfolding streams_of_def by (metis distinct_map_filter distinct_upt)

lemma mine_other:
  assumes "map snd (accepted l) = [0..<n]" and "s \<in> set (streams_of c l)"
  shows "mine d l [s] = (if c = d then [s] else [])"
proof (cases "c = d")
  case False
  then have "s \<notin> set (streams_of d l)" using streams_of_unique [OF assms] by blast
  then show ?thesis using False by (simp add: mine_def)
qed (use assms(2) in \<open>simp add: mine_def\<close>)

text \<open>Steps that neither accept nor hand on a stream keep the order.\<close>

lemma order_inv_same:
  assumes "order_inv os l" and "serve_inv os l'" and "accepted l' = accepted l" "delivered l' = delivered l" "dropped l' = dropped l"
    and "\<And>c. held c l' = held c l" and "\<And>c. serve_pc l c = Some Served \<Longrightarrow> serve_pc l' c = Some Served"
  shows "order_inv os l'"
proof -
  have same: "streams_of c l' = streams_of c l" for c using assms(3) by (simp add: streams_of_def)
  then have mine: "mine c l' = mine c l" for c by (simp add: mine_def)
  have "serve_pc l' c = Some Served \<and> length (mine c l (dropped l)) = 1" if "mine c l (dropped l) \<noteq> []" for c
    using order_invD(6) [OF assms(1) that] assms(7) by simp
  moreover have "streams_of c l = mine c l (delivered l) @ mine c l (dropped l) @ held c l" for c
    by (rule order_invD(5) [OF assms(1)])
  ultimately show ?thesis using assms(2) order_invD(2-4) [OF assms(1)] unfolding order_inv_def assms(3-6) same mine
    by (intro conjI allI impI) (assumption | blast)+
qed

lemma held_goes: "held d (goes c pc l) = (if d = c then (case pc of Offering s \<Rightarrow> [s] | Dropping s \<Rightarrow> [s] | _ \<Rightarrow> []) else held d l)"
  by (simp add: held_def split: serve_pc.splits)

lemma mine_goes [simp]: "mine d (goes c pc l) = mine d l" "mine d (l\<lparr>delivered := xs\<rparr>) = mine d l" "mine d (l\<lparr>dropped := xs\<rparr>) = mine d l"
  by (simp_all add: mine_def)

lemma moved_simps [simp]:
  "streams_of d (serve_deliver c s l) = streams_of d l" "streams_of d (serve_drop c s l) = streams_of d l"
  "mine d (serve_deliver c s l) = mine d l" "mine d (serve_drop c s l) = mine d l"
  "delivered (serve_deliver c s l) = delivered l @ [s]" "delivered (serve_drop c s l) = delivered l"
  "dropped (serve_deliver c s l) = dropped l" "dropped (serve_drop c s l) = dropped l @ [s]"
  "held d (serve_deliver c s l) = (if d = c then [] else held d l)" "held d (serve_drop c s l) = (if d = c then [] else held d l)"
  "accepted (serve_deliver c s l) = accepted l" "accepted (serve_drop c s l) = accepted l"
  "serve_pc (serve_deliver c s l) = (serve_pc l)(c \<mapsto> Serving)" "serve_pc (serve_drop c s l) = (serve_pc l)(c \<mapsto> Served)"
  by (simp_all add: serve_deliver_def serve_drop_def held_goes) (simp_all add: held_def)

lemma order_inv_moved:
  assumes inv: "order_inv os l" and inv': "serve_inv os l'" and held: "held c l = [s]"
    and l': "l' = serve_deliver c s l \<or> l' = serve_drop c s l"
  shows "order_inv os l'"
proof -
  note up = order_invD(2) [OF inv] and split = order_invD(5) [OF inv]
  have s: "s \<in> set (streams_of c l)" using split [of c] held by simp
  have "distinct (mine c l (delivered l) @ mine c l (dropped l) @ [s])"
    using streams_of_distinct [OF up, of c] unfolding split [of c] held .
  then have new: "s \<notin> set (delivered l)" "s \<notin> set (dropped l)" using s by (simp_all add: mine_def)
  have pc: "serve_pc l c \<noteq> Some Served" using held by (auto simp: held_def)
  then have undropped: "mine c l (dropped l) = []" using order_invD(6) [OF inv] by blast
  have below: "s < length (accepted l)" by (rule streams_of_below [OF up s])
  have "streams_of d l' = mine d l' (delivered l') @ mine d l' (dropped l') @ held d l'" for d
  proof -
    have st: "streams_of d l' = streams_of d l" using l' by auto
    show ?thesis unfolding st split [of d] using l' mine_other [OF up s, of d] undropped held by auto
  qed
  moreover have "serve_pc l' d = Some Served \<and> length (mine d l' (dropped l')) = 1" if "mine d l' (dropped l') \<noteq> []" for d
    using that l' order_invD(6) [OF inv, of d] mine_other [OF up s, of d] undropped pc by (auto split: if_splits)
  moreover have "distinct (delivered l' @ dropped l')" "set (delivered l' @ dropped l') \<subseteq> {0..<length (accepted l')}"
    using order_invD(3,4) [OF inv] new below l' by auto
  moreover have "map snd (accepted l') = [0..<length (accepted l')]" using up l' by auto
  ultimately show ?thesis using inv' unfolding order_inv_def by blast
qed

lemma order_inv_accepts:
  assumes inv: "order_inv os l" and inv': "serve_inv os (serve_turn c None l)" and pc: "serve_pc l c = Some Serving"
  shows "order_inv os (serve_turn c None l)"
proof -
  let ?n = "length (accepted l)" and ?l = "serve_turn c None l"
  note up = order_invD(2) [OF inv]
  have st: "streams_of d ?l = streams_of d l @ (if d = c then [?n] else [])" for d by (simp add: serve_turn_def Let_def)
  have "mine d ?l xs = mine d l xs" if "set xs \<subseteq> {0..<?n}" for d xs
    unfolding mine_def st using that by (intro filter_cong) auto
  then have mine: "mine d ?l (delivered l) = mine d l (delivered l)" "mine d ?l (dropped l) = mine d l (dropped l)" for d
    using order_invD(3) [OF inv] by simp_all
  have same: "delivered ?l = delivered l" "dropped ?l = dropped l" "accepted ?l = accepted l @ [(c, ?n)]"
    by (simp_all add: serve_turn_def Let_def)
  have held: "held d ?l = (if d = c then [?n] else held d l)" for d by (simp add: serve_turn_def Let_def held_goes) (simp add: held_def)
  have undropped: "mine c l (dropped l) = []" using order_invD(6) [OF inv, of c] pc by force
  have "held c l = []" by (simp add: held_def pc)
  then have "streams_of d ?l = mine d ?l (delivered ?l) @ mine d ?l (dropped ?l) @ held d ?l" for d
    unfolding st same mine held order_invD(5) [OF inv, of d] using undropped by auto
  moreover have "serve_pc ?l d = Some Served \<and> length (mine d ?l (dropped ?l)) = 1" if "mine d ?l (dropped ?l) \<noteq> []" for d
  proof -
    have "d \<noteq> c" using that undropped unfolding same mine by auto
    then show ?thesis using that order_invD(6) [OF inv, of d] unfolding same mine by (simp add: serve_turn_def Let_def)
  qed
  moreover have "set (delivered ?l @ dropped ?l) \<subseteq> {0..<length (accepted ?l)}" using order_invD(3) [OF inv] unfolding same by auto
  moreover have "map snd (accepted ?l) = [0..<length (accepted ?l)]" unfolding same using up by simp
  ultimately show ?thesis using inv' order_invD(4) [OF inv] unfolding order_inv_def same by blast
qed

lemma held_simps [simp]: "held c (l\<lparr>accept_pc := q\<rparr>) = held c l" "held c (l\<lparr>stored := e\<rparr>) = held c l" "held c (l\<lparr>next_peer := k\<rparr>) = held c l"
  "held c (l\<lparr>refusals := rs\<rparr>) = held c l" "held c (l\<lparr>close_ran := b, ctx_done := d'\<rparr>) = held c l"
  by (simp_all add: held_def)

lemma held_pc: "serve_pc l c = pc \<Longrightarrow> held c l = (case pc of Some (Offering s) \<Rightarrow> [s] | Some (Dropping s) \<Rightarrow> [s] | _ \<Rightarrow> [])"
  by (simp add: held_def)

lemma order_inv_step:
  assumes inv: "order_inv os l" and step: "listener_step l a l'"
  shows "order_inv os l'"
proof -
  have inv': "serve_inv os l'" using serve_inv_step order_invD(1) [OF inv] step by blast
  note same = order_inv_same [OF inv inv']
  show ?thesis
    using step
  proof cases
    case (turn r)
    have "serve_pc l (next_peer l) = None" by (rule serve_invD(4)) (rule order_invD(1) [OF inv])
    then show ?thesis using turn
      by (intro same) (auto simp: accept_turn_def held_goes held_pc split: option.splits)
  next
    case (accept_stream c r)
    show ?thesis
    proof (cases r)
      case None
      then show ?thesis using accept_stream order_inv_accepts [OF inv] inv' by simp
    next
      case (Some err)
      then show ?thesis using accept_stream by (intro same) (auto simp: serve_turn_def held_goes held_pc)
    qed
  next
    case (drop_stream c s)
    then have "held c l = [s]" by (simp add: held_pc)
    then show ?thesis using order_inv_moved [OF inv inv'] drop_stream by blast
  next
    case (caller c b r)
    show ?thesis
    proof (cases "\<exists>s. serve_pc l c = Some (Offering s) \<and> l' = serve_deliver c s l")
      case True
      then obtain s where "serve_pc l c = Some (Offering s)" "l' = serve_deliver c s l" by blast
      then show ?thesis using order_inv_moved [OF inv inv', of c s] held_pc [of l c] by auto
    next
      case False
      then have "l' = l" using caller by (auto simp: Listener_Accept_def split: option.splits serve_pc.splits if_splits)
      then show ?thesis using inv by simp
    qed
  qed (intro same; auto simp: fail_lock_def fail_store_def fail_close_def Listener_Close_def serve_authorize_def serve_refuse_def
      held_goes held_pc split: option.split)+
qed

interpretation order: listener_invariant order_inv
  by unfold_locales
    (simp add: order_inv_def serve.init, simp add: new_Listener_def streams_of_def mine_def held_def, rule order_inv_step)

text \<open>
  C35: every stream a peer opens reaches at most one caller of \<^verbatim>\<open>Accept\<close>, and the callers get the streams of a
  connection in the order in which they came, without a gap: at most the last one is still held by the
  connection's goroutine, or was closed because the listener was. Only connections that \<^verbatim>\<open>Authorize\<close> let
  through ever have a stream accepted; a refused one is closed once, with the code 1 and the text of the
  refusal.
\<close>

theorem listener_streams:
  assumes "listener_reachable os l"
  shows "(\<forall>c. \<exists>last. streams_of c l = filter (\<lambda>s. s \<in> set (streams_of c l)) (delivered l) @ last \<and>
      (last = [] \<or> (\<exists>s. last = [s] \<and> (held c l = [s] \<or> ctx_done l \<and> s \<in> set (dropped l))))) \<and>
    distinct (delivered l) \<and> set (delivered l) \<subseteq> snd ` set (accepted l) \<and>
    (\<forall>c. streams_of c l \<noteq> [] \<longrightarrow> authorized os c) \<and>
    (\<forall>c. serve_pc l c = Some Served \<and> \<not> authorized os c \<longrightarrow> c \<in> fst ` set (refusals l)) \<and>
    (\<forall>(c, code, msg) \<in> set (refusals l). code = 1 \<and> refused_with os c msg) \<and> distinct (map fst (refusals l))"
proof -
  note inv = order.reachable [OF assms]
  have serve: "serve_inv os l" by (rule order_invD(1) [OF inv])
  have "\<exists>last. streams_of c l = mine c l (delivered l) @ last \<and>
      (last = [] \<or> (\<exists>s. last = [s] \<and> (held c l = [s] \<or> ctx_done l \<and> s \<in> set (dropped l))))" for c
  proof (cases "mine c l (dropped l) = []")
    case True
    have "held c l = [] \<or> (\<exists>s. held c l = [s])" by (auto simp: held_def split: option.split serve_pc.split)
    then show ?thesis using order_invD(5) [OF inv, of c] True by auto
  next
    case False
    note d = order_invD(6) [OF inv False]
    have "ctx_done l" using serve False by (auto simp: serve_inv_def mine_def)
    moreover obtain s where s: "mine c l (dropped l) = [s]" using d by (auto simp: length_Suc_conv)
    moreover have "s \<in> set (dropped l)"
    proof -
      have "s \<in> set (mine c l (dropped l))" using s by simp
      then show ?thesis by (simp add: mine_def)
    qed
    moreover have "held c l = []" using d by (simp add: held_def)
    then have "streams_of c l = mine c l (delivered l) @ [s]" using order_invD(5) [OF inv, of c] s by simp
    ultimately show ?thesis by blast
  qed
  moreover have "distinct (delivered l)" using order_invD(4) [OF inv] by simp
  moreover have "set (delivered l) \<subseteq> snd ` set (accepted l)"
    using order_invD(2,3) [OF inv] by (metis image_set le_sup_iff set_append set_upt)
  moreover have "authorized os c" if "streams_of c l \<noteq> []" for c
    using serve_invD(2) [OF serve, of c] that by (auto simp: serve_ok_def split: option.splits serve_pc.splits)
  moreover have "c \<in> fst ` set (refusals l)" if "serve_pc l c = Some Served" "\<not> authorized os c" for c
    using serve_invD(2) [OF serve, of c] that by auto
  ultimately show ?thesis using serve unfolding serve_inv_def mine_def refusedCode_def by blast
qed

subsection \<open>The error of a listener\<close>

text \<open>What \<^verbatim>\<open>Accept\<close> reports now, or will once the lock is free.\<close>

definition shown_err :: "listener \<Rightarrow> go_error" where
  "shown_err l = (case accept_pc l of Storing e \<Rightarrow> e | _ \<Rightarrow> acceptErr l)"

definition closed_err :: "go_error \<Rightarrow> bool" where
  "closed_err e \<longleftrightarrow> e = NetErrClosed \<or> errors_Is e (Sentinel ErrClosed)"

definition error_inv :: "ListenOptions \<Rightarrow> listener \<Rightarrow> bool" where
  "error_inv os l \<longleftrightarrow> (close_ran l \<longleftrightarrow> ctx_done l) \<and>
     (case accept_pc l of
        Accepting \<Rightarrow> stored l = None
      | Failing e \<Rightarrow> stored l = None \<and> (ctx_done l \<or> errors_Is e (Sentinel ErrClosed))
      | Storing e \<Rightarrow> stored l = None \<and> (ctx_done l \<and> e = NetErrClosed \<or> errors_Is e (Sentinel ErrClosed))
      | Unlocked_fail \<Rightarrow> (\<exists>e. stored l = Some e \<and> (ctx_done l \<and> e = NetErrClosed \<or> errors_Is e (Sentinel ErrClosed)))
      | Gone \<Rightarrow> ctx_done l \<and> (\<exists>e. stored l = Some e \<and> (e = NetErrClosed \<or> errors_Is e (Sentinel ErrClosed))))"

lemma caller_keeps:
  assumes "Listener_Accept c b l = Some (r, l')"
  shows "accept_pc l' = accept_pc l" "stored l' = stored l" "ctx_done l' = ctx_done l" "close_ran l' = close_ran l"
    "r = Inl e \<Longrightarrow> ctx_done l \<and> e = shown_err l"
  using assms by (auto simp: Listener_Accept_def serve_deliver_def shown_err_def err_locked_def
      split: option.splits serve_pc.splits if_splits accept_pc.splits)

lemma error_inv_step:
  assumes "error_inv os l" and "listener_step l a l'"
  shows "error_inv os l'"
  using assms(2)
proof cases
  case (caller c b r)
  show ?thesis using assms(1) unfolding error_inv_def caller_keeps(1-4) [OF caller(2)] .
qed (use assms(1) in \<open>auto simp: error_inv_def listener_defs goes_def split: accept_pc.splits option.splits if_splits\<close>)

interpretation error: listener_invariant error_inv
  by unfold_locales (simp add: error_inv_def new_Listener_def, rule error_inv_step)

lemma shown_err_step:
  assumes "error_inv os l" and "ctx_done l" and "listener_step l a l'"
  shows "ctx_done l' \<and> shown_err l' = shown_err l"
  using assms(3)
proof cases
  case (caller c b r)
  show ?thesis using assms(2) unfolding shown_err_def acceptErr_def caller_keeps(1-3) [OF caller(2)] by simp
qed (use assms(1,2) in \<open>auto simp: error_inv_def shown_err_def acceptErr_def listener_defs split: accept_pc.splits option.splits if_splits\<close>)

lemma shown_err_run:
  assumes "listener_run l as l'" and "error_inv os l" and "ctx_done l"
  shows "ctx_done l' \<and> shown_err l' = shown_err l \<and> (\<forall>e. Returns (Inl e) \<in> set as \<longrightarrow> e = shown_err l)"
  using assms
proof (induction rule: listener_run.induct)
  case (more l as l' a l'')
  have inv: "error_inv os l'" using error.run more by blast
  have "e = shown_err l'" if "a = Returns (Inl e)" for e
    using more.hyps(2) that by cases (auto dest: caller_keeps(5))
  then show ?case using shown_err_step [OF inv _ more.hyps(2)] more by auto
qed simp

lemma shown_so_far:
  assumes "listener_run (new_Listener os) as l"
  shows "Returns (Inl e) \<in> set as \<Longrightarrow> ctx_done l \<and> e = shown_err l"
  using assms
proof (induction "new_Listener os" as l arbitrary: e rule: listener_run.induct)
  case (more as l a l')
  have inv: "error_inv os l" using error.run more.hyps(1) error.init by blast
  have "ctx_done l \<and> e = shown_err l"
  proof (cases "Returns (Inl e) \<in> set as")
    case False
    then have "a = Returns (Inl e)" using more.prems by auto
    with more.hyps(3) show ?thesis by cases (auto dest: caller_keeps(5))
  qed (use more.hyps(2) in blast)
  then show ?case using shown_err_step [OF inv _ more.hyps(3)] by simp
qed simp

lemma closed_shown: "error_inv os l \<Longrightarrow> closed_err (shown_err l)"
  by (auto simp: error_inv_def closed_err_def shown_err_def acceptErr_def split: accept_pc.splits option.splits)

text \<open>
  C36: \<^verbatim>\<open>Accept\<close> reports an error only when the listener is closed, every failing \<^verbatim>\<open>Accept\<close> of a listener reports the
  same one, and it says that something was closed: \<^verbatim>\<open>net.ErrClosed\<close> if the listener was closed while its loop was
  still accepting, and otherwise an error that matches \<^verbatim>\<open>ErrClosed\<close>. No other failure ends the loop: as long as
  the listener is open, the loop is accepting or has been told that the endpoint is closed.
\<close>

theorem accept_error_stable:
  assumes "listener_run (new_Listener os) as l" and "listener_run l bs l'"
  shows "(\<exists>e. (\<forall>x. Returns (Inl x) \<in> set (as @ bs) \<longrightarrow> x = e \<and> ctx_done l') \<and> (e = NetErrClosed \<or> errors_Is e (Sentinel ErrClosed)) \<and>
      (ctx_done l \<and> accept_pc l = Accepting \<longrightarrow> e = NetErrClosed)) \<and>
    (\<not> ctx_done l \<longrightarrow> accept_pc l = Accepting \<or>
      (\<exists>e. errors_Is e (Sentinel ErrClosed) \<and> (accept_pc l = Failing e \<or> accept_pc l = Storing e \<or> stored l = Some e)))"
proof -
  have inv: "error_inv os l" by (rule error.run [OF assms(1) error.init])
  have inv': "error_inv os l'" by (rule error.run [OF assms(2) inv])
  note shown = shown_so_far [OF listener_run_append [OF assms(2,1)]]
  have "shown_err l' = NetErrClosed" if "ctx_done l" "accept_pc l = Accepting"
    using shown_err_run [OF assms(2) inv that(1)] inv that by (simp add: shown_err_def acceptErr_def error_inv_def)
  moreover have "accept_pc l = Accepting \<or>
      (\<exists>e. errors_Is e (Sentinel ErrClosed) \<and> (accept_pc l = Failing e \<or> accept_pc l = Storing e \<or> stored l = Some e))" if "\<not> ctx_done l"
    using inv that by (cases "accept_pc l") (auto simp: error_inv_def)
  ultimately show ?thesis using shown closed_shown [OF inv'] unfolding closed_err_def by blast
qed

subsection \<open>Shutting down\<close>

text \<open>Only goroutines of connections have moved, and no caller got anything.\<close>

definition serves_only :: "listener \<Rightarrow> listener \<Rightarrow> bool" where
  "serves_only l l' \<longleftrightarrow> ctx_done l' = ctx_done l \<and> accept_pc l' = accept_pc l \<and> stored l' = stored l \<and> next_peer l' = next_peer l \<and>
     accepted l' = accepted l \<and> delivered l' = delivered l"

lemma serves_only_refl [simp]: "serves_only l l"
  by (simp add: serves_only_def)

lemma serves_only_trans: "serves_only l k \<Longrightarrow> serves_only k l' \<Longrightarrow> serves_only l l'"
  by (simp add: serves_only_def)

definition quietly :: "listener \<Rightarrow> listener \<Rightarrow> bool" where
  "quietly l l' \<longleftrightarrow> (\<exists>as. set as \<subseteq> {Internal_step} \<and> listener_run l as l')"

lemma quietly_refl [simp]: "quietly l l"
  unfolding quietly_def by (rule exI [of _ "[]"]) (simp add: listener_run.none)

lemma quietly_step: "listener_step l Internal_step l' \<Longrightarrow> quietly l l'"
  unfolding quietly_def using listener_step_run by (intro exI [of _ "[Internal_step]"]) simp

lemma quietly_trans [trans]: "quietly l k \<Longrightarrow> quietly k l' \<Longrightarrow> quietly l l'"
  unfolding quietly_def using listener_run_append by (metis Un_least set_append)

lemma connection_ends:
  assumes "ctx_done l" and "serve_pc l c \<noteq> None"
  shows "\<exists>l'. quietly l l' \<and> serves_only l l' \<and> serve_pc l' = (serve_pc l)(c \<mapsto> Served)"
proof -
  have "\<exists>l'. quietly l l' \<and> serves_only l l' \<and> serve_pc l' = (serve_pc l)(c \<mapsto> Served)"
    if "serve_pc l c = Some Serving" for l
    using quietly_step [OF listener_step.accept_stream [OF that, of "Some EOF"]]
    by (intro exI [of _ "serve_turn c (Some EOF) l"]) (simp add: serve_turn_def serves_only_def)
  note serving = this
  have refusing: "\<exists>l'. quietly l l' \<and> serves_only l l' \<and> serve_pc l' = (serve_pc l)(c \<mapsto> Served)"
    if "serve_pc l c = Some (Refusing m)" for l m
    using quietly_step [OF listener_step.refuse [OF that]]
    by (intro exI [of _ "serve_refuse c m l"]) (simp add: serve_refuse_def serves_only_def)
  have dropping: "\<exists>l'. quietly l l' \<and> serves_only l l' \<and> serve_pc l' = (serve_pc l)(c \<mapsto> Served)"
    if "serve_pc l c = Some (Dropping s)" for l s
    using quietly_step [OF listener_step.drop_stream [OF that]]
    by (intro exI [of _ "serve_drop c s l"]) (simp add: serve_drop_def serves_only_def)
  have via: "\<exists>l'. quietly l l' \<and> serves_only l l' \<and> serve_pc l' = (serve_pc l)(c \<mapsto> Served)"
    if "listener_step l Internal_step (goes c pc l)" "pc = Serving \<or> (\<exists>m. pc = Refusing m) \<or> (\<exists>s. pc = Dropping s)" for pc
  proof -
    have "serve_pc (goes c pc l) c = Some pc" by simp
    with that(2) obtain l' where l': "quietly (goes c pc l) l'" "serves_only (goes c pc l) l'" "serve_pc l' = (serve_pc (goes c pc l))(c \<mapsto> Served)"
      using serving refusing dropping by blast
    have "quietly l l'" using quietly_trans [OF quietly_step [OF that(1)] l'(1)] .
    moreover have "serves_only l l'" using l'(2) by (simp add: serves_only_def)
    ultimately show ?thesis using l'(3) by auto
  qed
  obtain pc where pc: "serve_pc l c = Some pc" using assms(2) by auto
  show ?thesis
  proof (cases pc)
    case Authorizing
    obtain q where "serve_authorize c l = goes c q l" "q = Serving \<or> (\<exists>m. q = Refusing m)"
      by (auto simp: serve_authorize_def split: option.split)
    then show ?thesis using via [of q] listener_step.authorize [of l c] pc Authorizing by auto
  next
    case (Offering s)
    then show ?thesis using via [of "Dropping s"] listener_step.context_done [of l c s] pc assms(1) by auto
  next
    case Served
    then show ?thesis using pc by (intro exI [of _ l]) (simp add: fun_upd_idem)
  qed (use pc serving refusing dropping in blast)+
qed

lemma connections_end:
  assumes "ctx_done l"
  shows "\<exists>l'. quietly l l' \<and> serves_only l l' \<and> (\<forall>c < n. serve_pc l' c = None \<or> serve_pc l' c = Some Served) \<and>
    (\<forall>c \<ge> n. serve_pc l' c = serve_pc l c)"
proof (induction n)
  case 0
  show ?case by (rule exI [of _ l]) simp
next
  case (Suc n)
  then obtain k where k: "quietly l k" "serves_only l k" "\<forall>c < n. serve_pc k c = None \<or> serve_pc k c = Some Served"
    "\<forall>c \<ge> n. serve_pc k c = serve_pc l c" by blast
  show ?case
  proof (cases "serve_pc k n = None")
    case True
    then show ?thesis using k by (intro exI [of _ k]) (auto simp: less_Suc_eq)
  next
    case False
    have "ctx_done k" using assms k(2) by (simp add: serves_only_def)
    from connection_ends [OF this False] obtain l' where l': "quietly k l'" "serves_only k l'" "serve_pc l' = (serve_pc k)(n \<mapsto> Served)"
      by blast
    have "quietly l l'" "serves_only l l'" using quietly_trans [OF k(1) l'(1)] serves_only_trans [OF k(2) l'(2)] .
    then show ?thesis using k(3,4) l'(3) by (intro exI [of _ l']) (auto simp: less_Suc_eq)
  qed
qed

lemma accepting_ends:
  assumes "ctx_done l" and "error_inv os l"
  shows "\<exists>l'. quietly l l' \<and> accept_pc l' = Gone \<and> ctx_done l' \<and> serve_pc l' = serve_pc l \<and> delivered l' = delivered l"
proof -
  let ?ends = "\<lambda>l. \<exists>l'. quietly l l' \<and> accept_pc l' = Gone \<and> ctx_done l' \<and> serve_pc l' = serve_pc l \<and> delivered l' = delivered l"
  have unlocked: "?ends l" if "accept_pc l = Unlocked_fail" "ctx_done l" for l
    using quietly_step [OF listener_step.close_failed [OF that(1)]] that(2)
    by (intro exI [of _ "fail_close l"]) (simp add: fail_close_def Listener_Close_def)
  have storing: "?ends l" if "accept_pc l = Storing e" "ctx_done l" for l e
  proof -
    have "?ends (fail_store e l)" using that(2) by (intro unlocked) (simp_all add: fail_store_def)
    then show ?thesis using quietly_trans [OF quietly_step [OF listener_step.store [OF that(1)]]] by (auto simp: fail_store_def)
  qed
  have failing: "?ends l" if "accept_pc l = Failing e" "ctx_done l" "stored l = None" for l e
  proof -
    have "?ends (fail_lock e l)" using that(2,3) by (intro storing) (simp_all add: fail_lock_def)
    then show ?thesis using that(3) quietly_trans [OF quietly_step [OF listener_step.lock [OF that(1)]]] by (auto simp: fail_lock_def)
  qed
  have accepting: "?ends l" if "accept_pc l = Accepting" "ctx_done l" "stored l = None" for l
  proof -
    have "?ends (accept_turn (Some EOF) l)" using that(2,3) by (intro failing) (simp_all add: accept_turn_def)
    then show ?thesis using that(2) quietly_trans [OF quietly_step [OF listener_step.turn [OF that(1), of "Some EOF"]]] by (auto simp: accept_turn_def)
  qed
  show ?thesis
    using accepting failing storing unlocked assms by (cases "accept_pc l") (auto simp: error_inv_def intro: exI [of _ l])
qed

text \<open>
  C37: a closed listener can always wind up by itself. From every state it can reach, once its context is done, its
  goroutines can end without any caller: there is a run in which no caller gets anything, after which the
  accept goroutine and the goroutine of every connection are gone, and every stream that was accepted
  has been delivered or closed. No goroutine is stuck on a send that nobody receives.
\<close>

theorem listener_winds_up:
  assumes "listener_reachable os l" and "ctx_done l"
  shows "\<exists>as l'. listener_run l as l' \<and> set as \<subseteq> {Internal_step} \<and> accept_pc l' = Gone \<and>
    (\<forall>c. serve_pc l' c = None \<or> serve_pc l' c = Some Served) \<and> delivered l' = delivered l \<and>
    snd ` set (accepted l') = set (delivered l') \<union> set (dropped l')"
proof -
  obtain k where k: "quietly l k" "accept_pc k = Gone" "ctx_done k" "serve_pc k = serve_pc l" "delivered k = delivered l"
    using accepting_ends [OF assms(2) error.reachable [OF assms(1)]] by blast
  obtain l' where l': "quietly k l'" "serves_only k l'" "\<forall>c < next_peer k. serve_pc l' c = None \<or> serve_pc l' c = Some Served"
    "\<forall>c \<ge> next_peer k. serve_pc l' c = serve_pc k c"
    using connections_end [OF k(3)] by blast
  obtain as where as: "listener_run l as l'" "set as \<subseteq> {Internal_step}" using quietly_trans [OF k(1) l'(1)] unfolding quietly_def by blast
  have invk: "order_inv os k" using k(1) order.run order.reachable [OF assms(1)] unfolding quietly_def by blast
  then have inv: "order_inv os l'" using l'(1) order.run unfolding quietly_def by blast
  have ended: "serve_pc l' c = None \<or> serve_pc l' c = Some Served" for c
    using l'(3,4) order_invD(1) [OF invk] by (cases "c < next_peer k") (auto simp: serve_inv_def)
  have "s \<in> set (delivered l') \<union> set (dropped l')" if "(c, s) \<in> set (accepted l')" for c s
  proof -
    have "held c l' = []" using ended [of c] by (auto simp: held_def)
    then have split: "streams_of c l' = mine c l' (delivered l') @ mine c l' (dropped l')" using order_invD(5) [OF inv, of c] by simp
    have "s \<in> set (streams_of c l')" using that by (force simp: streams_of_def)
    then have "s \<in> set (mine c l' (delivered l') @ mine c l' (dropped l'))" unfolding split .
    then show ?thesis by (auto simp: mine_def)
  qed
  moreover have "set (delivered l' @ dropped l') \<subseteq> snd ` set (accepted l')"
    using order_invD(2,3) [OF inv] by (metis image_set set_upt)
  ultimately have "snd ` set (accepted l') = set (delivered l') \<union> set (dropped l')" by fastforce
  moreover have "accept_pc l' = Gone" "delivered l' = delivered l" using l'(2) k by (simp_all add: serves_only_def)
  ultimately show ?thesis using as ended by blast
qed

subsection \<open>Examples\<close>

text \<open>
  A peer connects, opens a stream, and a caller gets it; a second peer is refused; then the endpoint is
  closed and a caller gets the error.
\<close>

definition story :: "(listener \<Rightarrow> listener) list" where
  "story = (let e = Error 11 (Text ''endpoint closed'') in
     [accept_turn None, serve_authorize 0, serve_turn 0 None, serve_deliver 0 0, accept_turn None, serve_authorize 1,
      serve_refuse 1 ''not you'', accept_turn (Some e), fail_lock e, fail_store e, fail_close])"

definition story_options :: ListenOptions where
  "story_options = \<lparr>Authorize = Some (\<lambda>c. if c = 1 then Some ''not you'' else None)\<rparr>"

fun tell :: "nat \<Rightarrow> listener" where
  "tell 0 = new_Listener story_options"
| "tell (Suc n) = (story ! n) (tell n)"

declare tell.simps [simp del]

lemma closed_kind: "Error_Unwrap 11 = Sentinel ErrClosed"
  by code_simp

lemmas tell_simps = tell.simps story_def story_options_def Let_def new_Listener_def listener_defs goes_def closed_kind eval_nat_numeral

lemma told: "listener_run l as (tell n) \<Longrightarrow> listener_step (tell n) a ((story ! n) (tell n)) \<Longrightarrow> listener_run l (as @ [a]) (tell (Suc n))"
  by (rule listener_run.more) (simp_all add: tell.simps)

lemma serving_story:
  "listener_run (tell 0) [Internal_step, Internal_step, Internal_step, Returns (Inr 0), Internal_step, Internal_step, Internal_step] (tell 7)"
proof -
  have steps: "listener_step (tell 0) Internal_step ((story ! 0) (tell 0))" "listener_step (tell 4) Internal_step ((story ! 4) (tell 4))"
    using listener_step.turn [of "tell 0" None] listener_step.turn [of "tell 4" None] by (simp_all add: tell_simps)
  have auth: "listener_step (tell 1) Internal_step ((story ! 1) (tell 1))" "listener_step (tell 5) Internal_step ((story ! 5) (tell 5))"
    using listener_step.authorize [of "tell 1" 0] listener_step.authorize [of "tell 5" 1] by (simp_all add: tell_simps)
  have strm: "listener_step (tell 2) Internal_step ((story ! 2) (tell 2))"
    using listener_step.accept_stream [of "tell 2" 0 None] by (simp add: tell_simps)
  have call: "listener_step (tell 3) (Returns (Inr 0)) ((story ! 3) (tell 3))"
    using listener_step.caller [of 0 True "tell 3" "Inr 0" "tell 4"] by (simp add: tell_simps Listener_Accept_def)
  have refuse: "listener_step (tell 6) Internal_step ((story ! 6) (tell 6))"
    using listener_step.refuse [of "tell 6" 1 "''not you''"] by (simp add: tell_simps)
  have "listener_run (tell 0) [Internal_step, Internal_step] (tell 2)"
    using told [OF told [OF listener_run.none steps(1)], simplified, OF auth(1) [simplified]] by (simp add: numeral_2_eq_2)
  from told [OF told [OF this strm], simplified, OF call]
  have "listener_run (tell 0) [Internal_step, Internal_step, Internal_step, Returns (Inr 0)] (tell 4)" by simp
  from told [OF told [OF this steps(2)], simplified, OF auth(2)] told [OF _ refuse] show ?thesis by fastforce
qed

lemma ending_story:
  "listener_run (tell 7) [Internal_step, Internal_step, Internal_step, Internal_step, Returns (Inl (Error 11 (Text ''endpoint closed'')))] (tell 11)"
proof -
  define e where "e = Error 11 (Text ''endpoint closed'')"
  have "listener_step (tell 7) Internal_step ((story ! 7) (tell 7))" "listener_step (tell 8) Internal_step ((story ! 8) (tell 8))"
    using listener_step.turn [of "tell 7" "Some e"] listener_step.lock [of "tell 8" e] by (simp_all add: tell_simps e_def)
  from told [OF told [OF listener_run.none this(1)], simplified, OF this(2)]
  have 9: "listener_run (tell 7) [Internal_step, Internal_step] (tell 9)" by simp
  have "listener_step (tell 9) Internal_step ((story ! 9) (tell 9))" "listener_step (tell 10) Internal_step ((story ! 10) (tell 10))"
    using listener_step.store [of "tell 9" e] listener_step.close_failed [of "tell 10"] by (simp_all add: tell_simps e_def)
  from told [OF told [OF 9 this(1)], simplified, OF this(2)]
  have run: "listener_run (tell 7) [Internal_step, Internal_step, Internal_step, Internal_step] (tell 11)" by simp
  have "Listener_Accept 0 True (tell 11) = Some (Inl e, tell 11)"
    by (simp add: tell_simps Listener_Accept_def err_locked_def acceptErr_def e_def)
  from listener_run.more [OF run listener_step.caller [OF this]] show ?thesis unfolding e_def by simp
qed

lemma story_reachable: "listener_reachable story_options (tell 11)"
  using listener_run_append [OF ending_story serving_story] unfolding listener_reachable_def by (metis tell.simps(1))

text \<open>
  A listener that closed itself because its endpoint was closed does not report \<^verbatim>\<open>net.ErrClosed\<close>, nor an error that
  matches it.
\<close>

lemma accept_after_endpoint_close:
  "\<exists>l e. listener_reachable story_options l \<and> ctx_done l \<and> Listener_Accept 0 True l = Some (Inl e, l) \<and> \<not> errors_Is e NetErrClosed"
proof -
  note story_reachable
  moreover have "ctx_done (tell 11) \<and> Listener_Accept 0 True (tell 11) = Some (Inl (Error 11 (Text ''endpoint closed'')), tell 11)"
    by (simp add: tell_simps Listener_Accept_def err_locked_def acceptErr_def)
  moreover have "\<not> errors_Is (Error 11 (Text ''endpoint closed'')) NetErrClosed" by (simp add: Error_Unwrap_def)
  ultimately show ?thesis by blast
qed

theorem listener_streams_witness:
  "listener_reachable story_options (tell 7) \<and> distinct (delivered (tell 7)) \<and> delivered (tell 7) = [0] \<and>
    refusals (tell 7) = [(1, 1, ''not you'')] \<and> refused_with story_options 1 ''not you''"
proof -
  have r: "listener_reachable story_options (tell 7)"
    using serving_story unfolding listener_reachable_def by (auto simp: tell.simps)
  have "delivered (tell 7) = [0]" "refusals (tell 7) = [(1, 1, ''not you'')]" by (simp_all add: tell_simps refusedCode_def)
  with listener_streams [OF r] r show ?thesis by simp
qed

theorem accept_error_stable_witness:
  "\<exists>e. Returns (Inl e) \<in> set [Internal_step, Internal_step, Internal_step, Internal_step, Returns (Inl (Error 11 (Text ''endpoint closed'')))]
    \<and> errors_Is e (Sentinel ErrClosed) \<and> ctx_done (tell 11)"
proof -
  from accept_error_stable [OF serving_story [unfolded tell.simps(1)] ending_story]
  show ?thesis by auto
qed

theorem listener_winds_up_witness:
  "serve_pc (tell 11) 0 = Some Serving \<and> (\<exists>as l'. listener_run (tell 11) as l' \<and> set as \<subseteq> {Internal_step} \<and> accept_pc l' = Gone \<and>
    (serve_pc l' 0 = None \<or> serve_pc l' 0 = Some Served) \<and> delivered l' = [0])"
proof -
  have "serve_pc (tell 11) 0 = Some Serving" "ctx_done (tell 11)" "delivered (tell 11) = [0]" by (simp_all add: tell_simps)
  with listener_winds_up [OF story_reachable] show ?thesis by metis
qed

end
