(* ===== verification/Library_File.thy ===== *)
theory Library_File
  imports Go_Errors Go_Strings
begin

text \<open>
  Finding the native library (\<^verbatim>\<open>internal/lib/lib.go\<close>): the override in the environment, or the embedded
  copy, extracted once into a cache directory whose name holds its hash.

  The process is a record of what the code reads and never changes; \<^verbatim>\<open>crypto/sha256\<close> is one of its
  fields, a parameter. The disk is a map from paths to files. Before each system call other
  processes may change any file, and each call may fail; what they do and whether it fails are the
  turns of the disk, its script. \<open>history\<close> keeps the disk after each call, which is all that another
  process, or one that starts after this one was killed, can find.
\<close>

subsection \<open>The process and the disk\<close>

record process =
  Getenv :: "string \<Rightarrow> string"
  GOOS :: string
  GOARCH :: string
  embedded :: "(string \<Rightarrow> go_error + bytes) option"
  platform :: string
  UserCacheDir :: "go_error + string"
  TempDir :: string
  Sum256 :: "bytes \<Rightarrow> bytes"

record dfile =
  contents :: bytes
  executable :: bool

text \<open>
  What happens at a system call: the files other processes wrote or removed before it, its failure if it
  fails, the random part of a temporary name, and how many bytes a failing write had written.
\<close>

record turn =
  others :: "(string \<times> dfile option) list"
  fails :: "string option"
  rand :: string
  short :: nat

record disk =
  files :: "string \<rightharpoonup> dfile"
  turns :: "turn list"
  history :: "(string \<rightharpoonup> dfile) list"

definition quiet_turn :: turn where
  "quiet_turn = \<lparr>others = [], fails = None, rand = [], short = 0\<rparr>"

definition os_turn :: "disk \<Rightarrow> turn \<times> disk" where
  "os_turn d = (let t = (case turns d of [] \<Rightarrow> quiet_turn | t # _ \<Rightarrow> t);
     fs = fold (\<lambda>(p, f) m. m(p := f)) (others t) (files d)
   in (t, d\<lparr>files := fs, turns := tl (turns d), history := history d @ [fs]\<rparr>))"

subsection \<open>System calls\<close>

definition ErrNotExist :: go_error where
  "ErrNotExist = Errorf ''file does not exist'' [] None"

definition ErrExist :: go_error where
  "ErrExist = Errorf ''file already exists'' [] None"

definition puts :: "(string \<rightharpoonup> dfile) \<Rightarrow> disk \<Rightarrow> disk" where
  "puts fs d = d\<lparr>files := fs, history := history d @ [fs]\<rparr>"

text \<open>A call that fails or does what \<open>f\<close> says.\<close>

definition os_call :: "(turn \<Rightarrow> disk \<Rightarrow> (go_error + 'a) \<times> disk) \<Rightarrow> disk \<Rightarrow> (go_error + 'a) \<times> disk" where
  "os_call f d = (let (t, d1) = os_turn d in case fails t of Some m \<Rightarrow> (Inl (External m), d1) | None \<Rightarrow> f t d1)"

definition os_Stat :: "string \<Rightarrow> disk \<Rightarrow> (go_error + nat) \<times> disk" where
  "os_Stat p = os_call (\<lambda>_ d. (case files d p of None \<Rightarrow> Inl ErrNotExist | Some f \<Rightarrow> Inr (length (contents f)), d))"

definition os_ReadFile :: "string \<Rightarrow> disk \<Rightarrow> (go_error + bytes) \<times> disk" where
  "os_ReadFile p = os_call (\<lambda>_ d. (case files d p of None \<Rightarrow> Inl ErrNotExist | Some f \<Rightarrow> Inr (contents f), d))"

definition os_MkdirAll :: "string \<Rightarrow> disk \<Rightarrow> (go_error + unit) \<times> disk" where
  "os_MkdirAll p = os_call (\<lambda>_ d. (Inr (), d))"

text \<open>\<^verbatim>\<open>os.CreateTemp\<close> creates a file that was not there, or fails.\<close>

definition temp_name :: "string \<Rightarrow> string \<Rightarrow> string \<Rightarrow> string" where
  "temp_name dir pre r = (if dir \<noteq> [] \<and> last dir = CHR ''/'' then dir else dir @ ''/'') @ pre @ r"

definition os_CreateTemp :: "string \<Rightarrow> string \<Rightarrow> disk \<Rightarrow> (go_error + string) \<times> disk" where
  "os_CreateTemp dir pre = os_call (\<lambda>t d. let name = temp_name dir pre (rand t) in
     if files d name \<noteq> None then (Inl ErrExist, d)
     else (Inr name, puts ((files d)(name \<mapsto> \<lparr>contents = [], executable = False\<rparr>)) d))"

text \<open>A failing write may have written some of the bytes.\<close>

definition append_to :: "string \<Rightarrow> bytes \<Rightarrow> disk \<Rightarrow> disk" where
  "append_to p b d = (case files d p of
     None \<Rightarrow> d | Some f \<Rightarrow> puts ((files d)(p \<mapsto> f\<lparr>contents := contents f @ b\<rparr>)) d)"

definition tmp_Write :: "string \<Rightarrow> bytes \<Rightarrow> disk \<Rightarrow> (go_error + unit) \<times> disk" where
  "tmp_Write p b d = (let (t, d1) = os_turn d in case fails t of
     Some m \<Rightarrow> (Inl (External m), append_to p (take (short t) b) d1) | None \<Rightarrow> (Inr (), append_to p b d1))"

definition tmp_Close :: "disk \<Rightarrow> (go_error + unit) \<times> disk" where
  "tmp_Close = os_call (\<lambda>_ d. (Inr (), d))"

definition os_Chmod :: "string \<Rightarrow> disk \<Rightarrow> (go_error + unit) \<times> disk" where
  "os_Chmod p = os_call (\<lambda>_ d. case files d p of
     None \<Rightarrow> (Inl ErrNotExist, d) | Some f \<Rightarrow> (Inr (), puts ((files d)(p \<mapsto> f\<lparr>executable := True\<rparr>)) d))"

definition os_Rename :: "string \<Rightarrow> string \<Rightarrow> disk \<Rightarrow> (go_error + unit) \<times> disk" where
  "os_Rename p q = os_call (\<lambda>_ d. case files d p of
     None \<Rightarrow> (Inl ErrNotExist, d) | Some f \<Rightarrow> (Inr (), puts ((files d)(p := None, q \<mapsto> f)) d))"

definition os_Remove :: "string \<Rightarrow> disk \<Rightarrow> (go_error + unit) \<times> disk" where
  "os_Remove p = os_call (\<lambda>_ d. if files d p = None then (Inl ErrNotExist, d) else (Inr (), puts ((files d)(p := None)) d))"

subsection \<open>Paths (path/filepath, on systems that separate with a slash)\<close>

abbreviation slash :: char where "slash \<equiv> CHR ''/''"

fun clean_step :: "bool \<Rightarrow> string \<Rightarrow> string list \<Rightarrow> string list" where
  "clean_step rooted c acc =
     (if c = [] \<or> c = ''.'' then acc
      else if c = ''..'' then (case acc of
          [] \<Rightarrow> if rooted then [] else [c] | x # xs \<Rightarrow> if x = ''..'' then c # acc else xs)
      else c # acc)"

definition Clean :: "string \<Rightarrow> string" where
  "Clean p = (let rooted = (case p of c # _ \<Rightarrow> c = slash | [] \<Rightarrow> False);
     out = (if rooted then [slash] else []) @ join slash (rev (fold (clean_step rooted) (Split slash p) []))
   in if out = [] then ''.'' else out)"

definition Join_path :: "string list \<Rightarrow> string" where
  "Join_path es = (let xs = filter (\<lambda>e. e \<noteq> []) es in if xs = [] then [] else Clean (join slash xs))"

definition Dir :: "string \<Rightarrow> string" where
  "Dir p = Clean (rev (dropWhile (\<lambda>c. c \<noteq> slash) (rev p)))"

subsection \<open>lib.go\<close>

definition EnvLibrary :: string where "EnvLibrary = ''IROH_GO_LIBRARY''"
definition EnvCacheDir :: string where "EnvCacheDir = ''IROH_GO_CACHE_DIR''"
definition EnvVerify :: string where "EnvVerify = ''IROH_GO_VERIFY_LIB''"
definition embeddedName :: string where "embeddedName = ''lib/iroh_go.lib''"

definition ErrNoEmbeddedLibrary :: "process \<Rightarrow> go_error" where
  "ErrNoEmbeddedLibrary P = External (''iroh: no embedded library for '' @ GOOS P @ ''/'' @ GOARCH P)"

definition Platform :: "process \<Rightarrow> string" where
  "Platform P = platform P"

definition libraryFilename :: "process \<Rightarrow> go_error + string" where
  "libraryFilename P =
     (if GOOS P \<in> {''darwin'', ''ios''} then Inr ''libiroh_go.dylib''
      else if GOOS P = ''windows'' then Inr ''iroh_go.dll''
      else if GOOS P \<in> {''linux'', ''android'', ''freebsd'', ''netbsd''} then Inr ''libiroh_go.so''
      else Inl (Errorf ''iroh: unsupported operating system %q'' [ArgStr (GOOS P)] None))"

definition hash :: "process \<Rightarrow> bytes \<Rightarrow> string" where
  "hash P b = EncodeToString (Sum256 P b)"

text \<open>The text before the first space or tab, unless that comes first.\<close>

definition first_field :: "string \<Rightarrow> string" where
  "first_field s = (let i = length (takeWhile (\<lambda>c. c \<noteq> CHR '' '' \<and> c \<noteq> CHR 0x09) s)
     in if i > 0 \<and> i < length s then take i s else s)"

definition embeddedHash :: "process \<Rightarrow> (string \<Rightarrow> go_error + bytes) \<Rightarrow> bytes \<Rightarrow> go_error + string" where
  "embeddedHash P fs data = (case fs (embeddedName @ ''.sha256'') of
     Inr raw \<Rightarrow> (let got = first_field (TrimSpace raw) in
       if length got \<noteq> 64 then Inl (Errorf ''iroh: embedded sha256 sidecar is malformed (%d chars)'' [ArgInt (int (length got))] None)
       else let want = hash P data in
         if want \<noteq> got then Inl (Errorf ''iroh: embedded library does not match its sha256 sidecar (have %s, want %s)'' [ArgStr want, ArgStr got] None)
         else Inr got)
   | Inl _ \<Rightarrow> Inr (hash P data))"

definition cacheRoot :: "process \<Rightarrow> string" where
  "cacheRoot P = (if Getenv P EnvCacheDir \<noteq> [] then Getenv P EnvCacheDir
     else case UserCacheDir P of Inr d \<Rightarrow> d | Inl _ \<Rightarrow> TempDir P)"

definition usable :: "process \<Rightarrow> string \<Rightarrow> nat \<Rightarrow> string \<Rightarrow> disk \<Rightarrow> (go_error + bool) \<times> disk" where
  "usable P path sz want d = (case os_Stat path d of
     (Inl e, d1) \<Rightarrow> if errors_Is e ErrNotExist then (Inr False, d1)
       else (Inl (Errorf ''iroh: inspecting cached library %s: %w'' [ArgStr path] (Some e)), d1)
   | (Inr n, d1) \<Rightarrow>
       if n \<noteq> sz then (Inr False, d1)
       else if Getenv P EnvVerify = [] then (Inr True, d1)
       else (case os_ReadFile path d1 of
           (Inl e, d2) \<Rightarrow> (Inl (Errorf ''iroh: verifying cached library %s: %w'' [ArgStr path] (Some e)), d2)
         | (Inr onDisk, d2) \<Rightarrow>
             if hash P onDisk \<noteq> want
             then (Inl (Errorf ''iroh: cached library %s is corrupt (have %s, want %s)'' [ArgStr path, ArgStr (hash P onDisk), ArgStr want] None), d2)
             else (Inr True, d2)))"

text \<open>\<^verbatim>\<open>writeAtomic\<close> from the rename on, from the change of mode on, and as a whole; every return runs the deferred removal.\<close>

definition rename_into :: "string \<Rightarrow> string \<Rightarrow> nat \<Rightarrow> disk \<Rightarrow> go_error option \<times> disk" where
  "rename_into name path sz d = (case os_Rename name path d of
     (Inr _, d1) \<Rightarrow> (None, d1)
   | (Inl e, d1) \<Rightarrow> (case os_Stat path d1 of (r, d2) \<Rightarrow>
       if r = Inr sz then (None, d2) else (Some (Errorf ''iroh: installing library at %s: %w'' [ArgStr path] (Some e)), d2)))"

definition finish_temp :: "process \<Rightarrow> string \<Rightarrow> string \<Rightarrow> nat \<Rightarrow> disk \<Rightarrow> go_error option \<times> disk" where
  "finish_temp P name path sz d =
     (if GOOS P \<noteq> ''windows''
      then (case os_Chmod name d of
          (Inl e, d1) \<Rightarrow> (Some (Errorf ''iroh: making %s executable: %w'' [ArgStr name] (Some e)), d1)
        | (Inr _, d1) \<Rightarrow> rename_into name path sz d1)
      else rename_into name path sz d)"

definition fill_temp :: "process \<Rightarrow> string \<Rightarrow> string \<Rightarrow> bytes \<Rightarrow> disk \<Rightarrow> go_error option \<times> disk" where
  "fill_temp P name path data d = (case tmp_Write name data d of
     (Inl e, d1) \<Rightarrow> (Some (Errorf ''iroh: writing library to %s: %w'' [ArgStr name] (Some e)), snd (tmp_Close d1))
   | (Inr _, d1) \<Rightarrow> (case tmp_Close d1 of
       (Inl e, d2) \<Rightarrow> (Some (Errorf ''iroh: closing %s: %w'' [ArgStr name] (Some e)), d2)
     | (Inr _, d2) \<Rightarrow> finish_temp P name path (length data) d2))"

definition writeAtomic :: "process \<Rightarrow> string \<Rightarrow> bytes \<Rightarrow> disk \<Rightarrow> go_error option \<times> disk" where
  "writeAtomic P path data d = (case os_CreateTemp (Dir path) ''.iroh_go-'' d of
     (Inl e, d1) \<Rightarrow> (Some (Errorf ''iroh: creating temporary library file: %w'' [] (Some e)), d1)
   | (Inr name, d1) \<Rightarrow> (let (r, d2) = fill_temp P name path data d1 in (r, snd (os_Remove name d2))))"

definition extract_into :: "process \<Rightarrow> string \<Rightarrow> bytes \<Rightarrow> string \<Rightarrow> disk \<Rightarrow> (go_error + string) \<times> disk" where
  "extract_into P path data want d = (case usable P path (length data) want d of
     (Inl e, d1) \<Rightarrow> (Inl e, d1)
   | (Inr True, d1) \<Rightarrow> (Inr path, d1)
   | (Inr False, d1) \<Rightarrow> (case writeAtomic P path data d1 of (Some e, d2) \<Rightarrow> (Inl e, d2) | (None, d2) \<Rightarrow> (Inr path, d2)))"

definition library_dir :: "process \<Rightarrow> string \<Rightarrow> string" where
  "library_dir P want = Join_path [cacheRoot P, ''iroh-go'', platform P @ ''-'' @ take 16 want]"

definition extract_lib :: "process \<Rightarrow> disk \<Rightarrow> (go_error + string) \<times> disk" where
  "extract_lib P d = (case embedded P of None \<Rightarrow> (Inl (ErrNoEmbeddedLibrary P), d) | Some fs \<Rightarrow>
     (case fs embeddedName of
       Inl e \<Rightarrow> (Inl (Errorf ''%w: run `make lib` to build one: %v'' [ArgErr e] (Some (ErrNoEmbeddedLibrary P))), d)
     | Inr data \<Rightarrow> (case embeddedHash P fs data of Inl e \<Rightarrow> (Inl e, d) | Inr want \<Rightarrow>
       (case libraryFilename P of Inl e \<Rightarrow> (Inl e, d) | Inr filename \<Rightarrow>
         (case os_MkdirAll (library_dir P want) d of
           (Inl e, d1) \<Rightarrow> (Inl (Errorf ''iroh: creating library cache %s: %w'' [ArgStr (library_dir P want)] (Some e)), d1)
         | (Inr _, d1) \<Rightarrow> extract_into P (Join_path [library_dir P want, filename]) data want d1)))))"

definition Path :: "process \<Rightarrow> disk \<Rightarrow> (go_error + string) \<times> disk" where
  "Path P d = (let p = Getenv P EnvLibrary in
     if p \<noteq> [] then (case os_Stat p d of
         (Inl e, d1) \<Rightarrow> (Inl (Errorf ''iroh: %s=%s: %w'' [ArgStr EnvLibrary, ArgStr p] (Some e)), d1)
       | (Inr _, d1) \<Rightarrow> (Inr p, d1))
     else extract_lib P d)"

end
