(* ===== verification/Loader.thy ===== *)
theory Loader
  imports Library_File Sync_Calls
begin

text \<open>
  Loading the library and binding its symbols (\<^verbatim>\<open>internal/ffi/ffi.go\<close>, \<^verbatim>\<open>Open\<close> of \<^verbatim>\<open>internal/lib\<close>), and the
  calls about the library as a whole (\<^verbatim>\<open>internal/ffi/calls.go\<close>, \<^verbatim>\<open>iroh.go\<close>). The dynamic loader is a
  parameter: what it returns is an opened library, of which the model keeps the symbols it exports
  and what its two entry points for loading answer. The order in which Go ranges over the map of
  symbols is a parameter too.

  The struct of function pointers is a table of its fields with their types: every argument is a machine
  integer or an untyped pointer.
\<close>

unbundle bit_operations_syntax

subsection \<open>Constants (ffi.go)\<close>

definition ABIVersion :: "32 word" where "ABIVersion = 5"

definition FfiStatusOK :: i32 where "FfiStatusOK = 0"
definition StatusErr :: i32 where "StatusErr = 1"
definition StatusCancelled :: i32 where "StatusCancelled = 2"

definition FfiKinds :: "(string \<times> i32) list" where
  "FfiKinds = [(''KindInternal'', 0), (''KindInvalidInput'', 1), (''KindKeyParsing'', 2), (''KindTicketParsing'', 3), (''KindBind'', 4),
     (''KindConnect'', 5), (''KindConnection'', 6), (''KindStream'', 7), (''KindDatagram'', 8), (''KindAlpn'', 9), (''KindRelay'', 10),
     (''KindClosed'', 11), (''KindTimeout'', 12), (''KindCancelled'', 13)]"

definition NoStopCode :: u64 where "NoStopCode = NOT 0"

subsection \<open>The functions of the library as the bindings declare them (ffi.go)\<close>

datatype abi_type = U32 | I32 | U64 | I64 | Usize | Ptr

text \<open>\<^verbatim>\<open>api\<close>: the field, the types of the arguments and of the result.\<close>

definition api :: "(string \<times> abi_type list \<times> abi_type option) list" where
  "api = [
    (''abiVersion'', [], Some U32), (''irohVersion'', [Ptr, Ptr], None), (''initRuntime'', [], Some I32),
     (''setLogLevel'', [I32], Some I32), (''freeBytes'', [Ptr, Usize], None), (''handleCount'', [], Some U64),
     (''completionWait'', [I64, Ptr, Ptr], Some I32), (''completionWake'', [], None), (''opCancel'', [U64], None),
     (''opFree'', [U64], None), (''opResultHandle'', [U64, Ptr, Ptr], Some I32),
     (''opResultHandle2'', [U64, Ptr, Ptr, Ptr], Some I32), (''opResultU64'', [U64, Ptr, Ptr], Some I32),
     (''opResultBytes'', [U64, Ptr, Ptr, Ptr, Ptr], Some I32), (''opResultErr'', [U64, Ptr], Some I32),
     (''errorTake'', [U64, Ptr, Ptr, Ptr], None), (''secretKeyGenerate'', [Ptr], None),
     (''secretKeyPublic'', [Ptr, Ptr, Ptr], Some I32), (''secretKeySign'', [Ptr, Ptr, Usize, Ptr, Ptr], Some I32),
     (''endpointIDVerify'', [Ptr, Ptr, Usize, Ptr, Ptr], Some I32), (''endpointIDFormat'', [Ptr, Ptr, Ptr, Ptr], Some I32),
     (''endpointIDParse'', [Ptr, Usize, Ptr, Ptr], Some I32), (''addrNormalize'', [Ptr, Usize, Ptr, Ptr, Ptr], Some I32),
     (''ticketEncode'', [Ptr, Usize, Ptr, Ptr, Ptr], Some I32), (''ticketDecode'', [Ptr, Usize, Ptr, Ptr, Ptr], Some I32),
     (''optionsNew'', [I32], Some U64), (''optionsFree'', [U64], None),
     (''optionsSetSecretKey'', [U64, Ptr, Ptr], Some I32), (''optionsAddALPN'', [U64, Ptr, Usize, Ptr], Some I32),
     (''optionsSetRelayMode'', [U64, I32, Ptr], Some I32), (''optionsAddRelayURL'', [U64, Ptr, Usize, Ptr], Some I32),
     (''optionsAddBindAddr'', [U64, Ptr, Usize, Ptr], Some I32), (''endpointBind'', [U64], Some U64),
     (''endpointID'', [U64, Ptr, Ptr], Some I32), (''endpointAddr'', [U64, Ptr, Ptr, Ptr], Some I32),
     (''endpointSockets'', [U64, Ptr, Ptr, Ptr], Some I32), (''endpointOnline'', [U64], Some U64),
     (''endpointHomeRelay'', [U64, Ptr, Ptr, Ptr], Some I32), (''endpointRemoteInfo'', [U64, Ptr], Some U64),
     (''endpointConnect'', [U64, Ptr, Usize, Ptr, Usize], Some U64), (''endpointAccept'', [U64], Some U64),
     (''endpointClose'', [U64], Some U64), (''endpointFree'', [U64], None), (''connOpenBi'', [U64], Some U64),
     (''connAcceptBi'', [U64], Some U64), (''connOpenUni'', [U64], Some U64), (''connAcceptUni'', [U64], Some U64),
     (''connSendDatagram'', [U64, Ptr, Usize, Ptr], Some I32), (''connReadDatagram'', [U64], Some U64),
     (''connMaxDatagramSize'', [U64, Ptr, Ptr], Some I32), (''connRemoteID'', [U64, Ptr, Ptr], Some I32),
     (''connALPN'', [U64, Ptr, Ptr, Ptr], Some I32), (''connStats'', [U64, Ptr, Usize, Ptr], Some I32),
     (''connPaths'', [U64, Ptr, Ptr, Ptr], Some I32), (''connClose'', [U64, U64, Ptr, Usize, Ptr], Some I32),
     (''connClosed'', [U64], Some U64), (''connFree'', [U64], None), (''sendWrite'', [U64, Ptr, Usize], Some U64),
     (''sendFinish'', [U64], Some U64), (''sendReset'', [U64, U64], Some U64), (''sendSetPriority'', [U64, I32], Some U64),
     (''sendStopped'', [U64], Some U64), (''sendFree'', [U64], None), (''recvRead'', [U64, Usize], Some U64),
     (''recvStop'', [U64, U64], Some U64), (''recvFree'', [U64], None)]"

text \<open>\<^verbatim>\<open>symbols\<close>: the name of each symbol and the field it is bound to.\<close>

definition symbols :: "(string \<times> string) list" where
  "symbols = [
    (''iroh_abi_version'', ''abiVersion''), (''iroh_version'', ''irohVersion''), (''iroh_init'', ''initRuntime''),
     (''iroh_set_log_level'', ''setLogLevel''), (''iroh_free_bytes'', ''freeBytes''),
     (''iroh_debug_handle_count'', ''handleCount''), (''iroh_completion_wait'', ''completionWait''),
     (''iroh_completion_wake'', ''completionWake''), (''iroh_op_cancel'', ''opCancel''), (''iroh_op_free'', ''opFree''),
     (''iroh_op_result_handle'', ''opResultHandle''), (''iroh_op_result_handle2'', ''opResultHandle2''),
     (''iroh_op_result_u64'', ''opResultU64''), (''iroh_op_result_bytes'', ''opResultBytes''),
     (''iroh_op_result_err'', ''opResultErr''), (''iroh_error_take'', ''errorTake''),
     (''iroh_secret_key_generate'', ''secretKeyGenerate''), (''iroh_secret_key_public'', ''secretKeyPublic''),
     (''iroh_secret_key_sign'', ''secretKeySign''), (''iroh_endpoint_id_verify'', ''endpointIDVerify''),
     (''iroh_endpoint_id_format'', ''endpointIDFormat''), (''iroh_endpoint_id_parse'', ''endpointIDParse''),
     (''iroh_addr_normalize'', ''addrNormalize''), (''iroh_ticket_encode'', ''ticketEncode''),
     (''iroh_ticket_decode'', ''ticketDecode''), (''iroh_options_new'', ''optionsNew''),
     (''iroh_options_free'', ''optionsFree''), (''iroh_options_set_secret_key'', ''optionsSetSecretKey''),
     (''iroh_options_add_alpn'', ''optionsAddALPN''), (''iroh_options_set_relay_mode'', ''optionsSetRelayMode''),
     (''iroh_options_add_relay_url'', ''optionsAddRelayURL''), (''iroh_options_add_bind_addr'', ''optionsAddBindAddr''),
     (''iroh_endpoint_bind'', ''endpointBind''), (''iroh_endpoint_id'', ''endpointID''),
     (''iroh_endpoint_addr'', ''endpointAddr''), (''iroh_endpoint_bound_sockets'', ''endpointSockets''),
     (''iroh_endpoint_online'', ''endpointOnline''), (''iroh_endpoint_home_relay'', ''endpointHomeRelay''),
     (''iroh_endpoint_remote_info'', ''endpointRemoteInfo''), (''iroh_endpoint_connect'', ''endpointConnect''),
     (''iroh_endpoint_accept'', ''endpointAccept''), (''iroh_endpoint_close'', ''endpointClose''),
     (''iroh_endpoint_free'', ''endpointFree''), (''iroh_conn_open_bi'', ''connOpenBi''),
     (''iroh_conn_accept_bi'', ''connAcceptBi''), (''iroh_conn_open_uni'', ''connOpenUni''),
     (''iroh_conn_accept_uni'', ''connAcceptUni''), (''iroh_conn_send_datagram'', ''connSendDatagram''),
     (''iroh_conn_read_datagram'', ''connReadDatagram''), (''iroh_conn_max_datagram_size'', ''connMaxDatagramSize''),
     (''iroh_conn_remote_id'', ''connRemoteID''), (''iroh_conn_alpn'', ''connALPN''), (''iroh_conn_stats'', ''connStats''),
     (''iroh_conn_paths'', ''connPaths''), (''iroh_conn_close'', ''connClose''), (''iroh_conn_closed'', ''connClosed''),
     (''iroh_conn_free'', ''connFree''), (''iroh_send_write'', ''sendWrite''), (''iroh_send_finish'', ''sendFinish''),
     (''iroh_send_reset'', ''sendReset''), (''iroh_send_set_priority'', ''sendSetPriority''),
     (''iroh_send_stopped'', ''sendStopped''), (''iroh_send_free'', ''sendFree''), (''iroh_recv_read'', ''recvRead''),
     (''iroh_recv_stop'', ''recvStop''), (''iroh_recv_free'', ''recvFree'')]"

subsection \<open>The version of the library (lib.rs)\<close>

definition ABI_VERSION :: "32 word" where "ABI_VERSION = 5"

definition iroh_abi_version :: "32 word" where
  "iroh_abi_version = ABI_VERSION"

subsection \<open>Opening (internal/lib)\<close>

record dynlib =
  exports :: "string \<Rightarrow> bool"
  abi_version :: "32 word"
  init_result :: i32

definition lib_Open :: "process \<Rightarrow> (string \<Rightarrow> disk \<Rightarrow> go_error + dynlib) \<Rightarrow> disk \<Rightarrow> (go_error + dynlib) \<times> disk" where
  "lib_Open P dlopen d = (case Path P d of
     (Inl err, d1) \<Rightarrow> (Inl err, d1)
   | (Inr path, d1) \<Rightarrow> (case dlopen path d1 of
       Inl err \<Rightarrow> (Inl (Errorf ''iroh: loading %s: %w'' [ArgStr path] (Some err)), d1)
     | Inr L \<Rightarrow> (Inr L, d1)))"

subsection \<open>Loading (ffi.go)\<close>

text \<open>
  The state of the package: whether the once has run and what it left, which field of \<^verbatim>\<open>c\<close> is bound to
  which symbol, and how many pumps were started.
\<close>

record loader =
  load_ran :: bool
  loadErr :: "go_error option"
  bound :: "string \<rightharpoonup> string"
  pumps :: nat
  ldisk :: disk

text \<open>\<^verbatim>\<open>purego.RegisterLibFunc\<close> panics when the library has no such symbol.\<close>

definition RegisterLibFunc :: "dynlib \<Rightarrow> string \<Rightarrow> string \<Rightarrow> loader \<Rightarrow> string + loader" where
  "RegisterLibFunc L field name s = (if exports L name then Inr (s\<lparr>bound := (bound s)(field \<mapsto> name)\<rparr>) else Inl name)"

fun register_all :: "dynlib \<Rightarrow> (string \<times> string) list \<Rightarrow> loader \<Rightarrow> string option \<times> loader" where
  "register_all L [] s = (None, s)"
| "register_all L ((name, field) # rest) s = (case RegisterLibFunc L field name s of
     Inl panic \<Rightarrow> (Some panic, s) | Inr s1 \<Rightarrow> register_all L rest s1)"

definition recovered :: "string \<Rightarrow> go_error" where
  "recovered r = Errorf ''iroh: binding library symbols: %v'' [ArgStr r] None"

definition startPump :: "loader \<Rightarrow> loader" where
  "startPump s = s\<lparr>pumps := Suc (pumps s)\<rparr>"

definition load_with :: "dynlib \<Rightarrow> (string \<times> string) list \<Rightarrow> loader \<Rightarrow> go_error option \<times> loader" where
  "load_with L order s = (case RegisterLibFunc L ''abiVersion'' ''iroh_abi_version'' s of
     Inl r \<Rightarrow> (Some (recovered r), s)
   | Inr s1 \<Rightarrow>
       if abi_version L \<noteq> ABIVersion
       then (Some (Errorf ''iroh: library at ABI version %d, these bindings need %d; the native library is out of step with the Go code (run `make lib`, or update the libs/* modules)''
           [ArgInt (uint (abi_version L)), ArgInt (uint ABIVersion)] None), s1)
       else (case register_all L order s1 of
           (Some r, s2) \<Rightarrow> (Some (recovered r), s2)
         | (None, s2) \<Rightarrow>
             if init_result L \<noteq> 0 then (Some (Errorf ''iroh: library failed to start its runtime'' [] None), s2)
             else (None, startPump s2)))"

definition load :: "process \<Rightarrow> (string \<Rightarrow> disk \<Rightarrow> go_error + dynlib) \<Rightarrow> (string \<times> string) list \<Rightarrow> loader \<Rightarrow>
    go_error option \<times> loader" where
  "load P dlopen order s = (case lib_Open P dlopen (ldisk s) of
     (Inl err, d) \<Rightarrow> (Some err, s\<lparr>ldisk := d\<rparr>) | (Inr L, d) \<Rightarrow> load_with L order (s\<lparr>ldisk := d\<rparr>))"

definition Load :: "process \<Rightarrow> (string \<Rightarrow> disk \<Rightarrow> go_error + dynlib) \<Rightarrow> (string \<times> string) list \<Rightarrow> loader \<Rightarrow>
    go_error option \<times> loader" where
  "Load P dlopen order s = (if load_ran s then (loadErr s, s)
     else let (err, s1) = load P dlopen order s in (err, s1\<lparr>load_ran := True, loadErr := err\<rparr>))"

subsection \<open>The library as a whole (calls.go, iroh.go, lib.rs)\<close>

datatype LogLevel = LogOff | LogError | LogWarn | LogInfo | LogDebug | LogTrace

definition level_number :: "LogLevel \<Rightarrow> i32" where
  "level_number l = (case l of LogOff \<Rightarrow> 0 | LogError \<Rightarrow> 1 | LogWarn \<Rightarrow> 2 | LogInfo \<Rightarrow> 3 | LogDebug \<Rightarrow> 4 | LogTrace \<Rightarrow> 5)"

text \<open>The process has one tracing subscriber; installing a second one fails.\<close>

definition level_directive :: "i32 \<Rightarrow> string option" where
  "level_directive level = (if level = 0 then Some ''off'' else if level = 1 then Some ''error'' else if level = 2 then Some ''warn''
     else if level = 3 then Some ''info'' else if level = 4 then Some ''debug'' else if level = 5 then Some ''trace'' else None)"

definition iroh_set_log_level :: "i32 \<Rightarrow> string option \<Rightarrow> i32 \<times> string option" where
  "iroh_set_log_level level sub = (case level_directive level of
     None \<Rightarrow> (FFI_ERR, sub)
   | Some directive \<Rightarrow> if sub = None then (FFI_OK, Some directive) else (FFI_ERR, sub))"

definition FfiSetLogLevel :: "go_error option \<Rightarrow> i32 \<Rightarrow> string option \<Rightarrow> go_error option \<times> string option" where
  "FfiSetLogLevel ld level sub = (case ld of Some e \<Rightarrow> (Some e, sub)
   | None \<Rightarrow> (let (rc, sub1) = iroh_set_log_level level sub in
       (if rc \<noteq> 0 then Some (NewError 1 ''iroh: could not set log level'') else None, sub1)))"

definition SetLogLevel :: "go_error option \<Rightarrow> LogLevel \<Rightarrow> string option \<Rightarrow> go_error option \<times> string option" where
  "SetLogLevel ld level sub = FfiSetLogLevel ld (level_number level) sub"

definition iroh_version :: "bytes \<Rightarrow> ('n, 'z) lib_scheme \<Rightarrow> (nat \<times> nat) \<times> ('n, 'z) lib_scheme" where
  "iroh_version version w = out_bytes version w"

definition FfiIrohVersion :: "bytes \<Rightarrow> go_error option \<Rightarrow> ('n, 'z) lib_scheme \<Rightarrow> (go_error + string) \<times> ('n, 'z) lib_scheme" where
  "FfiIrohVersion version ld w = (case ld of Some e \<Rightarrow> (Inl e, w)
   | None \<Rightarrow> (let ((p, n), w1) = iroh_version version w; (s, w2) = takeString p n w1 in (Inr s, w2)))"

definition IrohVersion :: "bytes \<Rightarrow> go_error option \<Rightarrow> ('n, 'z) lib_scheme \<Rightarrow> (go_error + string) \<times> ('n, 'z) lib_scheme" where
  "IrohVersion = FfiIrohVersion"

definition iroh_debug_handle_count :: "('n, 'z) lib_scheme \<Rightarrow> u64" where
  "iroh_debug_handle_count w = of_nat (len (reg w))"

definition HandleCount :: "go_error option \<Rightarrow> ('n, 'z) lib_scheme \<Rightarrow> go_error + u64" where
  "HandleCount ld w = (case ld of Some e \<Rightarrow> Inl e | None \<Rightarrow> Inr (iroh_debug_handle_count w))"

text \<open>\<^verbatim>\<open>ffi.Shutdown\<close> looks at the error and at the function pointer, without loading anything.\<close>

definition ffi_Shutdown :: "loader \<Rightarrow> ('n, 'z) lib_scheme \<Rightarrow> ('n, 'z) lib_scheme" where
  "ffi_Shutdown s w = (if loadErr s = None \<and> bound s ''completionWake'' \<noteq> None then shutdown w else w)"

definition LibraryPath :: "process \<Rightarrow> disk \<Rightarrow> (go_error + string) \<times> disk" where
  "LibraryPath P d = Path P d"

definition LibraryPlatform :: "process \<Rightarrow> string" where
  "LibraryPlatform P = Platform P"

end
