(* ===== verification/Library_File_Properties.thy ===== *)
theory Library_File_Properties
  imports Library_File
begin

text \<open>
  What extracting the library promises while other processes extract it too and any system call may
  fail: whoever looks at the path of the library finds the file that was there before, or all of
  the embedded one; and a path that is returned has a library.
\<close>

subsection \<open>Paths\<close>

definition base :: "string \<Rightarrow> string" where
  "base p = rev (takeWhile (\<lambda>c. c \<noteq> slash) (rev p))"

lemma base_after_slash:
  assumes "slash \<notin> set f"
  shows "base (x @ slash # f) = f" and "base (slash # f) = f"
proof -
  have "takeWhile (\<lambda>c. c \<noteq> slash) (rev f @ slash # ys) = rev f" for ys
    using assms by (subst takeWhile_append2) auto
  then show "base (x @ slash # f) = f" "base (slash # f) = f" by (simp_all add: base_def)
qed

lemma base_plain:
  assumes "slash \<notin> set f"
  shows "base f = f"
proof -
  have "takeWhile (\<lambda>c. c \<noteq> slash) (rev f) = rev f" using assms by (simp add: takeWhile_eq_all_conv) blast
  then show ?thesis unfolding base_def by (simp only: rev_rev_ident)
qed

lemma base_temp_name: "slash \<notin> set (pre @ r) \<Longrightarrow> base (temp_name dir pre r) = pre @ r"
proof -
  assume s: "slash \<notin> set (pre @ r)"
  have "\<exists>x. temp_name dir pre r = x @ slash # pre @ r"
  proof (cases "dir \<noteq> [] \<and> last dir = slash")
    case True
    then have "dir = butlast dir @ [slash]" using append_butlast_last_id by metis
    moreover have "temp_name dir pre r = dir @ pre @ r" using True by (simp add: temp_name_def)
    ultimately have "temp_name dir pre r = butlast dir @ slash # pre @ r" by (metis append.assoc append_Cons append_Nil)
    then show ?thesis by blast
  qed (auto simp: temp_name_def)
  then show ?thesis using base_after_slash [OF s] by auto
qed

lemma Split_at: "Split sep (x @ sep # y) = Split sep x @ Split sep y"
  by (induction x) (auto split: list.split)

lemma join_snoc: "join sep (xs @ [x]) = (if xs = [] then x else join sep xs @ sep # x)"
  by (induction xs rule: join.induct) auto

lemma base_Clean:
  assumes f: "slash \<notin> set f" "f \<notin> {[], ''.'', ''..''}"
  shows "base (Clean (d @ slash # f)) = f"
proof -
  define rooted where "rooted = (case d @ slash # f of c # _ \<Rightarrow> c = slash | [] \<Rightarrow> False)"
  let ?acc = "fold (clean_step rooted) (Split slash d) []"
  have "fold (clean_step rooted) (Split slash (d @ slash # f)) [] = f # ?acc"
    using f by (simp add: Split_at Split_no_sep)
  then have "Clean (d @ slash # f) = (if rooted then [slash] else []) @ join slash (rev ?acc @ [f])"
    using f unfolding Clean_def rooted_def [symmetric] by (simp add: join_snoc)
  then show ?thesis using base_after_slash [OF f(1)] base_after_slash(1) [OF f(1), of "slash # _"] base_plain [OF f(1)]
    by (auto simp: join_snoc)
qed

lemma library_dir_nonempty: "library_dir P want \<noteq> []"
  by (simp add: library_dir_def Join_path_def Clean_def Let_def)

lemma filename_plain: "libraryFilename P = Inr f \<Longrightarrow> slash \<notin> set f \<and> f \<noteq> [] \<and> hd f \<noteq> CHR ''.''"
  by (auto simp: libraryFilename_def split: if_splits)

lemma base_library:
  assumes "libraryFilename P = Inr f"
  shows "base (Join_path [library_dir P want, f]) = f"
proof -
  have "slash \<notin> set f" "f \<notin> {[], ''.'', ''..''}" using filename_plain [OF assms] by auto
  then show ?thesis using library_dir_nonempty [of P want] by (simp add: Join_path_def base_Clean)
qed

text \<open>A temporary file never has the name of the library.\<close>

lemma temp_not_library:
  assumes "libraryFilename P = Inr f" and "slash \<notin> set r"
  shows "temp_name dir ''.iroh_go-'' r \<noteq> Join_path [library_dir P want, f]"
proof
  assume "temp_name dir ''.iroh_go-'' r = Join_path [library_dir P want, f]"
  then have "''.iroh_go-'' @ r = f" using base_temp_name [of "''.iroh_go-''" r dir] base_library [OF assms(1)] assms(2) by simp
  then show False using filename_plain [OF assms(1)] by auto
qed

subsection \<open>What other processes may do\<close>

text \<open>
  Other processes that touch the library put the same bytes there, because its hash is in the path, and
  nobody touches the temporary files of this process, whose names are random.
\<close>

definition own_temps :: "string \<Rightarrow> disk \<Rightarrow> string set" where
  "own_temps path d = (\<lambda>t. temp_name (Dir path) ''.iroh_go-'' (rand t)) ` set (quiet_turn # turns d)"

definition turn_ok :: "string \<Rightarrow> bytes \<Rightarrow> string set \<Rightarrow> turn \<Rightarrow> bool" where
  "turn_ok path data N t \<longleftrightarrow> slash \<notin> set (rand t) \<and> temp_name (Dir path) ''.iroh_go-'' (rand t) \<in> N \<and>
     (\<forall>(p, f) \<in> set (others t). p \<notin> N \<and> (p = path \<longrightarrow> map_option contents f = Some data))"

definition others_ok :: "string \<Rightarrow> bytes \<Rightarrow> disk \<Rightarrow> bool" where
  "others_ok path data d \<longleftrightarrow> (\<forall>t \<in> set (turns d). turn_ok path data (own_temps path d) t)"

definition holds_lib :: "bytes \<Rightarrow> dfile option \<Rightarrow> bool" where
  "holds_lib data f \<longleftrightarrow> map_option contents f = Some data"

text \<open>The path has what it had at first, or the library, now and after every call so far.\<close>

definition atomic :: "string \<Rightarrow> bytes \<Rightarrow> dfile option \<Rightarrow> string set \<Rightarrow> disk \<Rightarrow> bool" where
  "atomic path data f0 N d \<longleftrightarrow> path \<notin> N \<and> (\<forall>t \<in> set (quiet_turn # turns d). turn_ok path data N t) \<and>
     (\<forall>m \<in> set (files d # history d). m path = f0 \<or> holds_lib data (m path))"

lemma fold_others:
  assumes "\<forall>(p, f) \<in> set os. p \<notin> N \<and> (p = path \<longrightarrow> map_option contents f = Some data)"
  shows "(fold (\<lambda>(p, f) m. m(p := f)) os fs path = fs path \<or> holds_lib data (fold (\<lambda>(p, f) m. m(p := f)) os fs path)) \<and>
     (holds_lib data (fs path) \<longrightarrow> holds_lib data (fold (\<lambda>(p, f) m. m(p := f)) os fs path)) \<and>
     (n \<in> N \<longrightarrow> fold (\<lambda>(p, f) m. m(p := f)) os fs n = fs n)"
  using assms
proof (induction os arbitrary: fs)
  case (Cons x os)
  obtain p f where x: "x = (p, f)" by (cases x)
  show ?case using Cons.IH [of "fs(p := f)"] Cons.prems by (auto simp: x holds_lib_def)
qed simp

lemma in_set_tl: "x \<in> set (tl xs) \<Longrightarrow> x \<in> set xs"
  by (cases xs) auto

lemma os_turn_atomic:
  assumes "atomic path data f0 N d" and "os_turn d = (t, d1)"
  shows "atomic path data f0 N d1" "turn_ok path data N t" "n \<in> N \<Longrightarrow> files d1 n = files d n"
    "holds_lib data (files d path) \<Longrightarrow> holds_lib data (files d1 path)"
    "\<not> holds_lib data (files d1 path) \<Longrightarrow> files d1 path = files d path"
proof -
  have t: "turn_ok path data N t" using assms by (auto simp: os_turn_def atomic_def Let_def split: list.splits)
  then show "turn_ok path data N t" .
  have f: "files d1 = fold (\<lambda>(p, f) m. m(p := f)) (others t) (files d)" and r: "turns d1 = tl (turns d)" "history d1 = history d @ [files d1]"
    using assms(2) by (auto simp: os_turn_def Let_def)
  have ok: "\<forall>(p, f) \<in> set (others t). p \<notin> N \<and> (p = path \<longrightarrow> map_option contents f = Some data)" using t by (simp add: turn_ok_def)
  note o = fold_others [OF ok, of "files d", folded f]
  show "atomic path data f0 N d1"
    using assms(1) o in_set_tl unfolding atomic_def r by fastforce
  show "n \<in> N \<Longrightarrow> files d1 n = files d n" "holds_lib data (files d path) \<Longrightarrow> holds_lib data (files d1 path)"
    "\<not> holds_lib data (files d1 path) \<Longrightarrow> files d1 path = files d path" using o by blast+
qed

lemma puts_atomic:
  "atomic path data f0 N d \<Longrightarrow> fs path = f0 \<or> holds_lib data (fs path) \<Longrightarrow> atomic path data f0 N (puts fs d)"
  by (auto simp: atomic_def puts_def)

subsection \<open>System calls\<close>

text \<open>What every call keeps: the two forms of the path, a library that is there, and the temporary files.\<close>

definition keeps :: "string \<Rightarrow> bytes \<Rightarrow> dfile option \<Rightarrow> string set \<Rightarrow> disk \<Rightarrow> disk \<Rightarrow> bool" where
  "keeps path data f0 N d d' \<longleftrightarrow> (atomic path data f0 N d \<longrightarrow> atomic path data f0 N d' \<and>
     (holds_lib data (files d path) \<longrightarrow> holds_lib data (files d' path)))"

lemma keeps_trans [trans]: "keeps path data f0 N d d1 \<Longrightarrow> keeps path data f0 N d1 d2 \<Longrightarrow> keeps path data f0 N d d2"
  by (auto simp: keeps_def)

lemma keepsD: "keeps path data f0 N d d' \<Longrightarrow> atomic path data f0 N d \<Longrightarrow> atomic path data f0 N d'"
  "keeps path data f0 N d d' \<Longrightarrow> atomic path data f0 N d \<Longrightarrow> holds_lib data (files d path) \<Longrightarrow> holds_lib data (files d' path)"
  by (auto simp: keeps_def)

lemma keeps_turn: "os_turn d = (t, d1) \<Longrightarrow> keeps path data f0 N d d1"
  by (auto simp: keeps_def dest: os_turn_atomic(1,4))

lemma os_call_cases:
  assumes "os_call f d = (r, d')"
  obtains (failed) t m where "os_turn d = (t, d')" "r = Inl (External m)"
  | (ran) t d1 where "os_turn d = (t, d1)" "f t d1 = (r, d')"
  using assms by (auto simp: os_call_def split: prod.splits option.splits)

lemma keeps_puts: "path \<notin> N \<Longrightarrow> p \<in> N \<Longrightarrow> keeps path data f0 N d (puts ((files d)(p := f)) d)"
  by (auto simp: keeps_def atomic_def puts_def)

lemma not_external [simp]: "External m \<noteq> ErrNotExist" "\<not> errors_Is (External m) ErrNotExist" "errors_Is ErrNotExist ErrNotExist"
  by (simp_all add: ErrNotExist_def)

lemma os_Stat_spec:
  assumes "os_Stat p d = (r, d')"
  shows "keeps path data f0 N d d'" "r = Inr k \<Longrightarrow> \<exists>f. files d' p = Some f \<and> length (contents f) = k"
    "r = Inl e \<Longrightarrow> errors_Is e ErrNotExist \<Longrightarrow> files d' p = None"
proof -
  note c = os_call_cases [OF assms [unfolded os_Stat_def]]
  show "keeps path data f0 N d d'" by (rule c) (auto intro: keeps_turn)
  show "r = Inr k \<Longrightarrow> \<exists>f. files d' p = Some f \<and> length (contents f) = k" by (rule c) (auto split: option.splits)
  show "r = Inl e \<Longrightarrow> errors_Is e ErrNotExist \<Longrightarrow> files d' p = None" by (rule c) (auto split: option.splits)
qed

lemma os_ReadFile_spec:
  assumes "os_ReadFile p d = (r, d')"
  shows "keeps path data f0 N d d'" "r = Inr b \<Longrightarrow> \<exists>f. files d' p = Some f \<and> contents f = b"
proof -
  note c = os_call_cases [OF assms [unfolded os_ReadFile_def]]
  show "keeps path data f0 N d d'" by (rule c) (auto intro: keeps_turn)
  show "r = Inr b \<Longrightarrow> \<exists>f. files d' p = Some f \<and> contents f = b" by (rule c) (auto split: option.splits)
qed

lemma os_MkdirAll_keeps: "os_MkdirAll p d = (r, d') \<Longrightarrow> keeps path data f0 N d d'"
  unfolding os_MkdirAll_def by (cases rule: os_call_cases) (auto intro: keeps_turn)

text \<open>The temporary file after each call on it.\<close>

lemma os_CreateTemp_spec:
  assumes "os_CreateTemp (Dir path) ''.iroh_go-'' d = (r, d')" and "atomic path data f0 N d"
  shows "keeps path data f0 N d d'" "r = Inr n \<Longrightarrow> n \<in> N \<and> map_option contents (files d' n) = Some []"
proof -
  have N: "path \<notin> N" using assms(2) by (simp add: atomic_def)
  note c = os_call_cases [OF assms(1) [unfolded os_CreateTemp_def]]
  have new: "keeps path data f0 N d (puts ((files d1)(temp_name (Dir path) ''.iroh_go-'' (rand t) := f)) d1)
      \<and> temp_name (Dir path) ''.iroh_go-'' (rand t) \<in> N" if t: "os_turn d = (t, d1)" for t d1 f
  proof -
    have n: "temp_name (Dir path) ''.iroh_go-'' (rand t) \<in> N" using os_turn_atomic(2) [OF assms(2) t] by (simp add: turn_ok_def)
    then show ?thesis using keeps_turn [OF t] keeps_puts [OF N n] by (blast intro: keeps_trans)
  qed
  show "keeps path data f0 N d d'" by (rule c) (auto simp: Let_def new intro: keeps_turn split: if_splits)
  show "r = Inr n \<Longrightarrow> n \<in> N \<and> map_option contents (files d' n) = Some []"
    by (rule c) (auto simp: Let_def puts_def dest: new split: if_splits)
qed

lemma tmp_Write_spec:
  assumes "tmp_Write n b d = (r, d')" and "atomic path data f0 N d" and "n \<in> N"
  shows "keeps path data f0 N d d'" "r = Inr u \<Longrightarrow> map_option contents (files d n) = Some c \<Longrightarrow> map_option contents (files d' n) = Some (c @ b)"
proof -
  obtain t d1 where t: "os_turn d = (t, d1)" by (cases "os_turn d")
  have N: "path \<notin> N" using assms(2) by (simp add: atomic_def)
  have same: "files d1 n = files d n" by (rule os_turn_atomic(3) [OF assms(2) t assms(3)])
  have "keeps path data f0 N d (append_to n b' d1)" for b'
    using keeps_turn [OF t, of path data f0 N] keeps_trans [OF keeps_turn [OF t] keeps_puts [OF N assms(3)]]
    by (auto simp: append_to_def split: option.split)
  then show "keeps path data f0 N d d'" using assms(1) t by (auto simp: tmp_Write_def split: option.splits)
  show "r = Inr u \<Longrightarrow> map_option contents (files d n) = Some c \<Longrightarrow> map_option contents (files d' n) = Some (c @ b)"
    using assms(1) t same by (auto simp: tmp_Write_def append_to_def puts_def split: option.splits)
qed

lemma tmp_Close_spec:
  assumes "tmp_Close d = (r, d')" and "atomic path data f0 N d"
  shows "keeps path data f0 N d d'" "n \<in> N \<Longrightarrow> files d' n = files d n"
proof -
  note c = os_call_cases [OF assms(1) [unfolded tmp_Close_def]]
  show "keeps path data f0 N d d'" by (rule c) (auto intro: keeps_turn)
  show "n \<in> N \<Longrightarrow> files d' n = files d n" by (rule c) (auto intro: os_turn_atomic(3) [OF assms(2)])
qed

lemma os_Chmod_spec:
  assumes "os_Chmod n d = (r, d')" and "atomic path data f0 N d" and "n \<in> N"
  shows "keeps path data f0 N d d'" "map_option contents (files d' n) = map_option contents (files d n)"
proof -
  have N: "path \<notin> N" using assms(2) by (simp add: atomic_def)
  have k: "keeps path data f0 N d (puts ((files d1)(n := f)) d1)" if "os_turn d = (t, d1)" for t d1 f
    using keeps_turn [OF that] keeps_puts [OF N assms(3)] by (rule keeps_trans)
  note c = os_call_cases [OF assms(1) [unfolded os_Chmod_def]]
  show "keeps path data f0 N d d'" by (rule c) (auto intro: keeps_turn k split: option.splits)
  show "map_option contents (files d' n) = map_option contents (files d n)"
    by (rule c) (auto simp: puts_def dest: os_turn_atomic(3) [OF assms(2) _ assms(3)] split: option.splits)
qed

lemma os_Remove_keeps:
  assumes "os_Remove n d = (r, d')" and "atomic path data f0 N d" and "n \<in> N"
  shows "keeps path data f0 N d d'"
proof -
  have N: "path \<notin> N" using assms(2) by (simp add: atomic_def)
  have k: "keeps path data f0 N d (puts ((files d1)(n := f)) d1)" if "os_turn d = (t, d1)" for t d1 f
    using keeps_turn [OF that] keeps_puts [OF N assms(3)] by (rule keeps_trans)
  show ?thesis by (rule os_call_cases [OF assms(1) [unfolded os_Remove_def]]) (auto intro: keeps_turn k split: if_splits)
qed

lemma os_Rename_spec:
  assumes "os_Rename n path d = (r, d')" and "atomic path data f0 N d" and "n \<in> N" and full: "map_option contents (files d n) = Some data"
  shows "keeps path data f0 N d d'" "r = Inr u \<Longrightarrow> holds_lib data (files d' path)"
proof -
  have N: "path \<noteq> n" using assms(2,3) by (auto simp: atomic_def)
  have k: "keeps path data f0 N d (puts ((files d1)(n := None, path \<mapsto> f)) d1) \<and> contents f = data"
    if t: "os_turn d = (t, d1)" and f: "files d1 n = Some f" for t d1 f
  proof -
    have "contents f = data" using os_turn_atomic(3) [OF assms(2) t assms(3)] f full by auto
    then show ?thesis using puts_atomic [OF os_turn_atomic(1) [OF assms(2) t]] by (auto simp: keeps_def holds_lib_def puts_def)
  qed
  show "keeps path data f0 N d d'" "r = Inr u \<Longrightarrow> holds_lib data (files d' path)"
    by (rule os_call_cases [OF assms(1) [unfolded os_Rename_def]]; auto intro: keeps_turn dest: k split: option.splits)
      (rule os_call_cases [OF assms(1) [unfolded os_Rename_def]]; auto simp: holds_lib_def puts_def dest: k split: option.splits)
qed

subsection \<open>Extraction\<close>

text \<open>The file that was there first does not have the size of the library.\<close>

definition misfit :: "bytes \<Rightarrow> dfile option \<Rightarrow> bool" where
  "misfit data f0 \<longleftrightarrow> (\<forall>f. f0 = Some f \<longrightarrow> length (contents f) \<noteq> length data)"

lemma atomic_path: "atomic path data f0 N d \<Longrightarrow> files d path = f0 \<or> holds_lib data (files d path)"
  by (simp add: atomic_def)

lemma right_size:
  assumes "atomic path data f0 N d" and "misfit data f0" and "files d path = Some f" and "length (contents f) = length data"
  shows "holds_lib data (files d path)"
  using atomic_path [OF assms(1)] assms(2-4) by (auto simp: misfit_def)

lemma rename_into_spec:
  assumes "rename_into n path (length data) d = (r, d')" and at: "atomic path data f0 N d" and n: "n \<in> N"
    and full: "map_option contents (files d n) = Some data" and fit: "misfit data f0"
  shows "keeps path data f0 N d d'" "r = None \<Longrightarrow> holds_lib data (files d' path)"
proof -
  obtain x d1 where 1: "os_Rename n path d = (x, d1)" by (cases "os_Rename n path d")
  note k1 = os_Rename_spec [OF 1 at n full]
  obtain y d2 where 2: "os_Stat path d1 = (y, d2)" by (cases "os_Stat path d1")
  note k2 = os_Stat_spec [OF 2]
  have "keeps path data f0 N d d2" by (rule keeps_trans [OF k1(1) k2(1)])
  then show "keeps path data f0 N d d'" using assms(1) 1 2 k1 by (auto simp: rename_into_def split: sum.splits if_splits)
  show "holds_lib data (files d' path)" if "r = None"
  proof (cases x)
    case (Inl e)
    then have "d' = d2" "y = Inr (length data)" using assms(1) 1 2 that by (auto simp: rename_into_def split: if_splits)
    then show ?thesis using k2(2) right_size [OF keepsD(1) [OF \<open>keeps path data f0 N d d2\<close> at] fit] by blast
  qed (use assms(1) 1 k1(2) in \<open>auto simp: rename_into_def\<close>)
qed

lemma finish_temp_spec:
  assumes "finish_temp P n path (length data) d = (r, d')" and at: "atomic path data f0 N d" and n: "n \<in> N"
    and full: "map_option contents (files d n) = Some data" and fit: "misfit data f0"
  shows "keeps path data f0 N d d'" "r = None \<Longrightarrow> holds_lib data (files d' path)"
proof -
  obtain x d1 where 1: "os_Chmod n d = (x, d1)" by (cases "os_Chmod n d")
  note k1 = os_Chmod_spec [OF 1 at n]
  have at1: "atomic path data f0 N d1" by (rule keepsD(1) [OF k1(1) at])
  have full1: "map_option contents (files d1 n) = Some data" using k1(2) full by simp
  note r = rename_into_spec [OF _ at n full fit]
  note r1 = rename_into_spec [OF _ at1 n full1 fit]
  show "keeps path data f0 N d d'" using assms(1) 1 r(1) keeps_trans [OF k1(1) r1(1)] k1(1)
    by (auto simp: finish_temp_def split: if_splits sum.splits)
  show "r = None \<Longrightarrow> holds_lib data (files d' path)" using assms(1) 1 r(2) r1(2)
    by (auto simp: finish_temp_def split: if_splits sum.splits)
qed

lemma fill_temp_spec:
  assumes "fill_temp P n path data d = (r, d')" and at: "atomic path data f0 N d" and n: "n \<in> N"
    and new: "map_option contents (files d n) = Some []" and fit: "misfit data f0"
  shows "keeps path data f0 N d d'" "r = None \<Longrightarrow> holds_lib data (files d' path)"
proof -
  obtain x d1 where 1: "tmp_Write n data d = (x, d1)" by (cases "tmp_Write n data d")
  note k1 = tmp_Write_spec [OF 1 at n]
  have at1: "atomic path data f0 N d1" by (rule keepsD(1) [OF k1(1) at])
  obtain y d2 where 2: "tmp_Close d1 = (y, d2)" by (cases "tmp_Close d1")
  note k2 = tmp_Close_spec [OF 2 at1]
  have at2: "atomic path data f0 N d2" by (rule keepsD(1) [OF k2(1) at1])
  have full: "map_option contents (files d2 n) = Some data" if "x = Inr ()" using k1(2) [OF that new] k2(2) [OF n] by simp
  note f = finish_temp_spec [OF _ at2 n full fit]
  show "keeps path data f0 N d d'" using assms(1) 1 2 keeps_trans [OF k1(1) k2(1)] keeps_trans [OF keeps_trans [OF k1(1) k2(1)] f(1)]
    by (auto simp: fill_temp_def split: sum.splits)
  show "r = None \<Longrightarrow> holds_lib data (files d' path)" using assms(1) 1 2 f(2) by (auto simp: fill_temp_def split: sum.splits)
qed

lemma writeAtomic_spec:
  assumes "writeAtomic P path data d = (r, d')" and at: "atomic path data f0 N d" and fit: "misfit data f0"
  shows "keeps path data f0 N d d'" "r = None \<Longrightarrow> holds_lib data (files d' path)"
proof -
  obtain x d1 where 1: "os_CreateTemp (Dir path) ''.iroh_go-'' d = (x, d1)" by (cases "os_CreateTemp (Dir path) ''.iroh_go-'' d")
  note k1 = os_CreateTemp_spec [OF 1 at]
  have at1: "atomic path data f0 N d1" by (rule keepsD(1) [OF k1(1) at])
  have "keeps path data f0 N d d' \<and> (r = None \<longrightarrow> holds_lib data (files d' path))"
  proof (cases x)
    case (Inr n)
    obtain d2 where 2: "fill_temp P n path data d1 = (r, d2)" and d': "d' = snd (os_Remove n d2)"
      using assms(1) 1 Inr by (auto simp: writeAtomic_def Let_def split: prod.splits)
    have n: "n \<in> N" "map_option contents (files d1 n) = Some []" using k1(2) Inr by auto
    note k2 = fill_temp_spec [OF 2 at1 n fit]
    have at2: "atomic path data f0 N d2" by (rule keepsD(1) [OF k2(1) at1])
    have k3: "keeps path data f0 N d2 d'" using os_Remove_keeps [OF _ at2 n(1)] d' by (cases "os_Remove n d2") auto
    show ?thesis using keeps_trans [OF keeps_trans [OF k1(1) k2(1)] k3] keepsD(2) [OF k3 at2] k2(2) by blast
  qed (use assms(1) 1 k1 in \<open>auto simp: writeAtomic_def\<close>)
  then show "keeps path data f0 N d d'" "r = None \<Longrightarrow> holds_lib data (files d' path)" by auto
qed

text \<open>A file that may be used: the library, or the one found at first, if it passes the checks.\<close>

definition fits :: "process \<Rightarrow> bytes \<Rightarrow> string \<Rightarrow> dfile option \<Rightarrow> dfile option \<Rightarrow> bool" where
  "fits P data want f0 f \<longleftrightarrow> holds_lib data f \<or>
     (\<exists>g. f = Some g \<and> f0 = Some g \<and> length (contents g) = length data \<and> (Getenv P EnvVerify \<noteq> [] \<longrightarrow> hash P (contents g) = want))"

lemma usable_spec:
  assumes "usable P path (length data) want d = (r, d')" and at: "atomic path data f0 N d"
  shows "keeps path data f0 N d d'" "r = Inr True \<Longrightarrow> fits P data want f0 (files d' path)" "r = Inr False \<Longrightarrow> misfit data f0"
proof -
  obtain x d1 where 1: "os_Stat path d = (x, d1)" by (cases "os_Stat path d")
  note k1 = os_Stat_spec [OF 1]
  have at1: "atomic path data f0 N d1" by (rule keepsD(1) [OF k1(1) at])
  obtain y d2 where 2: "os_ReadFile path d1 = (y, d2)" by (cases "os_ReadFile path d1")
  note k2 = os_ReadFile_spec [OF 2]
  have at2: "atomic path data f0 N d2" by (rule keepsD(1) [OF k2(1) at1])
  note fits = atomic_path [OF at1] atomic_path [OF at2] keepsD(2) [OF k2(1) at1]
  show "keeps path data f0 N d d'" using assms(1) 1 2 k1(1) keeps_trans [OF k1(1) k2(1)]
    by (auto simp: usable_def split: sum.splits if_splits)
  show "r = Inr True \<Longrightarrow> fits P data want f0 (files d' path)" using assms(1) 1 2 k1(2) k2(2) fits
    by (auto simp: usable_def fits_def split: sum.splits if_splits)
  show "r = Inr False \<Longrightarrow> misfit data f0" using assms(1) 1 2 k1(2,3) fits
    by (auto simp: usable_def misfit_def holds_lib_def split: sum.splits if_splits)
qed

text \<open>
  C38: extracting the library is atomic and gives the library. Whatever system call fails, whatever other processes
  that extract the same version do in between, and wherever the process is killed, the path of the library
  has the file it had at first or all of the embedded bytes, never a part of them. A path that is returned
  has the embedded bytes, or the file found there at first, which then has their size and, when
  verification is on, their hash.
\<close>

theorem extraction_atomic:
  assumes "extract_lib P d = (r, d')" and "embedded P = Some fs" and "fs embeddedName = Inr data" and "embeddedHash P fs data = Inr want"
    and "libraryFilename P = Inr filename" and "path = Join_path [library_dir P want, filename]"
    and "others_ok path data d" and "history d = []"
  shows "(\<forall>m \<in> set (history d'). m path = files d path \<or> map_option contents (m path) = Some data) \<and>
    (\<forall>p. r = Inr p \<longrightarrow> p = path \<and> (map_option contents (files d' p) = Some data \<or>
      (\<exists>f. files d' p = Some f \<and> files d p = Some f \<and> length (contents f) = length data \<and>
        (Getenv P EnvVerify \<noteq> [] \<longrightarrow> hash P (contents f) = want))))"
proof -
  define N where "N = own_temps path d"
  let ?k = "keeps path data (files d path) N"
  have turns: "turn_ok path data N t" if "t \<in> set (turns d)" for t using assms(7) that by (simp add: others_ok_def N_def)
  have rands: "slash \<notin> set (rand t)" if "t \<in> set (quiet_turn # turns d)" for t
    using turns that by (auto simp: turn_ok_def quiet_turn_def)
  have "path \<noteq> temp_name dir ''.iroh_go-'' (rand t)" if "t \<in> set (quiet_turn # turns d)" for t dir
    using temp_not_library [OF assms(5) rands [OF that]] assms(6) by metis
  then have "path \<notin> N" unfolding N_def own_temps_def by blast
  moreover have "turn_ok path data N quiet_turn" by (auto simp: turn_ok_def quiet_turn_def N_def own_temps_def)
  ultimately have at: "atomic path data (files d path) N d" using turns assms(8) by (auto simp: atomic_def)
  obtain x d1 where 1: "os_MkdirAll (library_dir P want) d = (x, d1)" by (cases "os_MkdirAll (library_dir P want) d")
  note k1 = os_MkdirAll_keeps [OF 1]
  note at1 = keepsD(1) [OF k1 at]
  have goal: "?k d d' \<and> (\<forall>p. r = Inr p \<longrightarrow> p = path \<and> fits P data want (files d path) (files d' path))"
  proof (cases x)
    case (Inl e)
    then show ?thesis using assms(1-6) 1 k1 by (auto simp: extract_lib_def)
  next
    case (Inr u)
    then have into: "extract_into P path data want d1 = (r, d')" using assms(1-6) 1 by (simp add: extract_lib_def)
    obtain y d2 where 2: "usable P path (length data) want d1 = (y, d2)" by (cases "usable P path (length data) want d1")
    note k2 = usable_spec [OF 2 at1]
    note at2 = keepsD(1) [OF k2(1) at1]
    obtain z d3 where 3: "writeAtomic P path data d2 = (z, d3)" by (cases "writeAtomic P path data d2")
    note k3 = writeAtomic_spec [OF 3 at2]
    have k: "?k d d2" "y = Inr False \<Longrightarrow> ?k d d3" using keeps_trans [OF k1 k2(1)] keeps_trans [OF _ k3(1)] k2(3) by blast+
    have "z = None \<Longrightarrow> y = Inr False \<Longrightarrow> fits P data want (files d path) (files d3 path)" using k3(2) k2(3) by (simp add: fits_def)
    then show ?thesis using into 2 3 k k2(2) by (auto simp: extract_into_def split: sum.splits bool.splits option.splits)
  qed
  then have "atomic path data (files d path) N d'" using keepsD(1) at by blast
  then show ?thesis using goal by (auto simp: atomic_def fits_def holds_lib_def)
qed

subsection \<open>Examples\<close>

definition linux :: process where
  "linux = \<lparr>Getenv = (\<lambda>k. if k = EnvCacheDir then ''/c'' else []), GOOS = ''linux'', GOARCH = ''amd64'',
     embedded = Some (\<lambda>n. if n = embeddedName then Inr ''code'' else Inl (External ''no such file'')),
     platform = ''linux_amd64'', UserCacheDir = Inl (External ''HOME is not set''), TempDir = ''/tmp'',
     Sum256 = (\<lambda>b. replicate 32 (CHR 0x00))\<rparr>"

definition lib_path :: string where
  "lib_path = ''/c/iroh-go/linux_amd64-0000000000000000/libiroh_go.so''"

text \<open>A stale file of another size is there; the write goes through, another process installs the library before the rename.\<close>

definition racing :: disk where
  "racing = \<lparr>files = [lib_path \<mapsto> \<lparr>contents = ''co'', executable = True\<rparr>],
     turns = [quiet_turn, quiet_turn, quiet_turn\<lparr>rand := ''123''\<rparr>, quiet_turn, quiet_turn, quiet_turn,
       quiet_turn\<lparr>others := [(lib_path, Some \<lparr>contents = ''code'', executable = True\<rparr>)]\<rparr>],
     history = []\<rparr>"

theorem extraction_atomic_witness:
  "fst (extract_lib linux racing) = Inr lib_path \<and> map_option contents (files (snd (extract_lib linux racing)) lib_path) = Some ''code'' \<and>
   list_all (\<lambda>m. map_option contents (m lib_path) \<in> {Some ''co'', Some ''code''}) (history (snd (extract_lib linux racing)))"
proof -
  obtain r d' where run: "extract_lib linux racing = (r, d')" by (cases "extract_lib linux racing")
  have "fst (extract_lib linux racing) = Inr lib_path" by code_simp
  then have r: "r = Inr lib_path" by (simp add: run)
  have e: "embedded linux = Some (\<lambda>n. if n = embeddedName then Inr ''code'' else Inl (External ''no such file''))" by (simp add: linux_def)
  have h: "embeddedHash linux (\<lambda>n. if n = embeddedName then Inr ''code'' else Inl (External ''no such file'')) ''code'' = Inr (replicate 64 (CHR ''0''))"
    by code_simp
  have f: "libraryFilename linux = Inr ''libiroh_go.so''" by code_simp
  have p: "lib_path = Join_path [library_dir linux (replicate 64 (CHR ''0'')), ''libiroh_go.so'']" by code_simp
  have o: "others_ok lib_path ''code'' racing" by code_simp
  have "files racing lib_path = Some \<lparr>contents = ''co'', executable = True\<rparr>" "history racing = []" by (simp_all add: racing_def)
  with extraction_atomic [OF run e _ h f p o] r show ?thesis by (force simp: run list_all_iff)
qed

end
