(* ===== verification/Loader_Properties.thy ===== *)
theory Loader_Properties
  imports Loader Library_File_Properties
begin

text \<open>
  What loading promises: a library that does not fit the bindings is refused before anything of it runs,
  whatever the order in which its symbols are bound, and loading happens once.
\<close>

subsection \<open>Binding\<close>

lemma register_all_ok:
  assumes "\<And>n. n \<in> set (map fst order) \<Longrightarrow> exports L n" and "distinct (map snd order)"
  shows "register_all L order s = (None, s\<lparr>bound := bound s ++ map_of (map prod.swap order)\<rparr>)"
  using assms
proof (induction L order s rule: register_all.induct)
  case (2 L name field rest s)
  have "map_of (map prod.swap rest) field = None" using 2(3) by (auto simp: map_of_eq_None_iff image_image)
  then have "(bound s)(field \<mapsto> name) ++ map_of (map prod.swap rest) = bound s ++ map_of (map prod.swap ((name, field) # rest))"
    by (auto simp: map_add_def fun_eq_iff split: option.split)
  moreover have "register_all L rest (s\<lparr>bound := (bound s)(field \<mapsto> name)\<rparr>) =
      (None, s\<lparr>bound := (bound s)(field \<mapsto> name) ++ map_of (map prod.swap rest)\<rparr>)"
    using 2(1) [of "s\<lparr>bound := (bound s)(field \<mapsto> name)\<rparr>"] 2(2,3) by (simp add: RegisterLibFunc_def fun_upd_def)
  ultimately have "register_all L rest (s\<lparr>bound := (bound s)(field \<mapsto> name)\<rparr>) =
      (None, s\<lparr>bound := bound s ++ map_of (map prod.swap ((name, field) # rest))\<rparr>)" by (simp only:)
  then show ?case using 2(2) by (simp add: RegisterLibFunc_def fun_upd_def)
qed simp

lemma register_all_panics:
  assumes "n \<in> set (map fst order)" and "\<not> exports L n"
  shows "\<exists>r s'. register_all L order s = (Some r, s') \<and> pumps s' = pumps s"
  using assms
proof (induction L order s rule: register_all.induct)
  case (2 L name field rest s)
  then show ?case by (cases "exports L name") (force simp: RegisterLibFunc_def)+
qed simp

lemma register_all_pumps: "pumps (snd (register_all L order s)) = pumps s"
  by (induction L order s rule: register_all.induct) (auto simp: RegisterLibFunc_def split: sum.split)

lemma fields_bound: "set (map snd symbols) = set (map fst api)"
  by code_simp

lemma fields_distinct: "distinct (map snd symbols)"
  by code_simp

lemma numbers_agree: "iroh_abi_version = ABIVersion" "[FfiStatusOK, StatusErr, StatusCancelled] = [COMPLETION_OK, COMPLETION_ERR, COMPLETION_CANCELLED]"
  "map snd FfiKinds = map kind_code [Internal, InvalidInput, KeyParsing, TicketParsing, Bind, Connect, Connection, Stream, Datagram,
     Alpn, Relay, Closed, Timeout, Cancelled]" "NoStopCode = NO_STOP_CODE"
  by (simp_all add: iroh_abi_version_def ABI_VERSION_def ABIVersion_def FfiStatusOK_def StatusErr_def StatusCancelled_def
      code_defs FfiKinds_def kind_code_def NoStopCode_def NO_STOP_CODE_def)

lemma abi_is_symbol: "(''iroh_abi_version'', ''abiVersion'') \<in> set symbols"
  by (simp add: symbols_def)

text \<open>A library that can be used: it has every symbol, the right version, and it starts.\<close>

definition usable_library :: "dynlib \<Rightarrow> bool" where
  "usable_library L \<longleftrightarrow> (\<forall>n \<in> set (map fst symbols). exports L n) \<and> abi_version L = ABIVersion \<and> init_result L = 0"

lemma load_with_spec:
  assumes order: "set order = set symbols" "distinct order" and s: "bound s = Map.empty"
  shows "fst (load_with L order s) = None \<longleftrightarrow> usable_library L"
    and "usable_library L \<Longrightarrow> snd (load_with L order s) = s\<lparr>bound := map_of (map prod.swap symbols), pumps := Suc (pumps s)\<rparr>"
    and "\<not> usable_library L \<Longrightarrow> pumps (snd (load_with L order s)) = pumps s"
    and "exports L ''iroh_abi_version'' \<Longrightarrow> abi_version L \<noteq> ABIVersion \<Longrightarrow>
      snd (load_with L order s) = s\<lparr>bound := [''abiVersion'' \<mapsto> ''iroh_abi_version'']\<rparr>"
proof -
  have dist: "distinct (map snd order)"
    using fields_distinct order by (metis distinct_map)
  have same: "map_of (map prod.swap order) = map_of (map prod.swap symbols)"
    using order fields_distinct dist by (subst map_of_inject_set) (simp_all add: comp_def)
  let ?s1 = "s\<lparr>bound := [''abiVersion'' \<mapsto> ''iroh_abi_version'']\<rparr>"
  have abi: "map_of (map prod.swap symbols) ''abiVersion'' = Some ''iroh_abi_version''"
    using abi_is_symbol fields_distinct by (force intro: map_of_is_SomeI simp: comp_def)
  have "exports L ''iroh_abi_version''" if "usable_library L" using that abi_is_symbol by (force simp: usable_library_def)
  moreover have bind: "register_all L order ?s1 = (None, s\<lparr>bound := map_of (map prod.swap symbols)\<rparr>)" if "usable_library L"
  proof -
    have "[''abiVersion'' \<mapsto> ''iroh_abi_version''] ++ map_of (map prod.swap symbols) = map_of (map prod.swap symbols)"
      using abi by (auto simp: map_add_def fun_eq_iff split: option.split)
    moreover have "exports L n" if "n \<in> set (map fst order)" for n using that \<open>usable_library L\<close> order(1) by (force simp: usable_library_def)
    ultimately show ?thesis using register_all_ok [OF _ dist, of L ?s1] by (simp add: same)
  qed
  ultimately show ok: "usable_library L \<Longrightarrow> snd (load_with L order s) = s\<lparr>bound := map_of (map prod.swap symbols), pumps := Suc (pumps s)\<rparr>"
    using s by (simp add: load_with_def RegisterLibFunc_def startPump_def usable_library_def)
  have good: "fst (load_with L order s) = None" if "usable_library L"
    using that s bind \<open>usable_library L \<Longrightarrow> exports L ''iroh_abi_version''\<close>
    by (simp add: load_with_def RegisterLibFunc_def usable_library_def)
  have bad: "fst (load_with L order s) \<noteq> None \<and> pumps (snd (load_with L order s)) = pumps s" if "\<not> usable_library L"
  proof (cases "\<forall>n \<in> set (map fst symbols). exports L n")
    case True
    then show ?thesis using that s register_all_pumps [of L order ?s1]
      by (auto simp: load_with_def RegisterLibFunc_def usable_library_def split: sum.split option.split prod.split)
  next
    case False
    then obtain n where "n \<in> set (map fst order)" "\<not> exports L n" using order(1) by auto
    from register_all_panics [OF this, of ?s1] show ?thesis using s
      by (auto simp: load_with_def RegisterLibFunc_def)
  qed
  show "fst (load_with L order s) = None \<longleftrightarrow> usable_library L" using good bad by blast
  show "\<not> usable_library L \<Longrightarrow> pumps (snd (load_with L order s)) = pumps s" using bad by blast
  show "exports L ''iroh_abi_version'' \<Longrightarrow> abi_version L \<noteq> ABIVersion \<Longrightarrow>
      snd (load_with L order s) = s\<lparr>bound := [''abiVersion'' \<mapsto> ''iroh_abi_version'']\<rparr>"
    using s by (simp add: load_with_def RegisterLibFunc_def)
qed

text \<open>
  C39: a library that does not fit the bindings is refused, whatever the order in which its symbols are bound.
  \<^verbatim>\<open>Load\<close> succeeds exactly when the library opens, exports every symbol, reports the version of the bindings and
  starts; then every field of the table is bound to its symbol and one pump runs. Otherwise no pump runs, and a
  library of another version has nothing bound but the function that reports it. Loading happens once: every
  later \<^verbatim>\<open>Load\<close> returns the same and changes nothing.
\<close>

theorem load_checked:
  assumes "Load P dlopen order s = (r, s')" and "\<not> load_ran s" and "set order = set symbols" and "distinct order"
    and "bound s = Map.empty" and "pumps s = 0"
  shows "(r = None \<longleftrightarrow> (\<exists>L d. lib_Open P dlopen (ldisk s) = (Inr L, d) \<and> usable_library L)) \<and>
    (r = None \<longrightarrow> bound s' = map_of (map prod.swap symbols) \<and> pumps s' = 1) \<and> (r \<noteq> None \<longrightarrow> pumps s' = 0) \<and>
    (\<forall>L d. lib_Open P dlopen (ldisk s) = (Inr L, d) \<and> exports L ''iroh_abi_version'' \<and> abi_version L \<noteq> ABIVersion \<longrightarrow>
      bound s' = [''abiVersion'' \<mapsto> ''iroh_abi_version'']) \<and>
    Load P dlopen' order' s' = (r, s')"
proof (cases "fst (lib_Open P dlopen (ldisk s))")
  case (Inl err)
  then have "r = Some err" "pumps s' = 0" using assms(1,2,6) by (auto simp: Load_def load_def Let_def split: prod.splits)
  moreover have "load_ran s' \<and> loadErr s' = r" using assms(1,2) by (auto simp: Load_def Let_def split: prod.splits)
  ultimately show ?thesis using Inl by (auto simp: Load_def)
next
  case (Inr L)
  then obtain d where o: "lib_Open P dlopen (ldisk s) = (Inr L, d)" by (cases "lib_Open P dlopen (ldisk s)") auto
  note spec = load_with_spec [OF assms(3,4), of "s\<lparr>ldisk := d\<rparr>" L]
  have r: "r = fst (load_with L order (s\<lparr>ldisk := d\<rparr>))" "bound s' = bound (snd (load_with L order (s\<lparr>ldisk := d\<rparr>)))"
    "pumps s' = pumps (snd (load_with L order (s\<lparr>ldisk := d\<rparr>)))"
    using assms(1,2) o by (auto simp: Load_def load_def Let_def split: prod.splits)
  moreover have "load_ran s' \<and> loadErr s' = r" using assms(1,2) by (auto simp: Load_def Let_def split: prod.splits)
  ultimately show ?thesis using spec assms(5,6) o by (auto simp: Load_def)
qed

subsection \<open>Examples\<close>

text \<open>A process that names its own library, and one that exports everything.\<close>

definition own_library :: process where
  "own_library = linux\<lparr>Getenv := (\<lambda>k. if k = EnvLibrary then ''/l'' else [])\<rparr>"

definition unloaded :: loader where
  "unloaded = \<lparr>load_ran = False, loadErr = None, bound = Map.empty, pumps = 0,
     ldisk = \<lparr>files = [''/l'' \<mapsto> \<lparr>contents = ''code'', executable = True\<rparr>], turns = [], history = []\<rparr>\<rparr>"

definition library_of :: "32 word \<Rightarrow> dynlib" where
  "library_of v = \<lparr>exports = (\<lambda>_. True), abi_version = v, init_result = 0\<rparr>"

theorem load_checked_witness:
  "(\<exists>s'. Load own_library (\<lambda>_ _. Inr (library_of 5)) symbols unloaded = (None, s') \<and> pumps s' = 1) \<and>
   (\<exists>e s'. Load own_library (\<lambda>_ _. Inr (library_of 4)) (rev symbols) unloaded = (Some e, s') \<and> pumps s' = 0 \<and>
     bound s' = [''abiVersion'' \<mapsto> ''iroh_abi_version''])"
proof -
  have d: "distinct symbols" using fields_distinct by (simp add: distinct_map)
  have o: "\<exists>d. lib_Open own_library (\<lambda>_ _. Inr L) (ldisk unloaded) = (Inr L, d)" for L
    by (simp add: lib_Open_def Path_def own_library_def unloaded_def os_Stat_def os_call_def os_turn_def quiet_turn_def Let_def EnvLibrary_def)
  have s: "\<not> load_ran unloaded" "bound unloaded = Map.empty" "pumps unloaded = 0" by (simp_all add: unloaded_def)
  have fit: "usable_library (library_of 5)" "\<not> usable_library (library_of 4)" "abi_version (library_of 4) \<noteq> ABIVersion"
    by (simp_all add: usable_library_def library_of_def ABIVersion_def)
  obtain r s1 where 1: "Load own_library (\<lambda>_ _. Inr (library_of 5)) symbols unloaded = (r, s1)" by fastforce
  obtain q s2 where 2: "Load own_library (\<lambda>_ _. Inr (library_of 4)) (rev symbols) unloaded = (q, s2)" by fastforce
  have "r = None \<and> pumps s1 = 1" using load_checked [OF 1 s(1) refl d s(2,3)] o [of "library_of 5"] fit(1) by auto
  moreover have "q \<noteq> None \<and> pumps s2 = 0 \<and> bound s2 = [''abiVersion'' \<mapsto> ''iroh_abi_version'']"
    using load_checked [OF 2 s(1) _ _ s(2,3)] d o [of "library_of 4"] fit(2,3)
    by (auto simp: library_of_def)
  ultimately show ?thesis using 1 2 by auto
qed

end
