(* ===== verification/Echo.thy ===== *)
theory Echo
  imports Endpoints Loader
begin

text \<open>
  The example program \<^verbatim>\<open>examples/echo\<close>: a client of the whole package. \<^verbatim>\<open>listen\<close> binds an endpoint and
  serves every connection, \<^verbatim>\<open>serve\<close> copies a stream back to where it came from, \<^verbatim>\<open>dial\<close> sends a
  message and prints the reply. The loops of the standard library it runs over the streams
  (\<^verbatim>\<open>io.Copy\<close>, \<^verbatim>\<open>io.WriteString\<close>, \<^verbatim>\<open>io.ReadAll\<close>) are written out for streams, which implement
  \<^verbatim>\<open>io.Reader\<close> and \<^verbatim>\<open>io.Writer\<close> and no other interface of package \<^verbatim>\<open>io\<close>.
\<close>

subsection \<open>Package io\<close>

definition ErrShortWrite :: go_error where "ErrShortWrite = Errorf ''short write'' [] None"
definition errInvalidWrite :: go_error where "errInvalidWrite = Errorf ''invalid write result'' [] None"

text \<open>The loop of \<^verbatim>\<open>io.Copy\<close>: \<open>buf\<close> is its buffer and \<open>written\<close> its count, an \<^verbatim>\<open>int64\<close>.\<close>

partial_function (option) copy_loop :: "'n iroh \<Rightarrow> nat \<Rightarrow> nat \<Rightarrow> bytes \<Rightarrow> int \<Rightarrow> ('n, 'z) world_scheme \<Rightarrow>
    ((int \<times> go_error option) \<times> ('n, 'z) world_scheme) option" where
  "copy_loop I dst src buf written w =
     Option.bind (RecvStream_Read I src buf w) (\<lambda>((nr, buf1, er), w1).
       if nr > 0 then
         Option.bind (SendStream_Write I dst (take nr buf1) w1) (\<lambda>((nw, ew), w2).
           let bad = nw < 0 \<or> int nr < nw;
               nw1 = (if bad then 0 else nw);
               ew1 = (if bad \<and> ew = None then Some errInvalidWrite else ew);
               written1 = go_int (written + nw1) in
           if ew1 \<noteq> None then Some ((written1, ew1), w2)
           else if int nr \<noteq> nw1 then Some ((written1, Some ErrShortWrite), w2)
           else if er \<noteq> None then Some ((written1, if er = Some EOF then None else er), w2)
           else copy_loop I dst src buf1 written1 w2)
       else if er \<noteq> None then Some ((written, if er = Some EOF then None else er), w1)
       else copy_loop I dst src buf1 written w1)"

declare copy_loop.simps [code]

definition copy_buffer :: nat where "copy_buffer = 32 * 1024"

definition io_Copy :: "'n iroh \<Rightarrow> nat \<Rightarrow> nat \<Rightarrow> ('n, 'z) world_scheme \<Rightarrow>
    ((int \<times> go_error option) \<times> ('n, 'z) world_scheme) option" where
  "io_Copy I dst src w = copy_loop I dst src (replicate copy_buffer (CHR 0x00)) 0 w"

definition io_WriteString :: "'n iroh \<Rightarrow> nat \<Rightarrow> string \<Rightarrow> ('n, 'z) world_scheme \<Rightarrow>
    ((int \<times> go_error option) \<times> ('n, 'z) world_scheme) option" where
  "io_WriteString I dst s w = SendStream_Write I dst s w"

text \<open>
  The loop of \<^verbatim>\<open>io.ReadAll\<close>. How much grow it offers a read once it holds so many bytes is its own
  business, so \<open>grow\<close> is a parameter; what the package documents is that there is some.
\<close>

partial_function (option) read_all_loop :: "'n iroh \<Rightarrow> (nat \<Rightarrow> nat) \<Rightarrow> nat \<Rightarrow> bytes \<Rightarrow> ('n, 'z) world_scheme \<Rightarrow>
    ((bytes \<times> go_error option) \<times> ('n, 'z) world_scheme) option" where
  "read_all_loop I grow src b w =
     Option.bind (RecvStream_Read I src (replicate (grow (length b)) (CHR 0x00)) w) (\<lambda>((n, buf, err), w1).
       if err \<noteq> None then Some ((b @ take n buf, if err = Some EOF then None else err), w1)
       else read_all_loop I grow src (b @ take n buf) w1)"

declare read_all_loop.simps [code]

definition io_ReadAll :: "'n iroh \<Rightarrow> (nat \<Rightarrow> nat) \<Rightarrow> nat \<Rightarrow> ('n, 'z) world_scheme \<Rightarrow>
    ((bytes \<times> go_error option) \<times> ('n, 'z) world_scheme) option" where
  "io_ReadAll I grow src w = read_all_loop I grow src [] w"

subsection \<open>Contexts with a timeout\<close>

text \<open>
  \<^verbatim>\<open>context.WithTimeout\<close>: done already if its parent is, and never later than its parent's deadline. A
  cancellation of the parent that comes later reaches it as a step of the rest of the process. A
  duration is in nanoseconds.
\<close>

definition WithTimeout :: "ctx \<Rightarrow> int \<Rightarrow> ('n, 'z) world_scheme \<Rightarrow> nat \<times> ('n, 'z) world_scheme" where
  "WithTimeout c d w =
     (let parent = (case c of Background \<Rightarrow> None | Ctx a \<Rightarrow> ctx_deadline (ctxs w a));
          t = (case parent of None \<Rightarrow> now w + d | Some u \<Rightarrow> min u (now w + d)) in
      case ctx_Err c w of
        Some e \<Rightarrow> new_ctx \<lparr>ctx_err = Some e, ctx_deadline = Some t\<rparr> w
      | None \<Rightarrow> WithDeadline t w)"

definition Second :: int where "Second = 10 ^ 9"

subsection \<open>The program\<close>

text \<open>What it tells the user: log lines, printed text, and the usage message.\<close>

datatype said = Logs string "fmt_arg list" | Prints string "fmt_arg list" | Usage

definition alpn :: string where "alpn = ''iroh-go/echo/1''"

definition greeting :: string where
  "greeting = ''listening as %s'' @ [newline, newline] @ ''dial me with:'' @ [newline] @
     ''  echo dial %s '' @ [CHR 0x22] @ ''your message'' @ [CHR 0x22, newline, newline]"

text \<open>
  \<^verbatim>\<open>MustParseAddrPort\<close> panics at a text that does not parse. Nothing recovers from that, so a call that panics does
  not return, which is the value \<open>None\<close>.
\<close>

definition options :: "'a netip \<Rightarrow> bool \<Rightarrow> string list \<Rightarrow> 'a Options option" where
  "options N offline alpns =
     (let opts = \<lparr>Preset = PresetN0, SecretKey = None, ALPNs = alpns, RelayMode = RelayFromPreset, RelayURLs = [], BindAddrs = []\<rparr> in
      if offline then
        case ParseAddrPort N ''127.0.0.1:0'' of
          Inl _ \<Rightarrow> None
        | Inr a \<Rightarrow> Some (opts\<lparr>Preset := PresetMinimal, RelayMode := RelayDisabled, BindAddrs := [a]\<rparr>)
      else Some opts)"

definition shutdown_endpoint :: "'n iroh \<Rightarrow> nat \<Rightarrow> ('n, 'z) world_scheme \<Rightarrow> (said list \<times> ('n, 'z) world_scheme) option" where
  "shutdown_endpoint I ep w = (let (c, w1) = WithTimeout Background (5 * Second) w in do {
     (err, w2) \<leftarrow> Endpoint_Close I ep (Ctx c) w1;
     Some (case err of Some e \<Rightarrow> [Logs ''close: %v'' [ArgErr e]] | None \<Rightarrow> [], cancel_ctx c w2)
   })"

text \<open>
  \<^verbatim>\<open>serve\<close>, from its last line to its first. It runs in a goroutine of its own, one for each
  connection: what the others do meanwhile are the steps of the rest of the process.
\<close>

definition echo_back :: "'n iroh \<Rightarrow> nat \<Rightarrow> nat \<Rightarrow> ('n, 'z) world_scheme \<Rightarrow> (said list \<times> ('n, 'z) world_scheme) option" where
  "echo_back I send recv w = do {
     ((n, err), w1) \<leftarrow> io_Copy I send recv w;
     case err of
       Some e \<Rightarrow> Some ([Logs ''echo: %v'' [ArgErr e]], w1)
     | None \<Rightarrow> do {
         (err, w2) \<leftarrow> SendStream_Close I send w1;
         Some (case err of Some e \<Rightarrow> [Logs ''finish: %v'' [ArgErr e]] | None \<Rightarrow> [], w2)
       }
   }"

definition serve_conn :: "'n iroh \<Rightarrow> 'n queries \<Rightarrow> ctx \<Rightarrow> nat \<Rightarrow> ('n, 'z) world_scheme \<Rightarrow>
    (said list \<times> ('n, 'z) world_scheme) option" where
  "serve_conn I Q c conn w = (case RemoteID Q conn w of
     (Inl err, w1) \<Rightarrow> Some ([Logs ''remote id: %v'' [ArgErr err]], w1)
   | (Inr peer, w1) \<Rightarrow> do {
       (r, w2) \<leftarrow> AcceptBi I conn c w1;
       (out, w3) \<leftarrow> (case r of
           Inl err \<Rightarrow> Some ([Logs ''accept stream: %v'' [ArgErr err]], w2)
         | Inr (send, recv) \<Rightarrow> echo_back I send recv w2);
       Some (Logs ''connection from %s'' [ArgStr (Short peer)] # out, w3)
     })"

definition serve :: "'n iroh \<Rightarrow> 'n queries \<Rightarrow> ctx \<Rightarrow> nat \<Rightarrow> ('n, 'z) world_scheme \<Rightarrow>
    (said list \<times> ('n, 'z) world_scheme) option" where
  "serve I Q c conn w = do {
     (out, w1) \<leftarrow> serve_conn I Q c conn w;
     Some (out, snd (Conn_Close Q conn w1))
   }"

text \<open>
  The loop of \<^verbatim>\<open>listen\<close>, with the connections it has started a \<^verbatim>\<open>serve\<close> for; it ends only by an error.
\<close>

partial_function (option) accept_loop :: "'n iroh \<Rightarrow> nat \<Rightarrow> ctx \<Rightarrow> nat list \<Rightarrow> ('n, 'z) world_scheme \<Rightarrow>
    ((nat list \<times> go_error option) \<times> ('n, 'z) world_scheme) option" where
  "accept_loop I ep c served w =
     Option.bind (Endpoint_Accept I ep c w) (\<lambda>(r, w1). case r of
       Inl err \<Rightarrow> Some ((served, if ctx_Err c w1 \<noteq> None then None else Some (Errorf ''accept: %w'' [] (Some err))), w1)
     | Inr conn \<Rightarrow> accept_loop I ep c (served @ [conn]) w1)"

declare accept_loop.simps [code]

definition listen_bound :: "'n iroh \<Rightarrow> 'n queries \<Rightarrow> codec \<Rightarrow> 'a netip \<Rightarrow> go_error option \<Rightarrow> ctx \<Rightarrow> bool \<Rightarrow> nat \<Rightarrow>
    ('n, 'z) world_scheme \<Rightarrow> ((nat list \<times> go_error option \<times> said list) \<times> ('n, 'z) world_scheme) option" where
  "listen_bound I Q K N ld c offline ep w = do {
     (out, w1) \<leftarrow> (if offline then Some ([], w) else
       let (d, v) = WithTimeout c (10 * Second) w in do {
         (err, v1) \<leftarrow> Online I ep (Ctx d) v;
         Some (case err of Some e \<Rightarrow> [Logs ''continuing without a relay: %v'' [ArgErr e]] | None \<Rightarrow> [], cancel_ctx d v1)
       });
     case Endpoint_Ticket Q K N ld ep w1 of
       (Inl err, w2) \<Rightarrow> Some (([], Some (Errorf ''ticket: %w'' [] (Some err)), out), w2)
     | (Inr ticket, w2) \<Rightarrow> do {
         ((served, err), w3) \<leftarrow> accept_loop I ep c [] w2;
         Some ((served, err, out @ [Prints greeting [ArgStr (Short (Endpoint_ID ep w2)), ArgStr ticket]]), w3)
       }
   }"

definition listen :: "'n iroh \<Rightarrow> 'n queries \<Rightarrow> codec \<Rightarrow> 'a netip \<Rightarrow> go_error option \<Rightarrow> ctx \<Rightarrow> bool \<Rightarrow>
    ('n, 'z) world_scheme \<Rightarrow> ((nat list \<times> go_error option \<times> said list) \<times> ('n, 'z) world_scheme) option" where
  "listen I Q K N ld c offline w = (case options N offline [alpn] of
     None \<Rightarrow> None
   | Some opts \<Rightarrow> do {
       (r, w1) \<leftarrow> Bind I Q K N ld c opts w;
       case r of
         Inl err \<Rightarrow> Some (([], Some (Errorf ''bind: %w'' [] (Some err)), []), w1)
       | Inr ep \<Rightarrow> do {
           ((served, err, out), w2) \<leftarrow> listen_bound I Q K N ld c offline ep w1;
           (closing, w3) \<leftarrow> shutdown_endpoint I ep w2;
           Some ((served, err, out @ closing), w3)
         }
     })"

text \<open>\<^verbatim>\<open>dial\<close>, again from its last line to its first.\<close>

definition exchange :: "'n iroh \<Rightarrow> (nat \<Rightarrow> nat) \<Rightarrow> nat \<Rightarrow> nat \<Rightarrow> string \<Rightarrow> ('n, 'z) world_scheme \<Rightarrow>
    ((go_error option \<times> said list) \<times> ('n, 'z) world_scheme) option" where
  "exchange I grow send recv message w = do {
     ((n, err), w1) \<leftarrow> io_WriteString I send message w;
     case err of
       Some e \<Rightarrow> Some ((Some (Errorf ''write: %w'' [] (Some e)), []), w1)
     | None \<Rightarrow> do {
         (err, w2) \<leftarrow> SendStream_Close I send w1;
         case err of
           Some e \<Rightarrow> Some ((Some (Errorf ''finish: %w'' [] (Some e)), []), w2)
         | None \<Rightarrow> do {
             ((reply, err), w3) \<leftarrow> io_ReadAll I grow recv w2;
             Some (case err of
                 Some e \<Rightarrow> (Some (Errorf ''read: %w'' [] (Some e)), [])
               | None \<Rightarrow> (None, [Prints (''echoed back: %s'' @ [newline]) [ArgStr reply]]), w3)
           }
       }
   }"

definition dial_bound :: "'n iroh \<Rightarrow> 'n queries \<Rightarrow> codec \<Rightarrow> 'a netip \<Rightarrow> go_error option \<Rightarrow> (nat \<Rightarrow> nat) \<Rightarrow> ctx \<Rightarrow> string \<Rightarrow> string \<Rightarrow> nat \<Rightarrow>
    ('n, 'z) world_scheme \<Rightarrow> ((go_error option \<times> said list) \<times> ('n, 'z) world_scheme) option" where
  "dial_bound I Q K N ld grow c ticket message ep w = do {
     (r, w1) \<leftarrow> ConnectTicket I K N ld ep c ticket alpn w;
     case r of
       Inl err \<Rightarrow> Some ((Some (Errorf ''connect: %w'' [] (Some err)), []), w1)
     | Inr conn \<Rightarrow> do {
         (s, w2) \<leftarrow> OpenBi I conn c w1;
         (res, w3) \<leftarrow> (case s of
             Inl err \<Rightarrow> Some ((Some (Errorf ''open stream: %w'' [] (Some err)), []), w2)
           | Inr (send, recv) \<Rightarrow> exchange I grow send recv message w2);
         Some (res, snd (Conn_Close Q conn w3))
       }
   }"

definition dial :: "'n iroh \<Rightarrow> 'n queries \<Rightarrow> codec \<Rightarrow> 'a netip \<Rightarrow> go_error option \<Rightarrow> (nat \<Rightarrow> nat) \<Rightarrow> ctx \<Rightarrow> bool \<Rightarrow> string \<Rightarrow> string \<Rightarrow>
    ('n, 'z) world_scheme \<Rightarrow> ((go_error option \<times> said list) \<times> ('n, 'z) world_scheme) option" where
  "dial I Q K N ld grow c offline ticket message w = (case options N offline [] of
     None \<Rightarrow> None
   | Some opts \<Rightarrow> do {
       (r, w1) \<leftarrow> Bind I Q K N ld c opts w;
       case r of
         Inl err \<Rightarrow> Some ((Some (Errorf ''bind: %w'' [] (Some err)), []), w1)
       | Inr ep \<Rightarrow> do {
           ((err, out), w2) \<leftarrow> dial_bound I Q K N ld grow c ticket message ep w1;
           (closing, w3) \<leftarrow> shutdown_endpoint I ep w2;
           Some ((err, out @ closing), w3)
         }
     })"

text \<open>
  \<^verbatim>\<open>main\<close>, given the flags and arguments that package \<^verbatim>\<open>flag\<close> parsed: the status the process exits with and
  what it said. The context is done when the user interrupts the program, a step of the rest of
  the process.
\<close>

definition main :: "'n iroh \<Rightarrow> 'n queries \<Rightarrow> codec \<Rightarrow> 'a netip \<Rightarrow> go_error option \<Rightarrow> (nat \<Rightarrow> nat) \<Rightarrow> bool \<Rightarrow> bool \<Rightarrow> string list \<Rightarrow>
    string option \<Rightarrow> ('n, 'z) world_scheme \<Rightarrow> ((int \<times> said list) \<times> ('n, 'z) world_scheme) option" where
  "main I Q K N ld grow offline verbose args sub w =
     (let said = (if verbose then case fst (SetLogLevel ld LogDebug sub) of
                      Some e \<Rightarrow> [Logs ''could not enable logging: %v'' [ArgErr e]] | None \<Rightarrow> []
                  else []);
          (c, w1) = WithCancel w;
          arg0 = (case args of [] \<Rightarrow> '''' | a # _ \<Rightarrow> a);
          ends = (\<lambda>err out w2. case err of
              Some e \<Rightarrow> ((1, said @ out @ [Logs ''%v'' [ArgErr e]]), w2)
            | None \<Rightarrow> ((0, said @ out), cancel_ctx c w2)) in
      if arg0 = ''listen'' then
        map_option (\<lambda>((served, err, out), w2). ends err out w2) (listen I Q K N ld (Ctx c) offline w1)
      else if arg0 = ''dial'' then
        (if length args < 3 then Some ((2, said @ [Usage]), w1)
         else map_option (\<lambda>((err, out), w2). ends err out w2) (dial I Q K N ld grow (Ctx c) offline (args ! 1) (args ! 2) w1))
      else Some ((2, said @ [Usage]), w1))"

end
