(* ===== verification/Echo_Properties.thy ===== *)
theory Echo_Properties
  imports Echo Stream_Properties
begin

text \<open>
  What the example program gets from the package: reading one stream and writing another at the same
  time, the loops of package \<^verbatim>\<open>io\<close> lose and repeat nothing, so what \<^verbatim>\<open>serve\<close> sends back is what it was sent.
\<close>

subsection \<open>Two streams at once\<close>

lemma go_int_again: "go_int (go_int x + y) = go_int (x + y)"
  by (simp add: go_int_def)

text \<open>Nobody else reads the stream \<open>hr\<close> or writes the stream \<open>hs\<close>.\<close>

definition copying :: "u64 \<Rightarrow> u64 \<Rightarrow> future \<Rightarrow> bool" where
  "copying hr hs g \<longleftrightarrow> not_read hr g \<and> not_write hs g"

lemma copying_beside:
  assumes "write_law I sent" and "read_law I got"
  shows "writes_beside I hs (copying hr hs) (\<lambda>n. got n hr)" "reads_beside I hr (copying hr hs) (\<lambda>n. sent n hs)"
proof -
  have s: "steady I (copying hr hs) (\<lambda>n. got n hr)" "steady I (copying hr hs) (\<lambda>n. sent n hs)"
    by (simp_all add: steady_def copying_def write_law_body [OF assms(1)] read_law_body [OF assms(2)])
  have n: "got (snd (i_write I h b n)) = got n" "sent (snd (i_read_chunk I h m n)) = sent n" for h b m n
    using write_lawD(3) [OF assms(1)] read_lawD(4) [OF assms(2)] by (metis prod.collapse)+
  show "writes_beside I hs (copying hr hs) (\<lambda>n. got n hr)" "reads_beside I hr (copying hr hs) (\<lambda>n. sent n hs)"
    using s n by (simp_all add: writes_beside_def reads_beside_def copying_def)
qed

definition piped :: "nat \<Rightarrow> u64 \<Rightarrow> nat \<Rightarrow> u64 \<Rightarrow> ('n, 'z) world_scheme \<Rightarrow> bool" where
  "piped dst hs src hr w \<longleftrightarrow> streaming (copying hr hs) dst hs w \<and> handle_kept src hr w"

lemma piped_streams: "piped dst hs src hr w \<longleftrightarrow> streaming (copying hr hs) dst hs w \<and> streaming (copying hr hs) src hr w"
  by (auto simp: piped_def streaming_def)

lemma piped_aside: "piped dst hs src hr w \<Longrightarrow> aside obs w w' \<Longrightarrow> streaming (copying hr hs) a h w' \<Longrightarrow> piped dst hs src hr w'"
  by (auto simp: piped_def streaming_def aside_def)

lemma piped_read:
  fixes w :: "'n world"
  assumes "write_law I sent" and "read_law I got" and "RecvStream_Read I src p w = Some ((n, p', err), w')"
    and "piped dst hs src hr w" and "length p < 2 ^ 63"
  shows "piped dst hs src hr w'" "sent (net w') hs = sent (net w) hs" "read_into (got (net w) hr) (got (net w') hr) p n p'"
    "err = None \<Longrightarrow> p \<noteq> [] \<Longrightarrow> n > 0 \<and> length (script w') < length (script w)"
    "length (script w') \<le> length (script w)" "err = Some e \<Longrightarrow> n = 0 \<and> public_error e"
proof -
  have "streaming (copying hr hs) src hr w" using assms(4) by (simp add: piped_streams)
  note r = read_rule [OF assms(2) copying_beside(2) [OF assms(1,2)] assms(5,3) this]
  then show "piped dst hs src hr w'" using piped_aside [OF assms(4)] by blast
  show "sent (net w') hs = sent (net w) hs" "read_into (got (net w) hr) (got (net w') hr) p n p'"
    "err = None \<Longrightarrow> p \<noteq> [] \<Longrightarrow> n > 0 \<and> length (script w') < length (script w)"
    "length (script w') \<le> length (script w)" "err = Some e \<Longrightarrow> n = 0 \<and> public_error e"
    using r by (auto simp: aside_def split: if_splits)
qed

lemma piped_write:
  fixes w :: "'n world"
  assumes "write_law I sent" and "read_law I got" and "SendStream_Write I dst p w = Some ((n, err), w')"
    and "piped dst hs src hr w" and "length p < 2 ^ 63"
  shows "piped dst hs src hr w'" "got (net w') hr = got (net w) hr" "0 \<le> n" "n \<le> int (length p)"
    "sent (net w') hs = sent (net w) hs @ take (nat n) p" "err = None \<Longrightarrow> n = int (length p)"
    "length (script w') \<le> length (script w)" "err = Some e \<Longrightarrow> public_error e"
proof -
  have "streaming (copying hr hs) dst hs w" using assms(4) by (simp add: piped_streams)
  note r = write_resume_rule [OF assms(1) copying_beside(1) [OF assms(1,2)] assms(5) assms(3) [unfolded SendStream_Write_def] this,
      simplified]
  then show "piped dst hs src hr w'" using piped_aside [OF assms(4)] by blast
  show "got (net w') hr = got (net w) hr" "0 \<le> n" "n \<le> int (length p)"
    "sent (net w') hs = sent (net w) hs @ take (nat n) p" "err = None \<Longrightarrow> n = int (length p)"
    "length (script w') \<le> length (script w)" "err = Some e \<Longrightarrow> public_error e"
    using r by (simp_all add: aside_def)
qed

subsection \<open>io.Copy\<close>

text \<open>What has been read since \<open>w\<close> is \<open>x\<close>, and of it the first \<open>k\<close> bytes have been written.\<close>

definition copied :: "('n \<Rightarrow> u64 \<Rightarrow> bytes) \<Rightarrow> ('n \<Rightarrow> u64 \<Rightarrow> bytes) \<Rightarrow> u64 \<Rightarrow> u64 \<Rightarrow> bytes \<Rightarrow> nat \<Rightarrow>
    ('n, 'z) world_scheme \<Rightarrow> ('n, 'z) world_scheme \<Rightarrow> bool" where
  "copied sent got hs hr x k w w' \<longleftrightarrow> k \<le> length x \<and> got (net w') hr = got (net w) hr @ x \<and>
     sent (net w') hs = sent (net w) hs @ take k x"

lemma copied_trans:
  "copied sent got hs hr x (length x) u v \<Longrightarrow> copied sent got hs hr y k v w \<Longrightarrow> copied sent got hs hr (x @ y) (length x + k) u w"
  by (simp add: copied_def)

lemma copied_none: "copied sent got hs hr [] 0 w w"
  by (simp add: copied_def)

lemma copy_loop_rule:
  fixes w :: "'n world"
  assumes law: "write_law I sent" "read_law I got" and len: "length buf < 2 ^ 63" "buf \<noteq> []"
  shows "copy_loop I dst src buf written w = Some ((n, err), w') \<Longrightarrow> piped dst hs src hr w \<Longrightarrow> go_int written = written \<Longrightarrow>
    piped dst hs src hr w' \<and> (\<exists>x k. copied sent got hs hr x k w w' \<and> n = go_int (written + int k) \<and>
      (err = None \<longrightarrow> k = length x) \<and> (\<forall>e. err = Some e \<longrightarrow> public_error e))"
  using len
proof (induction "length (script w)" arbitrary: buf written w rule: less_induct)
  case less
  note unfolded = less.prems(1) [unfolded copy_loop.simps [of I dst src buf written w]]
  then obtain nr buf1 er w1 where rd: "RecvStream_Read I src buf w = Some ((nr, buf1, er), w1)"
    by (auto simp: bind_eq_Some_conv)
  note r = piped_read [OF law rd less.prems(2,4)]
  have into: "nr \<le> length buf" "length buf1 = length buf" "got (net w1) hr = got (net w) hr @ take nr buf1"
    using r(3) by (simp_all add: read_into_def)
  show ?case
  proof (cases "nr > 0")
    case False
    then obtain e where e: "er = Some e" using r(4) less.prems(5) by (cases er) auto
    have "w' = w1" "n = written" "err = (if e = EOF then None else Some e)" using unfolded rd e False by auto
    moreover have "copied sent got hs hr [] 0 w w1" using r(2) into False by (simp add: copied_def)
    ultimately show ?thesis using r(1,6) e less.prems(3) by (intro conjI exI [of _ "[]"] exI [of _ "0 :: nat"]) auto
  next
    case True
    then have er: "er = None" using r(6) by (cases er) auto
    let ?p = "take nr buf1"
    obtain nw ew w2 where run: "SendStream_Write I dst ?p w1 = Some ((nw, ew), w2)"
      using unfolded rd True by (auto simp: bind_eq_Some_conv)
    have p: "length ?p = nr" "length ?p < 2 ^ 63" using into less.prems(4) by simp_all
    note wr = piped_write [OF law run r(1) p(2)]
    have sane: "\<not> nw < 0" "\<not> int nr < nw" using wr(3,4) p by simp_all
    have rest: "(if ew \<noteq> None then Some ((go_int (written + nw), ew), w2)
           else if int nr \<noteq> nw then Some ((go_int (written + nw), Some ErrShortWrite), w2)
           else copy_loop I dst src buf1 (go_int (written + nw)) w2) = Some ((n, err), w')"
      using unfolded by (simp add: rd True er run Let_def sane cong: if_cong)
    have here: "copied sent got hs hr ?p (nat nw) w w2"
      using wr(2-5) r(2) into p by (auto simp: copied_def)
    show ?thesis
    proof (cases ew)
      case (Some e)
      then have "n = go_int (written + int (nat nw))" "err = Some e" "w' = w2" using rest wr(3) by simp_all
      then show ?thesis using here wr(1,8) Some by (intro conjI exI [of _ ?p] exI [of _ "nat nw"]) auto
    next
      case None
      then have nw: "nw = int nr" using wr(6) p by simp
      then have again: "copy_loop I dst src buf1 (go_int (written + int nr)) w2 = Some ((n, err), w')" using rest None by simp
      have "length (script w2) < length (script w)" using r(4) er less.prems(5) wr(7) by auto
      moreover have "go_int (go_int (written + int nr)) = go_int (written + int nr)" by (metis add_0_right go_int_again)
      moreover have "length buf1 < 2 ^ 63" "buf1 \<noteq> []" using into less.prems(4,5) by auto
      ultimately obtain x k where ih: "piped dst hs src hr w'" "copied sent got hs hr x k w2 w'"
        "n = go_int (go_int (written + int nr) + int k)" "err = None \<longrightarrow> k = length x" "\<forall>e. err = Some e \<longrightarrow> public_error e"
        using less.hyps [OF _ again wr(1)] by blast
      have "copied sent got hs hr ?p (length ?p) w w2" using here nw p by simp
      from copied_trans [OF this ih(2)] have "copied sent got hs hr (?p @ x) (nr + k) w w'" using p by simp
      then show ?thesis using ih(1,3,4,5) p by (intro conjI exI [of _ "?p @ x"] exI [of _ "nr + k"]) (auto simp: go_int_again add.assoc)
    qed
  qed
qed

text \<open>What \<^verbatim>\<open>io.ReadAll\<close> has collected is what left the stream since it began.\<close>

lemma read_all_loop_rule:
  fixes w :: "'n world"
  assumes law: "read_law I got" and grow: "\<forall>m. 0 < grow m \<and> grow m < 2 ^ 63" and beside: "reads_beside I h okay obs"
  shows "read_all_loop I grow a b w = Some ((b', err), w') \<Longrightarrow> streaming okay a h w \<Longrightarrow>
    streaming okay a h w' \<and> aside obs w w' \<and> (\<exists>x. b' = b @ x \<and> got (net w') h = got (net w) h @ x) \<and>
    (\<forall>e. err = Some e \<longrightarrow> e \<noteq> EOF \<and> public_error e)"
proof (induction "length (script w)" arbitrary: b w rule: less_induct)
  case less
  let ?p = "replicate (grow (length b)) (CHR 0x00)"
  have p: "length ?p < 2 ^ 63" "?p \<noteq> []" using grow [rule_format, of "length b"] by auto
  obtain n buf er w1 where rd: "RecvStream_Read I a ?p w = Some ((n, buf, er), w1)"
    and rest: "(if er \<noteq> None then Some ((b @ take n buf, if er = Some EOF then None else er), w1)
       else read_all_loop I grow a (b @ take n buf) w1) = Some ((b', err), w')"
    using less.prems(1) [unfolded read_all_loop.simps [of I grow a b w]] by (auto simp: bind_eq_Some_conv)
  note r = read_rule [OF law beside p(1) rd less.prems(2)]
  then have into: "got (net w1) h = got (net w) h @ take n buf" by (simp add: read_into_def)
  show ?case
  proof (cases er)
    case (Some e)
    then have "b' = b @ take n buf" "err = (if e = EOF then None else Some e)" "w' = w1" using rest by auto
    then show ?thesis using r into Some by auto
  next
    case None
    then have again: "read_all_loop I grow a (b @ take n buf) w1 = Some ((b', err), w')" using rest by simp
    have "length (script w1) < length (script w)" "streaming okay a h w1" "aside obs w w1" using r None p(2) by auto
    with less.hyps [OF this(1) again this(2)] show ?thesis using into by (auto intro: aside_trans)
  qed
qed

subsection \<open>Finishing a stream\<close>

text \<open>An operation that yields no handle leaves an observation alone that its body and the others leave alone.\<close>

lemma unit_operation:
  fixes I :: "'n iroh"
  assumes "steady I okay obs" and "\<And>w :: 'n world. obs (net (snd (run_body I f w))) = obs (net w)"
  shows "operation I f (\<lambda>n. obs n = v) (\<lambda>r n. typed_result f r n \<and> obs n = v) okay"
proof unfold_locales
  show "typed_result f r (net w') \<and> obs (net w') = v" if "obs (net w) = v" "run_body I f w = (r, w')"
    for r w' and w :: "'n world"
    using assms(2) [of w] typed.own [OF TrueI that(2)] that by simp
  show "typed_result f (Inl e) n \<and> obs n = v" if "obs n = v" for e n using that by (simp add: typed_result_def)
  show "obs (net (snd (run_body I g w))) = v" if "okay g" "obs (net w) = v" for g and w :: "'n world"
    using assms(1) that by (simp add: steady_def)
  show "typed_result f r (net (snd (run_body I g w))) \<and> obs (net (snd (run_body I g w))) = v"
    if "okay g" "typed_result f r (net w) \<and> obs (net w) = v" for g r and w :: "'n world"
    using assms(1) that by (simp add: steady_def typed_result_def)
qed

lemma send_finish_rule:
  fixes w :: "'n world"
  assumes run: "SendFinish I c h w = Some (r, w')" and st: "steady I okay obs"
    and body: "\<And>w :: 'n world. obs (net (snd (run_body I (FFinish h) w))) = obs (net w)"
    and w: "streaming okay a k w"
  shows "streaming okay a k w'" "aside obs w w'"
proof -
  note op = unit_operation [OF st body, of "obs (net w)"]
  let ?s = "iroh_send_finish h w"
  have sp: "?s = spawn (FFinish h) w \<or> (\<exists>e. ?s = spawn_ready (Inl e) w)"
    unfolding iroh_send_finish_def by (rule spawn_on_cases)
  have ok: "world_ok (Suc (Suc 0)) w" and q: "quiet okay w" using w by (simp_all add: streaming_def numeral_2_eq_2)
  note go = operation.start_waiting [OF op sp ok q refl]
  have aw: "AwaitUnit I c (fst ?s) (snd (begin_op ?s)) = Some (r, w')"
    using run by (simp add: SendFinish_def begin_op_def)
  have "\<forall>v n. typed_result (FFinish h) (Inr v) n \<and> obs n = obs (net w) \<longrightarrow> value_handles v = []"
    by (simp add: typed_result_def)
  note rule = operation.await_unit_rule [OF op aw go(1,2) this]
  have "reaped (Suc (Suc 0)) okay (fst ?s) w w'" using rule(1) go(4,3) by (rule reaped_begin)
  moreover have "obs (net w') = obs (net w)" using rule(2) by auto
  ultimately show "streaming okay a k w'" "aside obs w w'"
    using ctx_errors.SendFinish_keeps [OF run] handles.SendFinish_keeps [OF run] w
    by (simp_all add: streaming_def aside_def reaped_def numeral_2_eq_2)
qed

text \<open>A handle that was given out and is no operation's stays so, and can be freed.\<close>

definition names_object :: "u64 \<Rightarrow> ('n, 'z) lib_scheme \<Rightarrow> bool" where
  "names_object h w \<longleftrightarrow> h < next_id (reg w) \<and> \<not> is_op (live w h)"

lemma names_object_aside: "aside obs w w' \<Longrightarrow> names_object h w \<Longrightarrow> names_object h w'"
  by (auto simp: aside_def names_object_def evolves_def)

lemma streaming_free:
  assumes "streaming okay a k w" and "names_object h w" and "h \<noteq> 0"
  shows "streaming okay a k (free_handle h w)"
proof -
  have "quiet okay (free_handle h w)"
    using assms(1,3) by (auto simp: streaming_def quiet_def clean_def free_handle_def live_simps split: if_splits)
  moreover have "pump_ok (free_handle h w)"
    using assms pump_ok_free_slot [of w h] by (simp add: streaming_def world_ok_def names_object_def free_handle_def)
  ultimately show ?thesis
    using assms(1) by (simp add: streaming_def world_ok_def room_def free_handle_def live_simps handle_kept_def)
qed

lemma send_close_rule:
  fixes w :: "'n world"
  assumes run: "SendStream_Close I a w = Some (r, w')" and st: "steady I okay obs"
    and body: "\<And>h (w :: 'n world). obs (net (snd (run_body I (FFinish h) w))) = obs (net w)"
    and w: "streaming okay b k w"
  shows "obs (net w') = obs (net w)" "sh (streams w' a) = 0"
    "names_object (sh (streams w a)) w \<or> sh (streams w a) = 0 \<Longrightarrow> streaming okay b k w'"
proof -
  let ?h = "sh (streams w a)" and ?v = "deadline_set a pastDeadline (snd (take_handle a w))"
  have g: "go_side w ?v" using go_side_trans [OF go_side_deadlines(4) go_side_deadlines(3)] .
  have kept: "handle_kept a 0 ?v" by (simp add: handle_kept_def)
  have v: "streaming okay b k ?v"
    using w by (intro streaming_go_side [OF g])
      (auto simp: streaming_def ctx_ok_deadline_set handle_kept_def take_handle_def handle_take_def)
  have "obs (net w') = obs (net w) \<and> sh (streams w' a) = 0 \<and> (names_object ?h w \<or> ?h = 0 \<longrightarrow> streaming okay b k w')"
  proof (cases "?h = 0")
    case True
    then show ?thesis using run w by (simp add: SendStream_Close_def taken_again)
  next
    case False
    then obtain w2 where fin: "SendFinish I Background ?h ?v = Some (r, w2)" and w': "w' = free_handle ?h w2"
      using run by (auto simp: SendStream_Close_def SendFree_def case_prod_unfold bind_eq_Some_conv)
    note f = send_finish_rule [OF fin st body v]
    have "names_object ?h w \<Longrightarrow> names_object ?h w2"
      using names_object_aside [OF f(2)] by (simp add: names_object_def go_sideD [OF g])
    moreover have "handle_kept a 0 w2" using handles.SendFinish_keeps [OF fin kept] .
    ultimately show ?thesis
      using f streaming_free [of okay b k w2 ?h] False by (simp add: w' free_handle_def go_sideD [OF g] handle_kept_def aside_def)
  qed
  then show "obs (net w') = obs (net w)" "sh (streams w' a) = 0"
    "names_object ?h w \<or> ?h = 0 \<Longrightarrow> streaming okay b k w'" by blast+
qed

lemma copying_steady:
  assumes "write_law I sent" and "read_law I got"
  shows "steady I (copying hr hs) (\<lambda>n. (got n hr, sent n hs))"
    "\<And>h v. (\<lambda>n. (got n hr, sent n hs)) (net (snd (run_body I (FFinish h) v))) = (got (net v) hr, sent (net v) hs)"
  by (simp_all add: steady_def copying_def write_law_body [OF assms(1)] read_law_body [OF assms(2)] not_write_def not_read_def
      del: run_body.simps)

subsection \<open>The echo\<close>

text \<open>
  C7: \<^verbatim>\<open>serve\<close> echoes: from the moment it has its stream it sends back, in order and each byte once, a prefix of
  what it received, whatever else the process does meanwhile, deadlines, cancellations and other streams
  included; and unless it logs that the echo failed, the prefix is everything up to the end of the
  stream and the stream it sends on has been closed.
\<close>

theorem serve_echoes:
  fixes w :: "'n world"
  assumes "echo_back I send recv w = Some (out, w')" and "write_law I sent" and "read_law I got"
    and "hs = sh (streams w send)" and "hr = sh (streams w recv)" and "streaming (copying hr hs) send hs w"
  shows "\<exists>x k. k \<le> length x \<and> got (net w') hr = got (net w) hr @ x \<and> sent (net w') hs = sent (net w) hs @ take k x \<and>
    ((\<exists>e. out = [Logs ''echo: %v'' [ArgErr e]] \<and> public_error e) \<or> k = length x \<and> sh (streams w' send) = 0)"
proof -
  have piped: "piped send hs recv hr w" using assms(5,6) by (simp add: piped_def handle_kept_def)
  obtain n err w1 where copy: "io_Copy I send recv w = Some ((n, err), w1)"
    using assms(1) by (auto simp: echo_back_def bind_eq_Some_conv)
  have buf: "length (replicate copy_buffer (CHR 0x00)) < 2 ^ 63" "replicate copy_buffer (CHR 0x00) \<noteq> []"
    by (simp_all add: copy_buffer_def)
  obtain x k where c: "piped send hs recv hr w1" "copied sent got hs hr x k w w1" "err = None \<longrightarrow> k = length x"
    "\<forall>e. err = Some e \<longrightarrow> public_error e"
    using copy_loop_rule [OF assms(2,3) buf copy [unfolded io_Copy_def] piped] by (auto simp: go_int_id)
  show ?thesis
  proof (cases err)
    case (Some e)
    then have "out = [Logs ''echo: %v'' [ArgErr e]]" "w' = w1" using assms(1) copy by (auto simp: echo_back_def)
    then show ?thesis using c Some by (auto simp: copied_def)
  next
    case None
    then obtain r where close: "SendStream_Close I send w1 = Some (r, w')"
      using assms(1) copy by (auto simp: echo_back_def bind_eq_Some_conv)
    have "streaming (copying hr hs) send hs w1" using c(1) by (simp add: piped_def)
    note f = send_close_rule [OF close copying_steady [OF assms(2,3)] this]
    have "got (net w') hr = got (net w1) hr \<and> sent (net w') hs = sent (net w1) hs" using f(1) by simp
    then show ?thesis using c(2,3) None f(2) by (auto simp: copied_def)
  qed
qed

subsection \<open>The exchange\<close>

text \<open>
  C6: what \<^verbatim>\<open>dial\<close> does on its stream is one exact exchange. The peer's side of the stream was given a prefix
  of the message and nothing else; if \<^verbatim>\<open>dial\<close> reports success it was given all of it, the stream was then
  closed, and the reply it prints is, byte for byte, everything that left the stream it read;
  if it reports an error it prints nothing.
\<close>

theorem exchange_exact:
  fixes w :: "'n world"
  assumes "exchange I grow send recv message w = Some ((err, out), w')" and "write_law I sent" and "read_law I got"
    and "\<forall>m. 0 < grow m \<and> grow m < 2 ^ 63" and "length message < 2 ^ 63"
    and "hs = sh (streams w send)" and "hr = sh (streams w recv)"
    and "streaming (copying hr hs) send hs w" and "names_object hs w \<or> hs = 0"
  shows "\<exists>k reply. sent (net w') hs = sent (net w) hs @ take k message \<and> got (net w') hr = got (net w) hr @ reply \<and>
    (case err of None \<Rightarrow> k = length message \<and> sh (streams w' send) = 0 \<and> out = [Prints (''echoed back: %s'' @ [newline]) [ArgStr reply]]
     | Some _ \<Rightarrow> out = [])"
proof -
  have piped: "piped send hs recv hr w" using assms(7,8) by (simp add: piped_def handle_kept_def)
  obtain n e1 w1 where wr: "SendStream_Write I send message w = Some ((n, e1), w1)"
    using assms(1) by (auto simp: exchange_def io_WriteString_def bind_eq_Some_conv)
  note p = piped_write [OF assms(2,3) wr piped assms(5)]
  show ?thesis
  proof (cases e1)
    case (Some e)
    then have "err = Some (Errorf ''write: %w'' [] (Some e))" "out = []" "w' = w1"
      using assms(1) wr by (auto simp: exchange_def io_WriteString_def)
    then show ?thesis using p(2,5) by (intro exI [of _ "nat n"] exI [of _ "[]"]) simp
  next
    case None
    then have sent1: "sent (net w1) hs = sent (net w) hs @ message" using p(5,6) by simp
    obtain e2 w2 where close: "SendStream_Close I send w1 = Some (e2, w2)"
      using assms(1) wr None by (auto simp: exchange_def io_WriteString_def bind_eq_Some_conv)
    have st1: "streaming (copying hr hs) recv hr w1" and kept: "handle_kept send hs w1"
      using p(1) by (auto simp: piped_streams streaming_def)
    have "aside (\<lambda>n. got n hr) w w1"
      using write_resume_rule [OF assms(2) copying_beside(1) [OF assms(2,3)] assms(5) wr [unfolded SendStream_Write_def] assms(8)]
      by simp
    then have "names_object (sh (streams w1 send)) w1 \<or> sh (streams w1 send) = 0"
      using names_object_aside assms(9) kept by (auto simp: handle_kept_def)
    note f = send_close_rule [OF close copying_steady [OF assms(2,3)] st1] and st2 = send_close_rule(3) [OF close copying_steady [OF assms(2,3)] st1 this]
    have net2: "got (net w2) hr = got (net w) hr" "sent (net w2) hs = sent (net w) hs @ message"
      using f(1) p(2) sent1 by simp_all
    show ?thesis
    proof (cases e2)
      case (Some e)
      then have "err = Some (Errorf ''finish: %w'' [] (Some e))" "out = []" "w' = w2"
        using assms(1) wr None close by (auto simp: exchange_def io_WriteString_def)
      then show ?thesis using net2 by (intro exI [of _ "length message"] exI [of _ "[]"]) simp
    next
      case e2: None
      obtain reply e3 where rd: "read_all_loop I grow recv [] w2 = Some ((reply, e3), w')"
        and res: "(err, out) = (case e3 of Some e \<Rightarrow> (Some (Errorf ''read: %w'' [] (Some e)), [])
            | None \<Rightarrow> (None, [Prints (''echoed back: %s'' @ [newline]) [ArgStr reply]]))"
        using assms(1) wr None close e2 by (auto simp: exchange_def io_WriteString_def io_ReadAll_def bind_eq_Some_conv)
      note r = read_all_loop_rule [OF assms(3,4) copying_beside(2) [OF assms(2,3)] rd st2]
      have "handle_kept send 0 w'" using r f(2) by (auto simp: aside_def handle_kept_def)
      then have "sh (streams w' send) = 0" by (simp add: handle_kept_def)
      then show ?thesis using r net2 res
        by (intro exI [of _ "length message"] exI [of _ reply]) (auto simp: aside_def split: option.splits)
    qed
  qed
qed

subsection \<open>Examples\<close>

lemma arm_stream_world:
  "deadline_arm 0 (stream_world s None n es) = ((Ctx 0, 0, 0), snd (deadline_arm 0 (stream_world s None n es)))"
  by (simp add: deadline_arm_def stream_world_def world_with_def world_init_def no_deadline_def WithCancel_def new_ctx_def Let_def)

lemma write_closed: "sh (streams w a) = 0 \<Longrightarrow> \<exists>v. SendStream_Write I a p w = Some ((0, Some (Sentinel ErrClosed)), v)"
  unfolding SendStream_Write_def
  by (subst write_resume.simps) (simp add: case_prod_unfold Let_def WriteContext_def handle_get_def deadlineErr_def slice_from_def go_int_id)

text \<open>A crate whose streams deliver \<^verbatim>\<open>hello\<close> in one piece to any read that has the room, and then end.\<close>

definition one_piece :: "echo_net iroh" where
  "one_piece = echo\<lparr>i_read_chunk := \<lambda>h m n. if snd n h = [] \<and> 5 \<le> m
     then (Inr (Some ''hello''), (fst n, (snd n)(h := ''hello''))) else (Inr None, n)\<rparr>"

lemma one_piece_laws: "write_law one_piece fst" "read_law one_piece snd"
  by (auto simp: one_piece_def write_law_def read_law_def leaves_def echo_def word_le_nat_alt min_def unat_of_nat take_bit_nat_eq_self)

theorem serve_echoes_witness:
  "\<exists>w' k. echo_back one_piece 7 0 (stream_world SRecv None echo_start attempt) = Some ([Logs ''echo: %v'' [ArgErr (Sentinel ErrClosed)]], w')
     \<and> k \<le> length (snd (net w') 1) \<and> fst (net w') 0 = take k (snd (net w') 1)"
proof -
  define w where "w = stream_world SRecv None echo_start attempt"
  define w1 where "w1 = snd (deadline_arm 0 w)"
  define p where "p = replicate copy_buffer (CHR 0x00)"
  have len: "length p = 32768" unfolding p_def by (simp add: copy_buffer_def)
  have arm: "deadline_arm 0 w = ((Ctx 0, 0, 0), w1)" unfolding w1_def w_def by (rule arm_stream_world)
  have h1: "sh (streams w1 0) = 1" unfolding w1_def w_def by simp
  define x where "x = Option.bind (lock_stream one_piece 0 w1) (\<lambda>v. let r = begin_op (iroh_recv_read 1 32768 v) in
      await_collect iroh_op_result_bytes one_piece (Ctx 0) (fst r) (snd r))"
  have "map_option (\<lambda>(r, v). (r, fst (unsafe_Slice 1 5 v), sh (streams v 7))) x = Some (Inr (1, 5, 0), ''hello'', 0)"
    unfolding x_def w1_def w_def by code_simp
  then obtain v w2 where lock: "lock_stream one_piece 0 w1 = Some v"
    and aw: "await_collect iroh_op_result_bytes one_piece (Ctx 0) (fst (begin_op (iroh_recv_read 1 32768 v)))
      (snd (begin_op (iroh_recv_read 1 32768 v))) = Some (Inr (1, 5, 0), w2)"
    and b: "fst (unsafe_Slice 1 5 w2) = ''hello''" "sh (streams w2 7) = 0"
    unfolding x_def by (auto simp: bind_eq_Some_conv Let_def)
  define w3 where "w3 = free_bytes 1 5 (snd (unsafe_Slice 1 5 w2))"
  define d n where "d = fst (unsafe_Slice 1 5 w2)" and "n = min (length p) (length d)"
  have "RecvRead one_piece (Ctx 0) 1 p v = Some (Inr (n, take n d @ drop n p, False), w3)"
    using aw by (simp add: RecvRead_def len AwaitBytesInto_def case_prod_unfold Let_def w3_def d_def n_def)
  moreover have "n = 5" "take 5 d = ''hello''" using b(1) by (simp_all add: n_def len d_def)
  ultimately have "RecvRead one_piece (Ctx 0) 1 p v = Some (Inr (5, ''hello'' @ drop 5 p, False), w3)" by simp
  then have "ReadContext one_piece 0 (Ctx 0) p w1 = Some ((5, ''hello'' @ drop 5 p, None), unlock_stream 0 w3)"
    using len lock by (simp add: ReadContext_def h1 handle_get_def)
  then have rd: "RecvStream_Read one_piece 0 p w = Some ((5, ''hello'' @ drop 5 p, None), deadline_release 0 (0, 0) (unlock_stream 0 w3))"
    by (subst RecvStream_Read.simps) (simp add: arm)
  have "streams w3 = streams w2" by (rule go_side_of_more) (simp add: w3_def)
  then have "sh (streams (deadline_release 0 (0, 0) (unlock_stream 0 w3)) 7) = 0" by (simp add: unlock_stream_def b(2))
  from write_closed [OF this, of one_piece] obtain w' where
    "SendStream_Write one_piece 7 ''hello'' (deadline_release 0 (0, 0) (unlock_stream 0 w3)) = Some ((0, Some (Sentinel ErrClosed)), w')"
    by blast
  then have run: "echo_back one_piece 7 0 w = Some ([Logs ''echo: %v'' [ArgErr (Sentinel ErrClosed)]], w')"
    unfolding echo_back_def io_Copy_def p_def [symmetric] by (subst copy_loop.simps) (simp add: rd)
  have h: "sh (streams w 7) = 0" "sh (streams w 0) = 1" "net w = echo_start"
    by (simp_all add: w_def stream_world_def world_with_def world_init_def Let_def)
  have "streaming (copying 1 0) 0 1 w" unfolding w_def by (rule streaming_stream_world) simp_all
  then have "streaming (copying 1 0) 7 0 w" by (simp add: streaming_def handle_kept_def h)
  from serve_echoes [OF run one_piece_laws h(1) [symmetric] h(2) [symmetric] this]
  obtain x k where "k \<le> length x" "snd (net w') 1 = x" "fst (net w') 0 = take k x" by (auto simp: h(3) echo_start_def)
  then show ?thesis using run unfolding w_def by blast
qed

text \<open>
  A world with a receive stream at address 0 under handle 1 that has ended, and a send stream at
  address 7 under handle 2, which another goroutine closes while this one waits for its mutex.
\<close>

definition two_streams :: "env list \<Rightarrow> echo_net world" where
  "two_streams es = (let w = stream_world SRecv None (\<lambda>_. [], \<lambda>_. ''hello'') es in
     w\<lparr>reg := snd (insert_slot SSend (reg w)),
       streams := (streams w)(7 := \<lparr>sh = 2, smu = Unlocked, sdl = no_deadline, sconn = 0\<rparr>)\<rparr>)"

lemma two_streams_simps [simp]: "sh (streams (two_streams es) 7) = 2" "sh (streams (two_streams es) 0) = 1"
  "net (two_streams es) = (\<lambda>_. [], \<lambda>_. ''hello'')"
  by (simp_all add: two_streams_def Let_def stream_world_def world_with_def world_init_def)

lemma streaming_two_streams:
  assumes "length es < 1000" and "\<forall>g. Ev (StartOp g) \<in> set es \<longrightarrow> okay g"
  shows "streaming okay 7 2 (two_streams es)" "names_object 2 (two_streams es)"
proof -
  let ?n = "(\<lambda>_. [], \<lambda>_. ''hello'') :: echo_net"
  let ?v = "stream_world SRecv None ?n es" and ?w = "two_streams es"
  have v: "streaming okay 0 1 ?v" by (rule streaming_stream_world) (use assms in simp_all)
  obtain r s where w: "?w = ?v\<lparr>reg := r, streams := s\<rparr>" and r: "r = snd (insert_slot SSend (reg ?v))" and s: "sh (s 7) = 2"
    by (auto simp: two_streams_def Let_def)
  have reg: "reg ?v = snd (insert_slot SRecv registry_init)" by (simp add: stream_world_def world_with_def world_init_def Let_def)
  have "pump_ok (?v\<lparr>streams := s\<rparr>)" using v by (simp add: streaming_def world_ok_def)
  moreover have "?w = ?v\<lparr>streams := s\<rparr>\<lparr>reg := r\<rparr>" by (simp add: w)
  ultimately have "pump_inv ?w" by (simp only: pump_ok_def pump_inv_frame)
  moreover have "lib_inv ?w"
    by (rule lib_invI) (auto simp: w r reg live_simps under_way_def carries_def result_of_def is_op_def stream_world_def world_with_def
        world_init_def Let_def split: if_splits slot.splits)
  moreover have "quiet okay ?w"
    using v by (auto simp: streaming_def quiet_def clean_def w r reg live_simps split: if_splits)
  ultimately show "streaming okay 7 2 ?w"
    using v assms(1) by (simp add: streaming_def world_ok_def pump_ok_def room_def ctx_ok_def handle_kept_def w s r reg live_simps)
  show "names_object 2 ?w" by (simp add: names_object_def w r reg live_simps is_op_def)
qed

theorem exchange_exact_witness:
  "\<exists>w'. exchange one_piece (\<lambda>_. 8) 7 0 [] (two_streams
       [TakesHandle 7, Go True, Go True, Go True, Ev (TaskFinishes 3), Ev PumpWaits, Ev PumpSends, Go True]) =
     Some ((None, [Prints (''echoed back: %s'' @ [newline]) [ArgStr []]]), w') \<and> fst (net w') 2 = []"
proof -
  define es where "es = [Go True, Go True, Ev (TaskFinishes 3), Ev PumpWaits, Ev PumpSends, Go True]"
  define w where "w = two_streams (TakesHandle 7 # Go True # es)"
  define w1 where "w1 = (two_streams es)\<lparr>ctxs := (\<lambda>_. \<lparr>ctx_err = None, ctx_deadline = None\<rparr>)(0 := \<lparr>ctx_err = Some Canceled, ctx_deadline = None\<rparr>),
    next_ctx := 1, streams := (streams (two_streams es))(7 := \<lparr>sh = 0, smu = Unlocked, sdl = no_deadline\<lparr>dl_next := 1\<rparr>, sconn = 0\<rparr>)\<rparr>"
  define p where "p = replicate 8 (CHR 0x00)"
  have 1: "SendStream_Write one_piece 7 [] w = Some ((0, None), w1)"
    unfolding SendStream_Write_def w_def w1_def
    by (subst write_resume.simps, simp add: slice_from_def deadline_arm_def two_streams_def stream_world_def world_with_def
        world_init_def Let_def no_deadline_def WithCancel_def new_ctx_def WriteContext_def handle_get_def lock_stream_def
        schedule_def handle_take_def, subst write_loop.simps)
      (simp add: unlock_stream_def deadline_release_def finish_ctx_def go_int_id)
  have "map_option fst (RecvStream_Read one_piece 0 p w1) = Some (0, p, Some EOF)"
    unfolding w1_def p_def es_def by code_simp
  then obtain w2 where 2: "RecvStream_Read one_piece 0 p w1 = Some ((0, p, Some EOF), w2)" by auto
  have close: "SendStream_Close one_piece 7 w1 = Some (None, w1)"
    by (simp add: SendStream_Close_def taken_again w1_def)
  have "io_ReadAll one_piece (\<lambda>_. 8) 0 w1 = Some (([], None), w2)"
    unfolding io_ReadAll_def by (subst read_all_loop.simps) (simp add: p_def [symmetric] 2)
  then have run: "exchange one_piece (\<lambda>_. 8) 7 0 [] w = Some ((None, [Prints (''echoed back: %s'' @ [newline]) [ArgStr []]]), w2)"
    by (simp add: exchange_def io_WriteString_def 1 close)
  have st: "streaming (copying 1 2) 7 2 w" "names_object 2 w"
    unfolding w_def es_def by (rule streaming_two_streams; simp)+
  have s: "sh (streams w 7) = 2" "sh (streams w 0) = 1" "net w = (\<lambda>_. [], \<lambda>_. ''hello'')" by (simp_all add: w_def)
  have "\<forall>m :: nat. 0 < (8 :: nat) \<and> (8 :: nat) < 2 ^ 63" by simp
  from exchange_exact [OF run one_piece_laws this _ s(1) [symmetric] s(2) [symmetric]] st
  show ?thesis using run s(3) unfolding w_def es_def by auto
qed

end
