(* ===== verification/Spec2Isabelle.thy ===== *)
theory Spec2Isabelle
  imports Stream_Properties Async_Calls Ticket_Properties Connection_Properties Endpoint_Properties Net_Conn_Properties
    Listener_Properties Loader_Properties Echo_Properties
begin

text \<open>
  A verification of the Go bindings of iroh (package \<^verbatim>\<open>iroh\<close>, with \<^verbatim>\<open>internal/ffi\<close> and \<^verbatim>\<open>internal/lib\<close>) together
  with the native library they drive (\<^verbatim>\<open>rust/irohgo-ffi\<close>).

  \<^bold>\<open>The program.\<close> The bindings load a Rust library without cgo and call it through function pointers. Objects
  of the library are 64-bit handles. Work that takes time is an operation: a call starts it and returns
  its handle, the library posts one completion to a queue, one goroutine (the pump) drains the queue and
  hands the status to the goroutine that waits, which collects the result and frees the operation. On
  top of that the package has endpoints, connections, streams with deadlines, addresses, tickets and
  keys, and presents streams and endpoints as \<^verbatim>\<open>net.Conn\<close> and \<^verbatim>\<open>net.Listener\<close>.

  \<^bold>\<open>The theories\<close>, each with its part of the code:

  \<^item> \<open>Prelude\<close>: machine types, decimal numerals, lemmas on words and lists. \<open>Go_Strings\<close>: the functions on
    strings of both standard libraries, with their inverse laws.
  \<^item> \<open>Go_Errors\<close> (\<^verbatim>\<open>errors.go\<close>): error values, kinds, sentinels, \<^verbatim>\<open>errors.Is\<close>.
  \<^item> \<open>Registry\<close> (\<^verbatim>\<open>registry.rs\<close>, \<^verbatim>\<open>error.rs\<close>): the sharded table of handles. Its interface is the locale
    \<open>handle_table\<close>, interpreted on the code's table; handles are never used twice, and the shards refine one map.
  \<^item> \<open>Native_Library\<close> (\<^verbatim>\<open>ops.rs\<close>, \<^verbatim>\<open>lib.rs\<close>, \<^verbatim>\<open>ffi.rs\<close>, the asynchronous half of \<^verbatim>\<open>stream.rs\<close>, \<^verbatim>\<open>conn.rs\<close> and
    \<^verbatim>\<open>endpoint.rs\<close>): operations, tasks, the completion queue, buffers, and the entry points that start
    operations. The record \<open>lib\<close> is the state of the library, \<open>fault\<close> its memory errors.
  \<^item> \<open>Completion_Pump\<close>, \<open>Pump_Invariant\<close> (\<^verbatim>\<open>pump.go\<close>): the tables of the pump and its steps, interleaved with the
    library's tasks; the invariant \<open>pump_ok\<close> by induction over reachable states.
  \<^item> \<open>Go_World\<close> (\<^verbatim>\<open>handle.go\<close>, the deadlines of \<^verbatim>\<open>stream.go\<close>): contexts, time, the objects of the package, and the
    scheduling of everything else. \<open>Await\<close>, \<open>Await_Rules\<close> (\<^verbatim>\<open>pump.go\<close>, \<^verbatim>\<open>internal/ffi/errors.go\<close>): waiting for an
    operation, with cancellation, and collecting its result; the rules every call rests on.
  \<^item> \<open>Calls\<close>, \<open>Call_Properties\<close> (\<^verbatim>\<open>internal/ffi/calls.go\<close>): the calls that wait; \<open>Async_Calls\<close>: what holds of all nineteen,
    those on endpoints included. \<open>Sync_Calls\<close> (\<^verbatim>\<open>calls.go\<close>, \<^verbatim>\<open>keys.rs\<close>,
    \<^verbatim>\<open>keys.go\<close>): the shapes of the calls that return at once, errors by their sentinel, and keys.
  \<^item> \<open>Streams\<close>, \<open>Stream_Rules\<close>, \<open>Stream_Properties\<close> (\<^verbatim>\<open>stream.go\<close>): reading, writing and closing. \<open>Stream_Rules\<close> has the
    locale \<open>go_invariant\<close> of predicates the rest of the process keeps, interpreted for handles,
    objects and everything a proof carries across a wait.
  \<^item> \<open>Addresses\<close>, \<open>Address_Properties\<close>, \<open>Ticket_Properties\<close> (\<^verbatim>\<open>addr.go\<close>, \<^verbatim>\<open>addr.rs\<close>): the line format of addresses on both
    sides, validation and tickets.
  \<^item> \<open>Connections\<close>, \<open>Connection_Properties\<close> (\<^verbatim>\<open>conn.go\<close>, \<^verbatim>\<open>conn.rs\<close>); \<open>Endpoints\<close>, \<open>Endpoint_Properties\<close> (\<^verbatim>\<open>endpoint.go\<close>,
    \<^verbatim>\<open>endpoint.rs\<close>): options, binding, dialling, accepting, closing.
  \<^item> \<open>Net_Conn\<close>, \<open>Net_Conn_Properties\<close>, \<open>Listener\<close>, \<open>Listener_Properties\<close> (\<^verbatim>\<open>netconn.go\<close>): streams as \<^verbatim>\<open>net.Conn\<close>; the listener as
    a step relation over its goroutines and callers.
  \<^item> \<open>Library_File\<close>, \<open>Library_File_Properties\<close> (\<^verbatim>\<open>internal/lib/lib.go\<close>): finding and extracting the library, over a disk
    on which other processes act and every call may fail.
  \<^item> \<open>Loader\<close>, \<open>Loader_Properties\<close> (\<^verbatim>\<open>internal/ffi/ffi.go\<close>, \<^verbatim>\<open>iroh.go\<close>): loading, the version check, binding the symbols.
  \<^item> \<open>Echo\<close>, \<open>Echo_Properties\<close> (\<^verbatim>\<open>examples/echo\<close>): the example program, a client of everything above, with the loops of
    package \<^verbatim>\<open>io\<close> it runs over two streams at once.

  \<^bold>\<open>State and concurrency.\<close> A method is a function on the world, the record that extends the state of the
  library with that of the pump and that of the package; objects of the package are addresses in it. Where the
  code blocks or gives way, \<open>schedule\<close> lets the rest of the process take the steps of the world's \<open>script\<close>:
  tasks finish or panic, the pump moves, contexts end, time passes, other goroutines set deadlines, take
  handles and lock streams, memory is collected. A property holds for every script, so for every
  interleaving; the value \<open>None\<close> is a call whose script ended before it could return. That calls
  can return is stated as such, by a script that ends them (C15, C16), and a read with an expired deadline
  is shown to make a single attempt (C10). Loops that may run forever are \<open>partial_function (option)\<close>; no
  other fuel is used. The listener, whose goroutines are all part of one component, is an inductive
  relation instead, and the disk takes its interference from a list of turns.

  \<^bold>\<open>Parameters.\<close> The iroh crate, quinn and tokio are the record \<open>iroh\<close>: what each call does to a state of the
  network of any type. What a read or a write moves is stated through laws of that record (\<open>read_law\<close>,
  \<open>write_law\<close>), which hold for the crate \<open>echo\<close> of the examples. The codecs of ids, keys and tickets are the
  record \<open>codec\<close>, \<^verbatim>\<open>net/netip\<close> the record \<open>netip\<close>, the synchronous answers of the crate \<open>queries\<close>, SHA-256 and the
  environment the record \<open>process\<close>, the dynamic loader the argument \<open>dlopen\<close> with its record \<open>dynlib\<close>, and the room
  \<^verbatim>\<open>io.ReadAll\<close> offers a read the function \<open>grow\<close>. Handle ids are
  64-bit words that wrap; the properties about them assume that there is \<open>room\<close>, that is, that fewer than
  \<open>2 ^ 64\<close> objects were made. Paths are those of systems that separate with a slash.

  \<^bold>\<open>The properties.\<close> C1 and C11--C15 are about the pump: one completion per operation, in one place, delivered without
  blocking, with tables that drain. C2, C16, C17, C26 are about calls: exact results under
  cancellation, nothing left behind. C3--C5, C8--C10 are about streams, C6 and C7 compose reading and writing into the
  two sides of the example program, C18--C20 about handles and errors,
  C21--C23, C27 and C40 about addresses, keys and tickets, C24 and C25 about connections, C28--C32 about endpoints, C33--C37 about \<^verbatim>\<open>net.Conn\<close>
  and the listener, C38 and C39 about the library file and loading.

  \<^bold>\<open>Not modelled.\<close> The text that \<^verbatim>\<open>fmt\<close> makes of a format and its arguments (kept as such); the garbage
  collector, except that the cleanup of a forgotten object may free its handle at any time;
  \<^verbatim>\<open>runtime.KeepAlive\<close> and the locking of the pump's thread; poisoned Rust mutexes; the mode bits of directories; the
  parsing of the example's flags; the tests; the files that choose the embedded copy by build tag.
\<close>

end
